(* ===== verification/Prelude.thy ===== *)
theory Prelude
  imports Complex_Main "HOL-Library.Word" "HOL-Library.Monad_Syntax" "HOL-Library.Stream"
begin

text \<open>
  What every component shares: the machine integers of the C sources (\<open>uint8_t\<close> up to
  \<open>uint64_t\<close> as words, \<open>int\<close> and \<open>long\<close> as \<open>int\<close> with their ranges written out),
  the overflow-checked operations of \<open>stdckdint.h\<close>, and the collections of rewrite rules
  the component theories add to.

  \<^item> \<open>word_nat\<close>: facts that move a statement about 64-bit words to \<open>nat\<close>.
  \<^item> \<open>frame\<close>: which parts of the state an operation leaves alone.
  \<^item> \<open>fairness\<close> and \<open>total\<close>: in a world that lets interrupted calls end, an operation
    returns and leaves such a world.
\<close>

unbundle bit_operations_syntax

named_theorems word_nat \<open>word operations read as natural numbers\<close>
named_theorems frame \<open>the parts of a state that an operation leaves unchanged\<close>
named_theorems fairness \<open>an operation leaves a fair world fair\<close>
named_theorems total \<open>an operation returns in a fair world\<close>

section \<open>Machine integers\<close>

type_synonym u8 = "8 word"
type_synonym u16 = "16 word"
type_synonym u32 = "32 word"
type_synonym u64 = "64 word"

text \<open>Readings of words stay natural numbers; the library would turn them into \<open>uint\<close>.\<close>

declare of_nat_unat [simp del]

definition UINT64_MAX :: u64 where
  "UINT64_MAX = 0xFFFFFFFFFFFFFFFF"

definition INT_MAX :: int where
  "INT_MAX = 2147483647"

definition LONG_MAX :: int where
  "LONG_MAX = 9223372036854775807"

definition LONG_MIN :: int where
  "LONG_MIN = - 9223372036854775808"

lemma unat_UINT64_MAX [simp]: "unat UINT64_MAX = 18446744073709551615"
  by (simp add: UINT64_MAX_def)

lemma unat_u64_bound [simp]: "unat (x :: u64) \<le> 18446744073709551615"
  using unsigned_less [of x, where ?'a = nat] by simp

lemma u64_le_max [simp]: "(x :: u64) \<le> UINT64_MAX"
  by (simp add: word_le_nat_alt)

lemma u64_eq_max_iff: "x = UINT64_MAX \<longleftrightarrow> unat x = 18446744073709551615"
  by (simp add: word_eq_iff_unsigned [where ?'a = nat])

lemmas u64_nat [word_nat] = word_le_nat_alt word_less_nat_alt u64_eq_max_iff

text \<open>A conversion \<open>(uint64_t)n\<close> of a non-negative \<open>int\<close> keeps the value.\<close>

lemma unat_of_int_u64:
  assumes "0 \<le> n" and "n < 18446744073709551616"
  shows "unat (word_of_int n :: u64) = nat n"
  using assms by (simp add: unat_eq_nat_uint uint_word_of_int)

lemma unat_of_int_u64_small:
  assumes "0 \<le> n" and "n \<le> INT_MAX"
  shows "unat (word_of_int n :: u64) = nat n"
  using assms by (simp add: unat_of_int_u64 INT_MAX_def)

lemma unat_sub_u64: "(b :: u64) \<le> a \<Longrightarrow> unat (a - b) = unat a - unat b"
  by (rule unat_sub)

section \<open>Overflow-checked arithmetic\<close>

text \<open>
  \<open>ckd_add(&r, a, b)\<close> stores the wrapped sum in \<open>r\<close> and returns whether it wrapped; no
  caller reads \<open>r\<close> after an overflow, so the result is an option, \<open>None\<close> on overflow.
\<close>

definition ckd_add :: "u64 \<Rightarrow> u64 \<Rightarrow> u64 option" where
  "ckd_add a b = (if unat a + unat b < 2 ^ 64 then Some (a + b) else None)"

definition ckd_mul :: "u64 \<Rightarrow> u64 \<Rightarrow> u64 option" where
  "ckd_mul a b = (if unat a * unat b < 2 ^ 64 then Some (a * b) else None)"

lemma ckd_add_Some_iff:
  "ckd_add a b = Some r \<longleftrightarrow> unat r = unat a + unat b"
proof
  assume "ckd_add a b = Some r"
  then show "unat r = unat a + unat b"
    by (auto simp: ckd_add_def unat_word_ariths split: if_splits)
next
  assume r: "unat r = unat a + unat b"
  then have "unat a + unat b < 2 ^ 64"
    using unsigned_less [of r, where ?'a = nat] by simp
  moreover from this r have "unat (a + b) = unat r"
    by (simp add: unat_word_ariths)
  ultimately show "ckd_add a b = Some r"
    by (simp add: ckd_add_def word_eq_iff_unsigned [where ?'a = nat])
qed

lemma ckd_mul_Some_iff:
  "ckd_mul a b = Some r \<longleftrightarrow> unat r = unat a * unat b"
proof
  assume "ckd_mul a b = Some r"
  then show "unat r = unat a * unat b"
    by (auto simp: ckd_mul_def unat_word_ariths split: if_splits)
next
  assume r: "unat r = unat a * unat b"
  then have "unat a * unat b < 2 ^ 64"
    using unsigned_less [of r, where ?'a = nat] by simp
  moreover from this r have "unat (a * b) = unat r"
    by (simp add: unat_word_ariths)
  ultimately show "ckd_mul a b = Some r"
    by (simp add: ckd_mul_def word_eq_iff_unsigned [where ?'a = nat])
qed

lemma ckd_add_None_iff: "ckd_add a b = None \<longleftrightarrow> 2 ^ 64 \<le> unat a + unat b"
  by (simp add: ckd_add_def)

lemma ckd_mul_None_iff: "ckd_mul a b = None \<longleftrightarrow> 2 ^ 64 \<le> unat a * unat b"
  by (simp add: ckd_mul_def)

lemmas ckd_iffs = ckd_add_Some_iff ckd_mul_Some_iff ckd_add_None_iff ckd_mul_None_iff

section \<open>Streams\<close>

text \<open>
  \<open>inf_often P s\<close>: the predicate holds again and again along the stream. The answers of
  the operating system are streams, and this is what a retry loop needs of them.
\<close>

definition inf_often :: "('a \<Rightarrow> bool) \<Rightarrow> 'a stream \<Rightarrow> bool" where
  "inf_often P s \<longleftrightarrow> (\<forall>n. \<exists>m. P (sdrop n s !! m))"

lemma inf_often_stl [simp, intro]: "inf_often P s \<Longrightarrow> inf_often P (stl s)"
  unfolding inf_often_def
proof
  fix n
  assume "\<forall>n. \<exists>m. P (sdrop n s !! m)"
  then have "\<exists>m. P (sdrop (Suc n) s !! m)" by blast
  then show "\<exists>m. P (sdrop n (stl s) !! m)" by simp
qed

lemma inf_often_sdrop [simp, intro]: "inf_often P s \<Longrightarrow> inf_often P (sdrop n s)"
  by (induction n arbitrary: s) auto

lemma inf_often_next:
  assumes "inf_often P s"
  obtains m where "P (s !! m)"
proof -
  from assms have "\<exists>m. P (sdrop 0 s !! m)"
    unfolding inf_often_def by blast
  then show thesis using that by auto
qed

lemma inf_often_sconst [simp]: "inf_often P (sconst x) \<longleftrightarrow> P x"
  by (auto simp: inf_often_def sdrop_snth)

text \<open>The position of the first element that satisfies a predicate, a measure for retry loops.\<close>

definition first :: "('a \<Rightarrow> bool) \<Rightarrow> 'a stream \<Rightarrow> nat" where
  "first P s = (LEAST n. P (s !! n))"

lemma first_holds: "inf_often P s \<Longrightarrow> P (s !! first P s)"
  unfolding first_def by (erule inf_often_next, erule LeastI)

lemma first_less: "P (s !! m) \<Longrightarrow> m < n \<Longrightarrow> first P s < n"
  unfolding first_def by (rule le_less_trans [OF Least_le])

lemma first_stl:
  assumes "inf_often P s" and "\<not> P (shd s)"
  shows "first P (stl s) < first P s"
proof (cases "first P s")
  case 0
  with first_holds [OF assms(1)] assms(2) show ?thesis by simp
next
  case (Suc n)
  with first_holds [OF assms(1)] have "P (stl s !! n)" by simp
  then show ?thesis by (rule first_less) (simp add: Suc)
qed

end
