(* ===== verification/CString.thy ===== *)
theory CString
  imports Prelude
begin

text \<open>
  The part of the C library the sources call on strings: \<open>strcasecmp\<close>, \<open>strtol\<close> and
  \<open>strtoull\<close> in base 10, and the decimal conversions of \<open>printf\<close>. A C string is the
  list of its characters before the terminating NUL; a fixed-size buffer written by
  \<open>snprintf\<close> holds a prefix of it. The program never calls \<open>setlocale\<close>, so the
  character classes are those of the \<open>"C"\<close> locale.
\<close>

section \<open>Characters\<close>

definition c_isspace :: "char \<Rightarrow> bool" where
  "c_isspace c = (of_char c \<in> {9, 10, 11, 12, 13, 32 :: nat})"

definition c_isdigit :: "char \<Rightarrow> bool" where
  "c_isdigit c = (48 \<le> (of_char c :: nat) \<and> (of_char c :: nat) \<le> 57)"

definition c_tolower :: "char \<Rightarrow> char" where
  "c_tolower c =
     (if 65 \<le> (of_char c :: nat) \<and> (of_char c :: nat) \<le> 90 then char_of (of_char c + 32 :: nat) else c)"

definition digit_val :: "char \<Rightarrow> nat" where
  "digit_val c = of_char c - 48"

definition digit_char :: "nat \<Rightarrow> char" where
  "digit_char d = char_of (48 + d)"

lemma of_char_digit_char: "d < 10 \<Longrightarrow> of_char (digit_char d) = (48 + d :: nat)"
  by (simp add: digit_char_def)

lemma digit_char_isdigit [simp]: "d < 10 \<Longrightarrow> c_isdigit (digit_char d)"
  by (simp add: c_isdigit_def of_char_digit_char)

lemma digit_val_digit_char [simp]: "d < 10 \<Longrightarrow> digit_val (digit_char d) = d"
  by (simp add: digit_val_def of_char_digit_char)

lemma digit_not_space: "c_isdigit c \<Longrightarrow> \<not> c_isspace c"
  by (auto simp: c_isdigit_def c_isspace_def)

lemma sign_classes [simp]:
  "\<not> c_isdigit (CHR ''-'')" "\<not> c_isdigit (CHR ''+'')"
  "\<not> c_isspace (CHR ''-'')" "\<not> c_isspace (CHR ''+'')"
  by (simp_all add: c_isdigit_def c_isspace_def)

section \<open>Comparison without case\<close>

text \<open>\<open>strcasecmp(lhs, rhs) == 0\<close>.\<close>

definition strcasecmp_eq :: "string \<Rightarrow> string \<Rightarrow> bool" where
  "strcasecmp_eq lhs rhs = (map c_tolower lhs = map c_tolower rhs)"

lemma strcasecmp_eq_refl [simp]: "strcasecmp_eq s s"
  by (simp add: strcasecmp_eq_def)

lemma c_tolower_idem: "c_tolower (c_tolower c) = c_tolower c"
  by (simp add: c_tolower_def)

section \<open>Decimal output\<close>

fun show_nat :: "nat \<Rightarrow> string" where
  "show_nat n = (if n < 10 then [digit_char n] else show_nat (n div 10) @ [digit_char (n mod 10)])"

declare show_nat.simps [simp del]

definition show_int :: "int \<Rightarrow> string" where
  "show_int i = (if i < 0 then CHR ''-'' # show_nat (nat (- i)) else show_nat (nat i))"

text \<open>\<open>%0<w>d\<close> of a non-negative number.\<close>

definition show_pad0 :: "nat \<Rightarrow> nat \<Rightarrow> string" where
  "show_pad0 w n = replicate (w - length (show_nat n)) (CHR ''0'') @ show_nat n"

text \<open>
  What \<open>snprintf(buf, n, ...)\<close> leaves in the buffer of \<open>n > 0\<close> bytes when the
  formatted text is \<open>s\<close>. Its return value is the untruncated length.
\<close>

definition snprintf_buf :: "nat \<Rightarrow> string \<Rightarrow> string" where
  "snprintf_buf n s = take (n - 1) s"

lemma snprintf_buf_fits: "length s < n \<Longrightarrow> snprintf_buf n s = s"
  by (simp add: snprintf_buf_def)

lemma snprintf_buf_length: "0 < n \<Longrightarrow> length (snprintf_buf n s) < n"
  by (simp add: snprintf_buf_def)

section \<open>Decimal input\<close>

definition digits_val :: "string \<Rightarrow> nat" where
  "digits_val ds = foldl (\<lambda>a c. 10 * a + digit_val c) 0 ds"

lemma digits_val_snoc: "digits_val (ds @ [c]) = 10 * digits_val ds + digit_val c"
  by (simp add: digits_val_def)

lemma digits_val_show_nat [simp]: "digits_val (show_nat n) = n"
proof (induction n rule: show_nat.induct)
  case (1 n)
  show ?case
  proof (cases "n < 10")
    case True
    then show ?thesis by (simp add: show_nat.simps [of n] digits_val_def)
  next
    case False
    then show ?thesis using "1.IH" by (simp add: show_nat.simps [of n] digits_val_snoc)
  qed
qed

lemma show_nat_digits: "list_all c_isdigit (show_nat n)"
proof (induction n rule: show_nat.induct)
  case (1 n)
  then show ?case by (cases "n < 10") (simp_all add: show_nat.simps [of n])
qed

lemma show_nat_nonempty [simp]: "show_nat n \<noteq> []"
  by (subst show_nat.simps) simp

text \<open>The optional sign of \<open>strtol\<close> and \<open>strtoull\<close>: negative or not, and the rest.\<close>

fun scan_sign :: "string \<Rightarrow> bool \<times> string" where
  "scan_sign (c # r) =
     (if c = CHR ''-'' then (True, r) else if c = CHR ''+'' then (False, r) else (False, c # r))"
| "scan_sign [] = (False, [])"

text \<open>
  \<open>strtol(s, &end, 10)\<close>: the value, the text at \<open>end\<close> and whether \<open>errno\<close> was set to
  \<open>ERANGE\<close>. Without a digit nothing is consumed and \<open>end\<close> is \<open>s\<close>.
\<close>

definition strtol :: "string \<Rightarrow> int \<times> string \<times> bool" where
  "strtol s =
     (let (neg, u) = scan_sign (dropWhile c_isspace s);
          ds = takeWhile c_isdigit u;
          rest = dropWhile c_isdigit u;
          v = (if neg then - int (digits_val ds) else int (digits_val ds))
      in if ds = [] then (0, s, False)
         else if LONG_MAX < v then (LONG_MAX, rest, True)
         else if v < LONG_MIN then (LONG_MIN, rest, True)
         else (v, rest, False))"

text \<open>
  \<open>strtoull(s, &end, 10)\<close>: a magnitude above \<open>ULLONG_MAX\<close> is \<open>ERANGE\<close>, and a minus sign
  negates the converted value in the unsigned type.
\<close>

definition strtoull :: "string \<Rightarrow> u64 \<times> string \<times> bool" where
  "strtoull s =
     (let (neg, u) = scan_sign (dropWhile c_isspace s);
          ds = takeWhile c_isdigit u;
          rest = dropWhile c_isdigit u;
          v = digits_val ds
      in if ds = [] then (0, s, False)
         else if unat UINT64_MAX < v then (UINT64_MAX, rest, True)
         else (if neg then - (word_of_nat v) else word_of_nat v, rest, False))"

section \<open>Which strings are decimal numbers\<close>

text \<open>
  The grammar the two functions accept when nothing is left over: white space, an optional
  sign, at least one digit.
\<close>

definition c_decimal :: "string \<Rightarrow> bool \<Rightarrow> nat \<Rightarrow> bool" where
  "c_decimal s neg v \<longleftrightarrow>
     (\<exists>ws sg ds. s = ws @ sg @ ds \<and> list_all c_isspace ws \<and>
        (if neg then sg = ''-'' else sg = [] \<or> sg = ''+'') \<and>
        ds \<noteq> [] \<and> list_all c_isdigit ds \<and> v = digits_val ds)"

lemma dropWhile_all_append:
  "list_all P xs \<Longrightarrow> (ys \<noteq> [] \<Longrightarrow> \<not> P (hd ys)) \<Longrightarrow> dropWhile P (xs @ ys) = ys"
  by (induction xs) (auto simp: dropWhile_eq_self_iff)

lemma takeWhile_all: "list_all P xs \<Longrightarrow> takeWhile P xs = xs"
  by (simp add: list_all_iff)

lemma dropWhile_all: "list_all P xs \<Longrightarrow> dropWhile P xs = []"
  by (simp add: list_all_iff)

text \<open>Both functions scan the same way; this is what the scan finds in a decimal string.\<close>

lemma scan_decimal:
  assumes "c_decimal s neg v"
  obtains u where "scan_sign (dropWhile c_isspace s) = (neg, u)" and "u \<noteq> []"
    and "list_all c_isdigit u" and "v = digits_val u"
proof -
  from assms obtain ws sg ds where s: "s = ws @ sg @ ds" and ws: "list_all c_isspace ws"
    and sg: "if neg then sg = ''-'' else sg = [] \<or> sg = ''+''"
    and ds: "ds \<noteq> []" "list_all c_isdigit ds" "v = digits_val ds"
    unfolding c_decimal_def by blast
  from ds obtain d ds' where d: "ds = d # ds'" "c_isdigit d" by (cases ds) auto
  then have nd: "d \<noteq> CHR ''-''" "d \<noteq> CHR ''+''" "\<not> c_isspace d"
    by (auto dest: digit_not_space)
  have "dropWhile c_isspace s = sg @ ds"
    unfolding s using ws sg d nd by (intro dropWhile_all_append) (auto split: if_splits)
  moreover have "scan_sign (sg @ ds) = (neg, ds)"
    using sg d nd by (auto split: if_splits)
  ultimately show thesis using ds that by simp
qed

lemma decimal_of_scan:
  assumes "scan_sign (dropWhile c_isspace s) = (neg, u)" and "u \<noteq> []"
    and "list_all c_isdigit u"
  shows "c_decimal s neg (digits_val u)"
proof -
  define t where "t = dropWhile c_isspace s"
  obtain sg where t: "t = sg @ u" and sg: "if neg then sg = ''-'' else sg = [] \<or> sg = ''+''"
    using assms(1) unfolding t_def [symmetric]
    by (cases t) (auto split: if_splits)
  have "s = takeWhile c_isspace s @ sg @ u"
    using t unfolding t_def by (metis takeWhile_dropWhile_id)
  moreover have "list_all c_isspace (takeWhile c_isspace s)"
    by (auto simp: list_all_iff dest: set_takeWhileD)
  ultimately show ?thesis unfolding c_decimal_def using sg assms(2,3) by blast
qed

lemma scan_sign_length: "scan_sign t = (neg, u) \<Longrightarrow> length u \<le> length t"
  by (cases t) (auto split: if_splits)

lemma scan_rest_shorter:
  "scan_sign (dropWhile c_isspace s) = (neg, u) \<Longrightarrow> takeWhile c_isdigit u \<noteq> [] \<Longrightarrow>
   dropWhile c_isdigit u \<noteq> s"
proof
  assume scan: "scan_sign (dropWhile c_isspace s) = (neg, u)"
    and tk: "takeWhile c_isdigit u \<noteq> []" and eq: "dropWhile c_isdigit u = s"
  have "length u \<le> length (dropWhile c_isspace s)"
    using scan by (rule scan_sign_length)
  also have "\<dots> \<le> length s" by (rule length_dropWhile_le)
  finally have "length u \<le> length s" .
  moreover have "length u = length (takeWhile c_isdigit u) + length (dropWhile c_isdigit u)"
    by (metis length_append takeWhile_dropWhile_id)
  ultimately show False using tk eq by simp
qed

text \<open>
  The check every caller makes after the conversion (\<open>errno == 0\<close>, \<open>end != s\<close>,
  \<open>*end == 0\<close>), for \<open>strtol\<close>: exactly the decimal strings whose value a \<open>long\<close> holds.
\<close>

definition signed_val :: "bool \<Rightarrow> nat \<Rightarrow> int" where
  "signed_val neg v = (if neg then - int v else int v)"

lemma strtol_complete_iff:
  "(\<exists>rest. strtol s = (i, rest, False) \<and> rest \<noteq> s \<and> rest = []) \<longleftrightarrow>
   (\<exists>neg v. c_decimal s neg v \<and> i = signed_val neg v \<and> LONG_MIN \<le> i \<and> i \<le> LONG_MAX)"
  (is "?L \<longleftrightarrow> ?R")
proof
  assume ?L
  then have st: "strtol s = (i, [], False)" and ne: "s \<noteq> []" by auto
  obtain neg u where sc: "scan_sign (dropWhile c_isspace s) = (neg, u)" by fastforce
  from st sc ne have "takeWhile c_isdigit u \<noteq> []" "dropWhile c_isdigit u = []"
    and i: "i = signed_val neg (digits_val (takeWhile c_isdigit u))"
    and b: "LONG_MIN \<le> i" "i \<le> LONG_MAX"
    by (auto simp: strtol_def Let_def signed_val_def split: if_splits)
  then have "u \<noteq> []" "list_all c_isdigit u" "takeWhile c_isdigit u = u"
    by (auto simp: list_all_iff dropWhile_eq_Nil_conv)
  with sc i b show ?R using decimal_of_scan by metis
next
  assume ?R
  then obtain neg v where dec: "c_decimal s neg v" and i: "i = signed_val neg v"
    and b: "LONG_MIN \<le> i" "i \<le> LONG_MAX" by blast
  from dec obtain u where u: "scan_sign (dropWhile c_isspace s) = (neg, u)" "u \<noteq> []"
    "list_all c_isdigit u" "v = digits_val u" by (rule scan_decimal)
  then have "strtol s = (i, [], False)"
    using i b by (auto simp: strtol_def Let_def signed_val_def takeWhile_all dropWhile_all)
  moreover have "s \<noteq> []" using u by auto
  ultimately show ?L by blast
qed

lemma strtoull_complete_iff:
  "(\<exists>rest. strtoull s = (w, rest, False) \<and> rest \<noteq> s \<and> rest = []) \<longleftrightarrow>
   (\<exists>neg v. c_decimal s neg v \<and> v \<le> unat UINT64_MAX \<and>
      w = (if neg then - word_of_nat v else word_of_nat v))"
  (is "?L \<longleftrightarrow> ?R")
proof
  assume ?L
  then have st: "strtoull s = (w, [], False)" and ne: "s \<noteq> []" by auto
  obtain neg u where sc: "scan_sign (dropWhile c_isspace s) = (neg, u)" by fastforce
  from st sc ne have "takeWhile c_isdigit u \<noteq> []" "dropWhile c_isdigit u = []"
    and i: "w = (if neg then - word_of_nat (digits_val (takeWhile c_isdigit u))
               else word_of_nat (digits_val (takeWhile c_isdigit u)))"
    and b: "digits_val (takeWhile c_isdigit u) \<le> unat UINT64_MAX"
    by (auto simp: strtoull_def Let_def split: if_splits)
  then have "u \<noteq> []" "list_all c_isdigit u" "takeWhile c_isdigit u = u"
    by (auto simp: list_all_iff dropWhile_eq_Nil_conv)
  with sc i b show ?R using decimal_of_scan by metis
next
  assume ?R
  then obtain neg v where dec: "c_decimal s neg v"
    and w: "w = (if neg then - word_of_nat v else word_of_nat v)"
    and b: "v \<le> unat UINT64_MAX" by blast
  from dec obtain u where u: "scan_sign (dropWhile c_isspace s) = (neg, u)" "u \<noteq> []"
    "list_all c_isdigit u" "v = digits_val u" by (rule scan_decimal)
  then have "strtoull s = (w, [], False)"
    using w b by (auto simp: strtoull_def Let_def takeWhile_all dropWhile_all)
  moreover have "s \<noteq> []" using u by auto
  ultimately show ?L by blast
qed

lemma c_decimal_show_int: "c_decimal (show_int i) (i < 0) (nat \<bar>i\<bar>)"
proof -
  have "show_int i = [] @ (if i < 0 then ''-'' else []) @ show_nat (nat \<bar>i\<bar>)"
    by (simp add: show_int_def)
  then show ?thesis unfolding c_decimal_def
    using show_nat_digits [of "nat \<bar>i\<bar>"]
    by (intro exI [of _ "[]"] exI [of _ "if i < 0 then ''-'' else []"]
        exI [of _ "show_nat (nat \<bar>i\<bar>)"]) auto
qed

end
