(* ===== verification/World.thy ===== *)
theory World
  imports CString
begin

text \<open>
  The operating system as the program sees it. Every system call of the sources is a function
  here that takes the next answer from a stream of the world, records in the trace what an
  observer of the process can see, and returns the answer. The streams are arbitrary, so a
  theorem over a world is a theorem over everything the kernel may answer. What does not change
  during a run (the environment variables, the process id, the C library functions without
  state, the byte order) is the record \<open>host\<close>; the functions of the C library whose code is
  not part of the repository (\<open>inet_pton\<close>, \<open>localtime_r\<close>, \<open>strerror\<close>) are
  fields of it, hence parameters of everything proved.
\<close>

section \<open>Constants and data of the system interface\<close>

text \<open>Linux values; \<open>EWOULDBLOCK\<close> is \<open>EAGAIN\<close> there.\<close>

definition EINTR :: int where "EINTR = 4"
definition EAGAIN :: int where "EAGAIN = 11"
definition EWOULDBLOCK :: int where "EWOULDBLOCK = EAGAIN"
definition ENOBUFS :: int where "ENOBUFS = 105"

definition AF_INET :: int where "AF_INET = 2"
definition AF_INET6 :: int where "AF_INET6 = 10"
definition AF_UNIX :: int where "AF_UNIX = 1"
definition IPPROTO_ICMP :: int where "IPPROTO_ICMP = 1"
definition IPPROTO_ICMPV6 :: int where "IPPROTO_ICMPV6 = 58"

definition SOCK_DGRAM :: int where "SOCK_DGRAM = 2"
definition SOCK_RAW :: int where "SOCK_RAW = 3"
definition SOCK_NONBLOCK :: int where "SOCK_NONBLOCK = 2048"
definition SOCK_CLOEXEC :: int where "SOCK_CLOEXEC = 524288"

definition SIGINT :: int where "SIGINT = 2"
definition SIGUSR1 :: int where "SIGUSR1 = 10"
definition SIGTERM :: int where "SIGTERM = 15"

definition POLLIN :: u16 where "POLLIN = 1"
definition POLLERR :: u16 where "POLLERR = 8"
definition POLLHUP :: u16 where "POLLHUP = 16"
definition POLLNVAL :: u16 where "POLLNVAL = 32"

lemmas errno_defs = EINTR_def EAGAIN_def EWOULDBLOCK_def ENOBUFS_def
lemmas af_defs = AF_INET_def AF_INET6_def AF_UNIX_def
lemmas sock_defs = SOCK_DGRAM_def SOCK_RAW_def SOCK_NONBLOCK_def SOCK_CLOEXEC_def
lemmas signal_defs = SIGINT_def SIGUSR1_def SIGTERM_def
lemmas poll_defs = POLLIN_def POLLERR_def POLLHUP_def POLLNVAL_def

datatype clockid = CLOCK_REALTIME | CLOCK_MONOTONIC | CLOCK_MONOTONIC_COARSE

record timespec =
  tv_sec :: int
  tv_nsec :: int

record tm =
  tm_year :: int
  tm_mon :: int
  tm_mday :: int
  tm_hour :: int
  tm_min :: int
  tm_sec :: int

text \<open>
  A socket address: the family, and the address bytes in the place where the family keeps
  them (\<open>sin_addr\<close>, 4 bytes; \<open>sin6_addr\<close>, 16 bytes). Ports and scopes are never read.
\<close>

record sockaddr_storage =
  ss_family :: int
  sin_addr :: "u8 list"
  sin6_addr :: "u8 list"

text \<open>A local socket address: the 108 bytes of \<open>sun_path\<close>.\<close>

record sockaddr_un =
  sun_family :: int
  sun_path :: string

text \<open>Classic BPF instructions, as the macros \<open>BPF_STMT\<close> and \<open>BPF_JUMP\<close> write them.\<close>

datatype sock_filter =
    BPF_LD_B_ABS nat
  | BPF_LD_B_IND nat
  | BPF_ALU_AND_K u32
  | BPF_ALU_MUL_K u32
  | BPF_MISC_TAX
  | BPF_JMP_JEQ_K u32 nat nat
  | BPF_RET_K nat

record host =
  getenv :: "string \<Rightarrow> string option"
  getpid :: int
  strerror :: "int \<Rightarrow> string"
  localtime_r :: "int \<Rightarrow> tm option"
  inet_pton4 :: "string \<Rightarrow> u8 list option"
  inet_pton6 :: "string \<Rightarrow> u8 list option"
  little_endian :: bool

text \<open>What \<open>poll\<close> answers: an error or the number of ready descriptors, and both \<open>revents\<close>.\<close>

record poll_answer =
  poll_ret :: "int + nat"
  poll_signal_revents :: u16
  poll_icmp_revents :: u16

section \<open>What an observer of the process sees\<close>

datatype event =
    Stderr string
  | Stdout string
  | Opened int
  | Closed int
  | Socket_call int int int
  | Filter_attached int "sock_filter list"
  | Connecting int sockaddr_un nat
  | Sent_packet int "u8 list" sockaddr_storage nat
  | Notify_sent int string
  | Slept int
  | Polled int
  | Signals_blocked "int list"
  | Signals_restored
  | Spawned string "string list" "string list"

datatype event_class =
  Cls_text | Cls_fd | Cls_socket | Cls_packet | Cls_notify | Cls_wait | Cls_signals | Cls_spawn

fun class_of :: "event \<Rightarrow> event_class" where
  "class_of (Stderr s) = Cls_text"
| "class_of (Stdout s) = Cls_text"
| "class_of (Opened fd) = Cls_fd"
| "class_of (Closed fd) = Cls_fd"
| "class_of (Socket_call d t p) = Cls_socket"
| "class_of (Filter_attached fd p) = Cls_socket"
| "class_of (Connecting fd a len) = Cls_socket"
| "class_of (Sent_packet fd p a len) = Cls_packet"
| "class_of (Notify_sent fd m) = Cls_notify"
| "class_of (Slept ns) = Cls_wait"
| "class_of (Polled ms) = Cls_wait"
| "class_of (Signals_blocked ss) = Cls_signals"
| "class_of Signals_restored = Cls_signals"
| "class_of (Spawned path argv envp) = Cls_spawn"

section \<open>The world\<close>

text \<open>
  An answer of a system call is \<open>Inl errno\<close> or \<open>Inr\<close> of the result; where the result carries
  nothing, \<open>None\<close> is success and \<open>Some errno\<close> failure; an interrupted \<open>nanosleep\<close> also says
  how many nanoseconds remain. A failed \<open>clock_gettime\<close> is \<open>None\<close>.
\<close>

record world =
  host :: host
  trace :: "event list"
  mono_in :: "timespec option stream"
  real_in :: "timespec option stream"
  nanosleep_in :: "(int \<times> int) option stream"
  socket_in :: "(int + nat) stream"
  connect_in :: "int option stream"
  send_in :: "(int + nat) stream"
  sendto_in :: "(int + nat) stream"
  recvfrom_in :: "(int + u8 list \<times> sockaddr_storage) stream"
  sigprocmask_in :: "int option stream"
  signalfd_in :: "(int + nat) stream"
  sigread_in :: "int option stream"
  poll_in :: "poll_answer stream"
  spawn_rc_in :: "int stream"
  spawn_in :: "(int + int) stream"
  waitpid_in :: "(int + nat \<times> int) stream"

definition emit :: "event \<Rightarrow> world \<Rightarrow> world" where
  "emit e w = w\<lparr>trace := trace w @ [e]\<rparr>"

definition sys_clock_gettime :: "clockid \<Rightarrow> world \<Rightarrow> timespec option \<times> world" where
  "sys_clock_gettime c w =
     (if c = CLOCK_REALTIME then (shd (real_in w), w\<lparr>real_in := stl (real_in w)\<rparr>)
      else (shd (mono_in w), w\<lparr>mono_in := stl (mono_in w)\<rparr>))"

definition sys_nanosleep :: "int \<Rightarrow> world \<Rightarrow> (int \<times> int) option \<times> world" where
  "sys_nanosleep ns w =
     (shd (nanosleep_in w), emit (Slept ns) (w\<lparr>nanosleep_in := stl (nanosleep_in w)\<rparr>))"

text \<open>A descriptor that \<open>socket\<close> or \<open>signalfd\<close> returns is recorded as opened.\<close>

definition sys_socket :: "int \<Rightarrow> int \<Rightarrow> int \<Rightarrow> world \<Rightarrow> (int + int) \<times> world" where
  "sys_socket domain ty proto w =
     (let w1 = emit (Socket_call domain ty proto) (w\<lparr>socket_in := stl (socket_in w)\<rparr>)
      in case shd (socket_in w) of Inl e \<Rightarrow> (Inl e, w1) | Inr fd \<Rightarrow> (Inr (int fd), emit (Opened (int fd)) w1))"

definition sys_signalfd :: "world \<Rightarrow> (int + int) \<times> world" where
  "sys_signalfd w =
     (let w1 = w\<lparr>signalfd_in := stl (signalfd_in w)\<rparr>
      in case shd (signalfd_in w) of Inl e \<Rightarrow> (Inl e, w1) | Inr fd \<Rightarrow> (Inr (int fd), emit (Opened (int fd)) w1))"

definition sys_close :: "int \<Rightarrow> world \<Rightarrow> world" where
  "sys_close fd w = emit (Closed fd) w"

definition sys_attach_filter :: "int \<Rightarrow> sock_filter list \<Rightarrow> world \<Rightarrow> world" where
  "sys_attach_filter fd prog w = emit (Filter_attached fd prog) w"

definition sys_connect :: "int \<times> sockaddr_un \<times> nat \<Rightarrow> world \<Rightarrow> int option \<times> world" where
  "sys_connect target w =
     (shd (connect_in w),
      emit (case target of (fd, addr, len) \<Rightarrow> Connecting fd addr len)
        (w\<lparr>connect_in := stl (connect_in w)\<rparr>))"

definition sys_send :: "int \<Rightarrow> string \<Rightarrow> world \<Rightarrow> (int + nat) \<times> world" where
  "sys_send fd msg w =
     (shd (send_in w), emit (Notify_sent fd msg) (w\<lparr>send_in := stl (send_in w)\<rparr>))"

definition sys_sendto ::
    "int \<Rightarrow> u8 list \<Rightarrow> sockaddr_storage \<Rightarrow> nat \<Rightarrow> world \<Rightarrow> (int + nat) \<times> world" where
  "sys_sendto fd bytes addr addr_len w =
     (shd (sendto_in w), emit (Sent_packet fd bytes addr addr_len) (w\<lparr>sendto_in := stl (sendto_in w)\<rparr>))"

text \<open>A datagram longer than the buffer is cut at the buffer's size.\<close>

definition sys_recvfrom ::
    "nat \<Rightarrow> world \<Rightarrow> (int + u8 list \<times> sockaddr_storage) \<times> world" where
  "sys_recvfrom bufsize w =
     (case shd (recvfrom_in w) of Inl e \<Rightarrow> Inl e | Inr (bs, a) \<Rightarrow> Inr (take bufsize bs, a),
      w\<lparr>recvfrom_in := stl (recvfrom_in w)\<rparr>)"

definition sys_sigprocmask :: "event \<Rightarrow> world \<Rightarrow> int option \<times> world" where
  "sys_sigprocmask e w =
     (let w1 = w\<lparr>sigprocmask_in := stl (sigprocmask_in w)\<rparr>
      in case shd (sigprocmask_in w) of None \<Rightarrow> (None, emit e w1) | Some err \<Rightarrow> (Some err, w1))"

text \<open>\<open>read\<close> on the signal descriptor: the signal number, or \<open>None\<close> for a failed or short read.\<close>

definition sys_read_signal :: "world \<Rightarrow> int option \<times> world" where
  "sys_read_signal w = (shd (sigread_in w), w\<lparr>sigread_in := stl (sigread_in w)\<rparr>)"

definition sys_poll :: "int \<Rightarrow> world \<Rightarrow> poll_answer \<times> world" where
  "sys_poll timeout_ms w =
     (shd (poll_in w), emit (Polled timeout_ms) (w\<lparr>poll_in := stl (poll_in w)\<rparr>))"

text \<open>One return code of the \<open>posix_spawn_file_actions_*\<close> functions: 0 or an error number.\<close>

definition sys_file_action :: "world \<Rightarrow> int \<times> world" where
  "sys_file_action w = (shd (spawn_rc_in w), w\<lparr>spawn_rc_in := stl (spawn_rc_in w)\<rparr>)"

definition sys_posix_spawn ::
    "string \<Rightarrow> string list \<Rightarrow> string list \<Rightarrow> world \<Rightarrow> (int + int) \<times> world" where
  "sys_posix_spawn path argv envp w =
     (shd (spawn_in w), emit (Spawned path argv envp) (w\<lparr>spawn_in := stl (spawn_in w)\<rparr>))"

definition sys_waitpid :: "world \<Rightarrow> (int + nat \<times> int) \<times> world" where
  "sys_waitpid w = (shd (waitpid_in w), w\<lparr>waitpid_in := stl (waitpid_in w)\<rparr>)"

lemmas sys_defs = emit_def sys_clock_gettime_def sys_nanosleep_def sys_socket_def
  sys_signalfd_def sys_close_def sys_attach_filter_def sys_connect_def sys_send_def
  sys_sendto_def sys_recvfrom_def sys_sigprocmask_def sys_read_signal_def sys_poll_def
  sys_file_action_def sys_posix_spawn_def sys_waitpid_def

end
