(* ===== verification/Double.thy ===== *)
theory Double
  imports CString "HOL-Library.Log_Nat"
begin

text \<open>
  The C type \<open>double\<close>, as IEEE 754 binary64 with rounding to nearest, ties to even: a double
  is the real number it denotes, and every arithmetic operation rounds its exact result to 53
  significant bits (\<open>dbl\<close>). Overflow and subnormal numbers are left out: the program adds at
  most \<open>2 ^ 64\<close> latencies below \<open>2 ^ 64\<close> and divides counters below \<open>2 ^ 64\<close>, which stays
  far inside the exponent range. The fixed-point conversions of \<open>printf\<close> round the exact
  value of the double.
\<close>

type_synonym double = real

section \<open>Rounding\<close>

definition round_half_even :: "real \<Rightarrow> int" where
  "round_half_even y =
     (let f = \<lfloor>y\<rfloor>; d = y - of_int f
      in if d < 1 / 2 then f else if 1 / 2 < d then f + 1 else if even f then f else f + 1)"

lemma round_half_even_of_int [simp]: "round_half_even (of_int i) = i"
  by (simp add: round_half_even_def)

lemma round_half_even_cases: "round_half_even y = \<lfloor>y\<rfloor> \<or> round_half_even y = \<lfloor>y\<rfloor> + 1"
  by (simp add: round_half_even_def Let_def)

lemma round_half_even_ge: "of_int i \<le> y \<Longrightarrow> i \<le> round_half_even y"
  using round_half_even_cases [of y] by (metis le_floor_iff add_increasing2 zero_le_one)

lemma round_half_even_le:
  assumes "y \<le> of_int i" shows "round_half_even y \<le> i"
proof (cases "y = of_int i")
  case False
  with assms have "\<lfloor>y\<rfloor> < i" by (simp add: floor_less_iff)
  then show ?thesis using round_half_even_cases [of y] by auto
qed simp

lemma round_half_even_mono: "x \<le> y \<Longrightarrow> round_half_even x \<le> round_half_even y"
proof (cases "\<lfloor>x\<rfloor> = \<lfloor>y\<rfloor>")
  case True
  assume "x \<le> y"
  with True show ?thesis by (auto simp: round_half_even_def Let_def)
next
  case False
  assume "x \<le> y"
  with False have "\<lfloor>x\<rfloor> + 1 \<le> \<lfloor>y\<rfloor>" using floor_mono [of x y] by linarith
  then show ?thesis using round_half_even_cases [of x] round_half_even_cases [of y] by linarith
qed

text \<open>The binary exponent of a positive number.\<close>

definition dbl_exp :: "real \<Rightarrow> int" where
  "dbl_exp x =
     (if 1 \<le> x then int (floorlog 2 (nat \<lfloor>x\<rfloor>)) - 1
      else - int (floorlog 2 (nat (\<lceil>1 / x\<rceil> - 1))))"

definition dbl_pos :: "real \<Rightarrow> real" where
  "dbl_pos x = (let s = 2 powi (dbl_exp x - 52) in of_int (round_half_even (x / s)) * s)"

definition dbl :: "real \<Rightarrow> double" where
  "dbl x = (if x = 0 then 0 else if 0 < x then dbl_pos x else - dbl_pos (- x))"

definition dbl_add :: "double \<Rightarrow> double \<Rightarrow> double" where "dbl_add a b = dbl (a + b)"
definition dbl_mul :: "double \<Rightarrow> double \<Rightarrow> double" where "dbl_mul a b = dbl (a * b)"
definition dbl_div :: "double \<Rightarrow> double \<Rightarrow> double" where "dbl_div a b = dbl (a / b)"

text \<open>The conversion \<open>(double)n\<close> of an unsigned 64-bit integer.\<close>

definition dbl_of_u64 :: "u64 \<Rightarrow> double" where "dbl_of_u64 n = dbl (of_nat (unat n))"

section \<open>Properties of rounding\<close>

lemma floorlog_real_bounds:
  assumes "0 < n"
  obtains m where "floorlog 2 n = Suc m" and "2 ^ m \<le> real n" and "real n + 1 \<le> 2 ^ Suc m"
proof -
  have "0 < floorlog 2 n" using assms by (simp add: floorlog_def)
  then obtain m where m: "floorlog 2 n = Suc m" using gr0_implies_Suc by blast
  have "2 ^ m \<le> n" "n + 1 \<le> 2 ^ Suc m" using floorlog_bounds [of n 2] assms m by auto
  then have "real (2 ^ m) \<le> real n" "real (n + 1) \<le> real (2 ^ Suc m)"
    by (simp_all only: of_nat_le_iff)
  then show thesis using m that by simp
qed

lemma dbl_exp_bounds:
  assumes "0 < x"
  shows "2 powi dbl_exp x \<le> x" and "x < 2 powi (dbl_exp x + 1)"
proof -
  have "2 powi dbl_exp x \<le> x \<and> x < 2 powi (dbl_exp x + 1)"
  proof (cases "1 \<le> x")
    case True
    define n where "n = nat \<lfloor>x\<rfloor>"
    have n: "0 < n" "real n \<le> x" "x < real n + 1"
      using True unfolding n_def by (auto simp: less_floor_iff)
    obtain m where m: "floorlog 2 n = Suc m" "2 ^ m \<le> real n" "real n + 1 \<le> 2 ^ Suc m"
      using n(1) by (rule floorlog_real_bounds)
    have "2 ^ m \<le> x" "x < 2 ^ Suc m" using n m by linarith+
    moreover have "dbl_exp x = int m" using True m by (simp add: dbl_exp_def n_def)
    moreover have "(2 :: real) powi (int m + 1) = 2 ^ Suc m"
      using power_int_of_nat [of "2 :: real" "Suc m"] by (simp add: add.commute)
    ultimately show ?thesis by simp
  next
    case False
    define n where "n = nat (\<lceil>1 / x\<rceil> - 1)"
    have x1: "1 < 1 / x" using False assms by simp
    have n: "0 < n" "real n < 1 / x" "1 / x \<le> real n + 1"
      using x1 unfolding n_def by linarith+
    obtain m where m: "floorlog 2 n = Suc m" "2 ^ m \<le> real n" "real n + 1 \<le> 2 ^ Suc m"
      using n(1) by (rule floorlog_real_bounds)
    have "2 ^ m < 1 / x" "1 / x \<le> 2 ^ Suc m" using n m by linarith+
    then have "x < 1 / 2 ^ m" "1 / 2 ^ Suc m \<le> x" using assms by (simp_all add: field_simps)
    moreover have "dbl_exp x = - int (Suc m)" using False m by (simp add: dbl_exp_def n_def)
    moreover have "(2 :: real) powi (- int (Suc m)) = 1 / 2 ^ Suc m"
      "(2 :: real) powi (- int (Suc m) + 1) = 1 / 2 ^ m"
      using power_int_minus [of "2 :: real" "int (Suc m)"] power_int_minus [of "2 :: real" "int m"]
        power_int_of_nat [of "2 :: real" "Suc m"]
      by (simp_all add: field_simps)
    ultimately show ?thesis by simp
  qed
  then show "2 powi dbl_exp x \<le> x" and "x < 2 powi (dbl_exp x + 1)" by auto
qed

lemma dbl_exp_mono:
  assumes "0 < x" and "x \<le> y"
  shows "dbl_exp x \<le> dbl_exp y"
proof (rule ccontr)
  assume "\<not> dbl_exp x \<le> dbl_exp y"
  then have "(2 :: real) powi (dbl_exp y + 1) \<le> 2 powi dbl_exp x"
    by (intro power_int_increasing) auto
  then show False
    using dbl_exp_bounds [of x] dbl_exp_bounds [of y] assms by linarith
qed

lemma dbl_pos_bounds:
  assumes "0 < x"
  shows "2 powi dbl_exp x \<le> dbl_pos x" and "dbl_pos x \<le> 2 powi (dbl_exp x + 1)"
proof -
  define s :: real where "s = 2 powi (dbl_exp x - 52)"
  have s: "0 < s" by (simp add: s_def)
  have p: "2 powi dbl_exp x = of_int (2 ^ 52) * s" "2 powi (dbl_exp x + 1) = of_int (2 ^ 53) * s"
    unfolding s_def by (simp_all add: power_int_diff power_int_add)
  have "of_int (2 ^ 52) \<le> x / s" "x / s \<le> of_int (2 ^ 53)"
    using dbl_exp_bounds [OF assms] s unfolding p by (simp_all add: field_simps)
  then have "2 ^ 52 \<le> round_half_even (x / s)" "round_half_even (x / s) \<le> 2 ^ 53"
    by (auto intro: round_half_even_ge round_half_even_le)
  then have "of_int (2 ^ 52) \<le> (of_int (round_half_even (x / s)) :: real)"
    "of_int (round_half_even (x / s)) \<le> (of_int (2 ^ 53) :: real)"
    by (simp_all only: of_int_le_iff)
  then show "2 powi dbl_exp x \<le> dbl_pos x" "dbl_pos x \<le> 2 powi (dbl_exp x + 1)"
    unfolding dbl_pos_def s_def [symmetric] p Let_def using s by (simp_all add: mult_right_mono)
qed

lemma dbl_pos_gt_0: "0 < x \<Longrightarrow> 0 < dbl_pos x"
  using dbl_pos_bounds(1) [of x] by (rule less_le_trans [rotated]) auto

lemma dbl_pos_mono:
  assumes "0 < x" and "x \<le> y"
  shows "dbl_pos x \<le> dbl_pos y"
proof (cases "dbl_exp x = dbl_exp y")
  case True
  define s :: real where "s = 2 powi (dbl_exp x - 52)"
  have s: "0 < s" by (simp add: s_def)
  have "round_half_even (x / s) \<le> round_half_even (y / s)"
    using assms s by (intro round_half_even_mono divide_right_mono) auto
  then show ?thesis
    unfolding dbl_pos_def True [symmetric] s_def [symmetric] Let_def
    using s by (simp add: mult_right_mono)
next
  case False
  with dbl_exp_mono [OF assms] have "dbl_exp x + 1 \<le> dbl_exp y" by simp
  then have "(2 :: real) powi (dbl_exp x + 1) \<le> 2 powi dbl_exp y"
    by (intro power_int_increasing) auto
  then show ?thesis
    using dbl_pos_bounds [of x] dbl_pos_bounds [of y] assms by linarith
qed

lemma dbl_0 [simp]: "dbl 0 = 0"
  by (simp add: dbl_def)

lemma dbl_mono:
  assumes "0 \<le> x" and "x \<le> y"
  shows "dbl x \<le> dbl y"
  using assms dbl_pos_mono [of x y] dbl_pos_gt_0 [of y] by (auto simp: dbl_def)

lemma dbl_nonneg: "0 \<le> x \<Longrightarrow> 0 \<le> dbl x"
  using dbl_mono [of 0 x] by simp

lemma dbl_pos_iff: "0 \<le> x \<Longrightarrow> 0 < dbl x \<longleftrightarrow> 0 < x"
  using dbl_pos_gt_0 [of x] by (auto simp: dbl_def)

text \<open>Integers up to \<open>2 ^ 53\<close> are doubles.\<close>

lemma dbl_of_nat [simp]:
  assumes "n \<le> 2 ^ 53"
  shows "dbl (of_nat n) = of_nat n"
proof (cases "n = 0")
  case False
  define e where "e = dbl_exp (of_nat n)"
  have pos: "(0 :: real) < of_nat n" using False by simp
  note b = dbl_exp_bounds [OF pos, folded e_def]
  have ge0: "0 \<le> e"
  proof (rule ccontr)
    assume "\<not> 0 \<le> e"
    then have "(2 :: real) powi (e + 1) \<le> 2 powi 0" by (intro power_int_increasing) auto
    then show False using b(2) False by simp
  qed
  have "\<exists>k :: int. of_nat n / (2 :: real) powi (e - 52) = of_int k"
  proof (cases "e \<le> 52")
    case True
    define j where "j = nat (52 - e)"
    have ej: "e - 52 = - int j" using True by (simp add: j_def)
    have "of_nat n / (2 :: real) powi (e - 52) = of_int (int n * 2 ^ j)"
      unfolding ej by (simp add: power_int_minus field_simps)
    then show ?thesis by blast
  next
    case False
    then have "(2 :: real) powi 53 \<le> 2 powi e" by (intro power_int_increasing) auto
    moreover have "of_nat n \<le> (2 :: real) ^ 53"
      using assms of_nat_mono [of n "2 ^ 53", where ?'a = real] by simp
    ultimately have n: "of_nat n = (2 :: real) ^ 53" using b(1) by simp
    have "2 powi e \<le> (2 :: real) powi 53" using b(1) n by simp
    have "e \<le> 53"
    proof (rule ccontr)
      assume "\<not> e \<le> 53"
      then have "(2 :: real) powi 54 \<le> 2 powi e" by (intro power_int_increasing) auto
      then show False using \<open>2 powi e \<le> 2 powi 53\<close> by simp
    qed
    then have "e = 53" using False by simp
    then have "of_nat n / (2 :: real) powi (e - 52) = of_int (2 ^ 52)" by (simp add: n)
    then show ?thesis by blast
  qed
  then obtain k :: int where k: "of_nat n / (2 :: real) powi (e - 52) = of_int k" by blast
  then have "of_nat n = of_int k * (2 :: real) powi (e - 52)" by (simp add: field_simps)
  then show ?thesis using False k unfolding dbl_def dbl_pos_def e_def [symmetric] Let_def by simp
qed simp

section \<open>Fixed-point output\<close>

text \<open>\<open>%.<k>f\<close> of a double: the exact value rounded to \<open>k\<close> places, ties to even.\<close>

definition show_fixed :: "nat \<Rightarrow> double \<Rightarrow> string" where
  "show_fixed k x =
     (let n = nat \<bar>round_half_even (x * 10 ^ k)\<bar>
      in (if x < 0 then ''-'' else []) @ show_nat (n div 10 ^ k) @ ''.'' @
         (let f = show_nat (n mod 10 ^ k) in replicate (k - length f) (CHR ''0'') @ f))"

end
