(* ===== verification/Types.thy ===== *)
theory Types
  imports World Double
begin

text \<open>
  The types of \<open>src/src/openups.h\<close>: the enumerations as datatypes, the structs as records with
  the fields of the source. A field whose name occurs in two structs has the struct's initials
  in front. A fixed-size character buffer is the C string it holds.
\<close>

section \<open>Logging\<close>

datatype log_level_t =
  LOG_LEVEL_SILENT | LOG_LEVEL_ERROR | LOG_LEVEL_WARN | LOG_LEVEL_INFO | LOG_LEVEL_DEBUG

text \<open>The enumerators' values, which the comparisons of levels use.\<close>

fun log_level_int :: "log_level_t \<Rightarrow> int" where
  "log_level_int LOG_LEVEL_SILENT = - 1"
| "log_level_int LOG_LEVEL_ERROR = 0"
| "log_level_int LOG_LEVEL_WARN = 1"
| "log_level_int LOG_LEVEL_INFO = 2"
| "log_level_int LOG_LEVEL_DEBUG = 3"

lemma log_level_int_inject: "log_level_int a = log_level_int b \<Longrightarrow> a = b"
  by (cases a; cases b) simp_all

instantiation log_level_t :: linorder
begin
definition less_eq_log_level_t :: "log_level_t \<Rightarrow> log_level_t \<Rightarrow> bool" where
  "a \<le> b \<longleftrightarrow> log_level_int a \<le> log_level_int b"
definition less_log_level_t :: "log_level_t \<Rightarrow> log_level_t \<Rightarrow> bool" where
  "a < b \<longleftrightarrow> log_level_int a < log_level_int b"
instance
  by standard (auto simp: less_eq_log_level_t_def less_log_level_t_def dest: log_level_int_inject)
end

lemmas log_level_order = less_eq_log_level_t_def less_log_level_t_def

record logger_t =
  level :: log_level_t
  enable_timestamp :: bool

section \<open>Statistics, configuration, results\<close>

record metrics_t =
  total_pings :: u64
  successful_pings :: u64
  failed_pings :: u64
  total_latency :: double
  min_latency :: double
  max_latency :: double
  start_time_ms :: u64

datatype shutdown_mode_t =
  SHUTDOWN_MODE_DRY_RUN | SHUTDOWN_MODE_TRUE_OFF | SHUTDOWN_MODE_LOG_ONLY

fun shutdown_mode_to_string :: "shutdown_mode_t \<Rightarrow> string" where
  "shutdown_mode_to_string SHUTDOWN_MODE_DRY_RUN = ''dry-run''"
| "shutdown_mode_to_string SHUTDOWN_MODE_TRUE_OFF = ''true-off''"
| "shutdown_mode_to_string SHUTDOWN_MODE_LOG_ONLY = ''log-only''"

text \<open>The integers of the configuration are C \<open>int\<close>s.\<close>

record config_t =
  target :: string
  interval_sec :: int
  fail_threshold :: int
  timeout_ms :: int
  shutdown_mode :: shutdown_mode_t
  delay_minutes :: int
  log_level :: log_level_t
  enable_systemd :: bool

record ping_result_t =
  success :: bool
  latency_ms :: double
  error_msg :: string

datatype icmp_receive_status_t =
  ICMP_RECEIVE_NO_MORE | ICMP_RECEIVE_IGNORED | ICMP_RECEIVE_MATCHED | ICMP_RECEIVE_ERROR

datatype shutdown_result_t =
  SHUTDOWN_RESULT_NO_ACTION | SHUTDOWN_RESULT_TRIGGERED | SHUTDOWN_RESULT_FAILED

section \<open>Components of the context\<close>

record icmp_pinger_t =
  sockfd :: int
  family :: int
  sequence :: u16
  send_buf :: "u8 list"

record systemd_notifier_t =
  sn_enabled :: bool
  sn_sockfd :: int
  watchdog_usec :: u64
  last_status_ms :: u64
  last_status :: string

text \<open>
  The service table: each function pointer is one of the two functions the sources ever store
  in it, and \<open>backend_ctx\<close> is \<open>NULL\<close> or the address of the context's notifier.
\<close>

datatype backend_ptr = BACKEND_NULL | BACKEND_SYSTEMD

datatype service_fn = FN_NOOP | FN_SYSTEMD

record runtime_services_t =
  backend_ctx :: backend_ptr
  sv_enabled :: bool
  sv_ready :: service_fn
  sv_status :: service_fn
  sv_stopping :: service_fn
  sv_watchdog :: service_fn
  sv_watchdog_interval_ms :: service_fn
  sv_destroy :: service_fn

record openups_ctx_t =
  stop_flag :: bool
  consecutive_fails :: int
  cached_pid :: u16
  config :: config_t
  dest_addr :: sockaddr_storage
  dest_addr_len :: nat
  logger :: logger_t
  metrics :: metrics_t
  pinger :: icmp_pinger_t
  systemd :: systemd_notifier_t
  services :: runtime_services_t

section \<open>Constants\<close>

definition OPENUPS_VERSION :: string where "OPENUPS_VERSION = ''1.3.1''"
definition OPENUPS_PROGRAM_NAME :: string where "OPENUPS_PROGRAM_NAME = ''openups''"
definition OPENUPS_MS_PER_SEC :: u64 where "OPENUPS_MS_PER_SEC = 1000"
definition OPENUPS_MS_PER_MINUTE :: u64 where "OPENUPS_MS_PER_MINUTE = 60 * OPENUPS_MS_PER_SEC"
definition OPENUPS_SYSTEMD_MESSAGE_SIZE :: nat where "OPENUPS_SYSTEMD_MESSAGE_SIZE = 256"
definition OPENUPS_SYSTEMD_STATUS_SIZE :: nat where "OPENUPS_SYSTEMD_STATUS_SIZE = 240"
definition OPENUPS_STATUS_DEDUP_WINDOW_MS :: u64 where "OPENUPS_STATUS_DEDUP_WINDOW_MS = 2000"
definition OPENUPS_LOG_BUFFER_SIZE :: nat where "OPENUPS_LOG_BUFFER_SIZE = 2048"
definition OPENUPS_EXIT_SUCCESS :: int where "OPENUPS_EXIT_SUCCESS = 0"
definition OPENUPS_EXIT_FAILURE :: int where "OPENUPS_EXIT_FAILURE = 1"

text \<open>The size of every error message buffer a caller passes.\<close>

definition ERROR_MSG_SIZE :: nat where "ERROR_MSG_SIZE = 256"

lemmas openups_consts = OPENUPS_MS_PER_SEC_def OPENUPS_MS_PER_MINUTE_def
  OPENUPS_SYSTEMD_MESSAGE_SIZE_def OPENUPS_SYSTEMD_STATUS_SIZE_def
  OPENUPS_STATUS_DEDUP_WINDOW_MS_def OPENUPS_LOG_BUFFER_SIZE_def
  OPENUPS_EXIT_SUCCESS_def OPENUPS_EXIT_FAILURE_def ERROR_MSG_SIZE_def

end
