(* ===== verification/Effects.thy ===== *)
theory Effects
  imports World
begin

text \<open>
  How a piece of the program may change the world. \<open>later K w w'\<close> says that \<open>w'\<close> is reached
  from \<open>w\<close> by consuming some answers of the operating system and adding to the trace only
  events of the classes \<open>K\<close>. It is a preorder, so the frame condition of a function follows
  from those of the functions it calls; the lemmas are stated in accumulating form (the world
  before the call is already later than some \<open>w0\<close>), which lets the classical reasoner chain
  them. \<open>fair\<close> says that interrupted calls do not repeat for ever, no stream that a retry loop
  reads ends in \<open>EINTR\<close> only, and that the monotonic clock passes every second a \<open>time_t\<close> can
  hold.
\<close>

section \<open>Later worlds\<close>

definition tail_of :: "'a stream \<Rightarrow> 'a stream \<Rightarrow> bool" where
  "tail_of s t \<longleftrightarrow> (\<exists>n. t = sdrop n s)"

lemma tail_of_refl [simp, intro]: "tail_of s s"
  unfolding tail_of_def by (intro exI [of _ 0]) simp

lemma tail_of_stl [simp, intro]: "tail_of s t \<Longrightarrow> tail_of s (stl t)"
  unfolding tail_of_def by (metis sdrop_stl sdrop.simps(2))

lemma tail_of_trans: "tail_of s t \<Longrightarrow> tail_of t u \<Longrightarrow> tail_of s u"
  unfolding tail_of_def by (metis sdrop_add)

lemma inf_often_tail_of: "inf_often P s \<Longrightarrow> tail_of s t \<Longrightarrow> inf_often P t"
  unfolding tail_of_def by auto

definition streams_later :: "world \<Rightarrow> world \<Rightarrow> bool" where
  "streams_later w w' \<longleftrightarrow>
     tail_of (mono_in w) (mono_in w') \<and> tail_of (real_in w) (real_in w') \<and>
     tail_of (nanosleep_in w) (nanosleep_in w') \<and> tail_of (socket_in w) (socket_in w') \<and>
     tail_of (connect_in w) (connect_in w') \<and> tail_of (send_in w) (send_in w') \<and>
     tail_of (sendto_in w) (sendto_in w') \<and> tail_of (recvfrom_in w) (recvfrom_in w') \<and>
     tail_of (sigprocmask_in w) (sigprocmask_in w') \<and>
     tail_of (signalfd_in w) (signalfd_in w') \<and> tail_of (sigread_in w) (sigread_in w') \<and>
     tail_of (poll_in w) (poll_in w') \<and> tail_of (spawn_rc_in w) (spawn_rc_in w') \<and>
     tail_of (spawn_in w) (spawn_in w') \<and> tail_of (waitpid_in w) (waitpid_in w')"

definition later :: "event_class set \<Rightarrow> world \<Rightarrow> world \<Rightarrow> bool" where
  "later K w w' \<longleftrightarrow>
     host w' = host w \<and> streams_later w w' \<and>
     (\<exists>es. trace w' = trace w @ es \<and> class_of ` set es \<subseteq> K)"

lemma streams_later_refl [simp]: "streams_later w w"
  by (simp add: streams_later_def)

lemma streams_later_trans: "streams_later u v \<Longrightarrow> streams_later v w \<Longrightarrow> streams_later u w"
  unfolding streams_later_def by (blast intro: tail_of_trans)

lemma later_refl [simp, intro]: "later K w w"
  by (simp add: later_def)

lemma later_trans [trans]:
  assumes "later K u v" and "later K v w"
  shows "later K u w"
proof -
  from assms obtain es fs where
    es: "trace v = trace u @ es" "class_of ` set es \<subseteq> K" and
    fs: "trace w = trace v @ fs" "class_of ` set fs \<subseteq> K"
    unfolding later_def by blast
  then have "trace w = trace u @ (es @ fs)" "class_of ` set (es @ fs) \<subseteq> K"
    by (simp_all add: image_Un)
  moreover have "streams_later u w" "host w = host u"
    using assms streams_later_trans unfolding later_def by auto
  ultimately show ?thesis unfolding later_def by blast
qed

lemma later_mono: "later K w w' \<Longrightarrow> K \<subseteq> L \<Longrightarrow> later L w w'"
  unfolding later_def by blast

lemma later_host: "later K w w' \<Longrightarrow> host w' = host w"
  by (simp add: later_def)

lemma later_streams: "later K w w' \<Longrightarrow> streams_later w w'"
  by (simp add: later_def)

text \<open>A step that touches only streams and adds at most one event.\<close>

lemma later_emit [frame]: "later K w0 w \<Longrightarrow> class_of e \<in> K \<Longrightarrow> later K w0 (emit e w)"
  by (rule later_trans) (auto simp: later_def emit_def streams_later_def)

lemma later_silent: "host w' = host w \<Longrightarrow> trace w' = trace w \<Longrightarrow> streams_later w w' \<Longrightarrow>
    later K w w'"
  by (simp add: later_def)

text \<open>The part of a trace of one class is fixed by steps of other classes.\<close>

definition events :: "event_class \<Rightarrow> world \<Rightarrow> event list" where
  "events c w = filter (\<lambda>e. class_of e = c) (trace w)"

lemma later_events: "later K w w' \<Longrightarrow> c \<notin> K \<Longrightarrow> events c w' = events c w"
  by (fastforce simp: later_def events_def filter_empty_conv)

lemma events_emit: "events c (emit e w) = events c w @ (if class_of e = c then [e] else [])"
  by (simp add: events_def emit_def)

text \<open>
  How often a descriptor is held: it was opened and has not been closed. Only events of the
  class \<open>Cls_fd\<close> change it.
\<close>

definition held :: "int \<Rightarrow> world \<Rightarrow> int" where
  "held fd w = int (count_list (trace w) (Opened fd)) - int (count_list (trace w) (Closed fd))"

lemma held_emit: "held fd (emit e w) =
    held fd w + (if e = Opened fd then 1 else if e = Closed fd then - 1 else 0)"
  by (simp add: held_def emit_def)

lemma held_later:
  assumes "later K w w'" and "Cls_fd \<notin> K"
  shows "held fd w' = held fd w"
proof -
  obtain es where es: "trace w' = trace w @ es" "class_of ` set es \<subseteq> K"
    using assms(1) unfolding later_def by blast
  then have "Opened fd \<notin> set es" "Closed fd \<notin> set es" using assms(2) by force+
  then show ?thesis by (simp add: held_def es(1) count_notin)
qed

lemma held_sys_close [simp]:
  "held fd (sys_close fd' w) = held fd w - (if fd = fd' then 1 else 0)"
  by (simp add: sys_close_def held_emit)

lemma held_sys_open:
  "sys_socket af ty pr w = (Inl e, w') \<Longrightarrow> held fd w' = held fd w"
  "sys_signalfd w = (Inl e, w') \<Longrightarrow> held fd w' = held fd w"
  "sys_socket af ty pr w = (Inr fd', w') \<Longrightarrow> 0 \<le> fd' \<and> held fd w' = held fd w + (if fd = fd' then 1 else 0)"
  "sys_signalfd w = (Inr fd', w') \<Longrightarrow> 0 \<le> fd' \<and> held fd w' = held fd w + (if fd = fd' then 1 else 0)"
  by (auto simp: sys_socket_def sys_signalfd_def held_emit Let_def split: sum.splits)
    (auto simp: held_def emit_def)

section \<open>System calls\<close>

lemma sys_clock_gettime_later [frame]:
  "sys_clock_gettime c w = (r, w') \<Longrightarrow> later K w0 w \<Longrightarrow> later K w0 w'"
  by (erule later_trans)
    (auto simp: sys_clock_gettime_def streams_later_def intro!: later_silent split: if_splits)

lemma sys_connect_later [frame]:
  "sys_connect t w = (r, w') \<Longrightarrow> later K w0 w \<Longrightarrow> Cls_socket \<in> K \<Longrightarrow> later K w0 w'"
  by (erule later_trans)
    (auto simp: sys_connect_def streams_later_def
      intro!: later_emit later_silent split: prod.splits)

lemma sys_recvfrom_later [frame]:
  "sys_recvfrom n w = (r, w') \<Longrightarrow> later K w0 w \<Longrightarrow> later K w0 w'"
  by (erule later_trans) (auto simp: sys_recvfrom_def streams_later_def intro!: later_silent)

lemma sys_read_signal_later [frame]:
  "sys_read_signal w = (r, w') \<Longrightarrow> later K w0 w \<Longrightarrow> later K w0 w'"
  by (erule later_trans) (auto simp: sys_read_signal_def streams_later_def intro!: later_silent)

lemma sys_file_action_later [frame]:
  "sys_file_action w = (r, w') \<Longrightarrow> later K w0 w \<Longrightarrow> later K w0 w'"
  by (erule later_trans) (auto simp: sys_file_action_def streams_later_def intro!: later_silent)

lemma sys_waitpid_later [frame]: "sys_waitpid w = (r, w') \<Longrightarrow> later K w0 w \<Longrightarrow> later K w0 w'"
  by (erule later_trans) (auto simp: sys_waitpid_def streams_later_def intro!: later_silent)

lemma sys_nanosleep_later [frame]:
  "sys_nanosleep ns w = (r, w') \<Longrightarrow> later K w0 w \<Longrightarrow> Cls_wait \<in> K \<Longrightarrow> later K w0 w'"
  by (erule later_trans)
    (auto simp: sys_nanosleep_def streams_later_def intro!: later_emit later_silent)

lemma sys_send_later [frame]:
  "sys_send fd m w = (r, w') \<Longrightarrow> later K w0 w \<Longrightarrow> Cls_notify \<in> K \<Longrightarrow> later K w0 w'"
  by (erule later_trans)
    (auto simp: sys_send_def streams_later_def intro!: later_emit later_silent)

lemma sys_sendto_later [frame]:
  "sys_sendto fd bs a al w = (r, w') \<Longrightarrow> later K w0 w \<Longrightarrow> Cls_packet \<in> K \<Longrightarrow> later K w0 w'"
  by (erule later_trans)
    (auto simp: sys_sendto_def streams_later_def intro!: later_emit later_silent)

lemma sys_poll_later [frame]:
  "sys_poll t w = (r, w') \<Longrightarrow> later K w0 w \<Longrightarrow> Cls_wait \<in> K \<Longrightarrow> later K w0 w'"
  by (erule later_trans)
    (auto simp: sys_poll_def streams_later_def intro!: later_emit later_silent)

lemma sys_posix_spawn_later [frame]:
  "sys_posix_spawn p a e w = (r, w') \<Longrightarrow> later K w0 w \<Longrightarrow> Cls_spawn \<in> K \<Longrightarrow> later K w0 w'"
  by (erule later_trans)
    (auto simp: sys_posix_spawn_def streams_later_def intro!: later_emit later_silent)

lemma sys_socket_later [frame]:
  "sys_socket af ty pr w = (r, w') \<Longrightarrow> later K w0 w \<Longrightarrow> {Cls_fd, Cls_socket} \<subseteq> K \<Longrightarrow> later K w0 w'"
  by (erule later_trans)
    (auto simp: sys_socket_def streams_later_def Let_def
      intro!: later_emit later_silent split: sum.splits)

lemma sys_signalfd_later [frame]:
  "sys_signalfd w = (r, w') \<Longrightarrow> later K w0 w \<Longrightarrow> Cls_fd \<in> K \<Longrightarrow> later K w0 w'"
  by (erule later_trans)
    (auto simp: sys_signalfd_def streams_later_def Let_def
      intro!: later_emit later_silent split: sum.splits)

lemma sys_sigprocmask_later [frame]:
  "sys_sigprocmask e w = (r, w') \<Longrightarrow> later K w0 w \<Longrightarrow> class_of e \<in> K \<Longrightarrow> later K w0 w'"
  by (erule later_trans)
    (auto simp: sys_sigprocmask_def streams_later_def Let_def
      intro!: later_emit later_silent split: option.splits)

lemma sys_close_later [frame]: "later K w0 w \<Longrightarrow> Cls_fd \<in> K \<Longrightarrow> later K w0 (sys_close fd w)"
  by (simp add: sys_close_def later_emit)

lemma sys_attach_filter_later [frame]:
  "later K w0 w \<Longrightarrow> Cls_socket \<in> K \<Longrightarrow> later K w0 (sys_attach_filter fd p w)"
  by (simp add: sys_attach_filter_def later_emit)

section \<open>Fairness\<close>

definition clock_past :: "int \<Rightarrow> timespec option \<Rightarrow> bool" where
  "clock_past s r =
     (case r of None \<Rightarrow> False
      | Some ts \<Rightarrow> s \<le> tv_sec ts \<and> tv_sec ts < 2 ^ 63 \<and> 0 \<le> tv_nsec ts \<and> tv_nsec ts < 10 ^ 9)"

definition fair :: "world \<Rightarrow> bool" where
  "fair w \<longleftrightarrow> inf_often (\<lambda>r. map_option fst r \<noteq> Some EINTR) (nanosleep_in w) \<and>
     inf_often (\<lambda>r. r \<noteq> Some EINTR) (connect_in w) \<and>
     inf_often (\<lambda>r. r \<noteq> Inl EINTR) (waitpid_in w) \<and>
     (\<forall>s < 2 ^ 63. inf_often (clock_past s) (mono_in w))"

lemma fair_later: "fair w \<Longrightarrow> later K w w' \<Longrightarrow> fair w'"
  unfolding fair_def later_def streams_later_def by (blast intro: inf_often_tail_of)

lemma sys_fair [fairness]:
  "sys_clock_gettime c w = (t, w') \<Longrightarrow> fair w \<Longrightarrow> fair w'"
  "sys_recvfrom n w = (r, w') \<Longrightarrow> fair w \<Longrightarrow> fair w'"
  "sys_read_signal w = (s, w') \<Longrightarrow> fair w \<Longrightarrow> fair w'"
  "sys_file_action w = (i, w') \<Longrightarrow> fair w \<Longrightarrow> fair w'"
  "sys_waitpid w = (p, w') \<Longrightarrow> fair w \<Longrightarrow> fair w'"
  "sys_send fd m w = (e, w') \<Longrightarrow> fair w \<Longrightarrow> fair w'"
  "sys_sendto fd bs a al w = (e, w') \<Longrightarrow> fair w \<Longrightarrow> fair w'"
  "sys_poll i w = (pa, w') \<Longrightarrow> fair w \<Longrightarrow> fair w'"
  "sys_posix_spawn q av ev w = (sp, w') \<Longrightarrow> fair w \<Longrightarrow> fair w'"
  "sys_socket af ty pr w = (so, w') \<Longrightarrow> fair w \<Longrightarrow> fair w'"
  "sys_signalfd w = (so, w') \<Longrightarrow> fair w \<Longrightarrow> fair w'"
  "sys_sigprocmask evt w = (oi, w') \<Longrightarrow> fair w \<Longrightarrow> fair w'"
  by (rule fair_later [where K = UNIV], assumption, erule frame, rule later_refl, simp?)+

lemma sys_close_fair [simp]: "fair (sys_close fd w) \<longleftrightarrow> fair w"
  by (simp add: sys_close_def emit_def fair_def)

lemma sys_attach_filter_fair [simp]: "fair (sys_attach_filter fd p w) \<longleftrightarrow> fair w"
  by (simp add: sys_attach_filter_def emit_def fair_def)

lemma emit_fair [simp]: "fair (emit e w) \<longleftrightarrow> fair w"
  by (simp add: emit_def fair_def)

text \<open>A call returns; a composed operation returns when its parts do.\<close>

definition returns :: "'a option \<Rightarrow> bool" where
  "returns m \<longleftrightarrow> m \<noteq> None"

lemma returns_Some [simp]: "returns (Some x)"
  by (simp add: returns_def)

lemma returns_None [simp]: "\<not> returns None"
  by (simp add: returns_def)

lemma returns_bind [simp]: "returns (m \<bind> f) \<longleftrightarrow> returns m \<and> (\<forall>x. m = Some x \<longrightarrow> returns (f x))"
  by (cases m) (simp_all add: returns_def)

lemma returnsE:
  assumes "returns m"
  obtains r w where "m = Some (r, w)"
  using assms by (cases m) auto

section \<open>Calls repeated while they are interrupted\<close>

text \<open>
  The loop \<open>while (call(arg) < 0 && errno == EINTR)\<close>: a call that answers from one stream of
  the world is repeated, perhaps with another argument, until the answer is not an
  interruption. The contract is what the loops of the sources need of it: the loop returns
  when the stream does not stay interrupted, it returns an answer that is no interruption,
  and it changes the world only as its calls do.
\<close>

locale interrupted_call =
  fixes call :: "'a \<Rightarrow> world \<Rightarrow> 'r \<times> world"
    and loop :: "'a \<Rightarrow> world \<Rightarrow> ('r \<times> world) option"
    and answers :: "world \<Rightarrow> 'r stream"
    and interrupted :: "'r \<Rightarrow> bool"
    and again :: "'a \<Rightarrow> 'r \<Rightarrow> 'a"
    and K :: "event_class set"
  assumes call_answers: "call a w = (r, w') \<Longrightarrow> r = shd (answers w) \<and> answers w' = stl (answers w)"
    and call_later: "call a w = (r, w') \<Longrightarrow> later K w w'"
    and loop_unfold: "loop a w =
        (case call a w of (r, w') \<Rightarrow> if interrupted r then loop (again a r) w' else Some (r, w'))"
    and loop_returns: "loop a w = Some x \<Longrightarrow> \<exists>n. \<not> interrupted (answers w !! n)"
begin

lemma loop_run:
  assumes "\<not> interrupted (answers w !! n)"
  shows "\<exists>r w'. loop a w = Some (r, w') \<and> \<not> interrupted r \<and> later K w w'"
  using assms
proof (induction n arbitrary: a w)
  case 0
  obtain r w' where c: "call a w = (r, w')" by fastforce
  then show ?case using 0 call_answers [OF c] call_later [OF c]
    by (subst loop_unfold) auto
next
  case (Suc n)
  obtain r w1 where c: "call a w = (r, w1)" by fastforce
  with Suc.prems call_answers [OF c] have n: "\<not> interrupted (answers w1 !! n)" by simp
  show ?case
  proof (cases "interrupted r")
    case True
    then show ?thesis using c call_later [OF c] Suc.IH [OF n, of "again a r"]
      by (subst loop_unfold) (auto intro: later_trans)
  next
    case False
    then show ?thesis using c call_later [OF c] by (subst loop_unfold) auto
  qed
qed

lemma loop_total:
  assumes "inf_often (\<lambda>r. \<not> interrupted r) (answers w)"
  obtains r w' where "loop a w = Some (r, w')" "\<not> interrupted r" "later K w w'"
  using assms loop_run inf_often_next by metis

lemma loop_sound:
  assumes "loop a w = Some (r, w')"
  shows "\<not> interrupted r" and "later K w w'"
proof -
  obtain n where "\<not> interrupted (answers w !! n)" using loop_returns [OF assms] by blast
  from loop_run [OF this, of a] assms show "\<not> interrupted r" and "later K w w'" by auto
qed

end

text \<open>\<open>while (nanosleep(&rem, &rem) < 0 && errno == EINTR)\<close>: the error that ended it, if any.\<close>

definition sleep_interrupted :: "(int \<times> int) option \<Rightarrow> bool" where
  "sleep_interrupted r = (map_option fst r = Some EINTR)"

partial_function (option) nanosleep_retry ::
    "int \<Rightarrow> world \<Rightarrow> ((int \<times> int) option \<times> world) option" where
  "nanosleep_retry ns w =
     (case sys_nanosleep ns w of (r, w1) \<Rightarrow>
        if sleep_interrupted r then nanosleep_retry (snd (the r)) w1 else Some (r, w1))"

lemma nanosleep_retry_returns:
  assumes "nanosleep_retry ns w = Some x"
  shows "\<exists>n. \<not> sleep_interrupted (nanosleep_in w !! n)"
proof (rule nanosleep_retry.raw_induct [where P = "\<lambda>_ w _. \<exists>n. \<not> sleep_interrupted (nanosleep_in w !! n)",
      OF _ assms])
  fix f ns w x
  assume IH: "\<And>ns w x. f ns w = Some x \<Longrightarrow> \<exists>n. \<not> sleep_interrupted (nanosleep_in w !! n)"
    and eq: "(case sys_nanosleep ns w of (r, w1) \<Rightarrow>
        if sleep_interrupted r then f (snd (the r)) w1 else Some (r, w1)) = Some x"
  show "\<exists>n. \<not> sleep_interrupted (nanosleep_in w !! n)"
  proof (cases "sleep_interrupted (shd (nanosleep_in w))")
    case True
    with eq obtain a w1 where "f a w1 = Some x" "nanosleep_in w1 = stl (nanosleep_in w)"
      by (auto simp: sys_nanosleep_def emit_def)
    with IH [of a w1 x] obtain n where "\<not> sleep_interrupted (stl (nanosleep_in w) !! n)" by auto
    then show ?thesis by (intro exI [of _ "Suc n"]) simp
  next
    case False
    then show ?thesis by (intro exI [of _ 0]) simp
  qed
qed

interpretation nanosleep_loop: interrupted_call
  sys_nanosleep nanosleep_retry nanosleep_in sleep_interrupted "\<lambda>_ r. snd (the r)" "{Cls_wait}"
proof unfold_locales
  fix a w r w'
  assume c: "sys_nanosleep a w = (r, w')"
  then show "r = shd (nanosleep_in w) \<and> nanosleep_in w' = stl (nanosleep_in w)"
    by (auto simp: sys_nanosleep_def emit_def)
  from c show "later {Cls_wait} w w'" by (rule sys_nanosleep_later) auto
qed (rule nanosleep_retry.simps, erule nanosleep_retry_returns)

lemma nanosleep_retry_world:
  assumes "nanosleep_retry ns w = Some (r, w')"
  obtains s t where "w' = w\<lparr>nanosleep_in := s, trace := t\<rparr>"
proof -
  have "\<exists>s t. snd (r, w') = w\<lparr>nanosleep_in := s, trace := t\<rparr>"
    by (rule nanosleep_retry.raw_induct
          [where P = "\<lambda>_ w y. \<exists>s t. snd y = w\<lparr>nanosleep_in := s, trace := t\<rparr>", OF _ assms])
      (fastforce simp: sys_nanosleep_def emit_def split: if_splits)
  then show thesis using that by auto
qed

text \<open>\<open>do rc = connect(...) while (rc < 0 && errno == EINTR)\<close>.\<close>

partial_function (option) connect_retry ::
    "int \<times> sockaddr_un \<times> nat \<Rightarrow> world \<Rightarrow> (int option \<times> world) option" where
  "connect_retry u w =
     (case sys_connect u w of (r, w1) \<Rightarrow>
        if r = Some EINTR then connect_retry u w1 else Some (r, w1))"

lemma connect_retry_returns:
  assumes "connect_retry u w = Some x"
  shows "\<exists>n. connect_in w !! n \<noteq> Some EINTR"
proof (rule connect_retry.raw_induct [where P = "\<lambda>_ w _. \<exists>n. connect_in w !! n \<noteq> Some EINTR",
      OF _ assms])
  fix f u w x
  assume IH: "\<And>u w x. f u w = Some x \<Longrightarrow> \<exists>n. connect_in w !! n \<noteq> Some EINTR"
    and eq: "(case sys_connect u w of (r, w1) \<Rightarrow> if r = Some EINTR then f u w1 else Some (r, w1))
      = Some x"
  show "\<exists>n. connect_in w !! n \<noteq> Some EINTR"
  proof (cases "shd (connect_in w) = Some EINTR")
    case True
    with eq obtain w1 where "f u w1 = Some x" "connect_in w1 = stl (connect_in w)"
      by (auto simp: sys_connect_def emit_def)
    with IH [of u w1 x] obtain n where "stl (connect_in w) !! n \<noteq> Some EINTR" by auto
    then show ?thesis by (intro exI [of _ "Suc n"]) simp
  next
    case False
    then show ?thesis by (intro exI [of _ 0]) simp
  qed
qed

interpretation connect_loop: interrupted_call
  sys_connect connect_retry connect_in "\<lambda>r. r = Some EINTR" "\<lambda>a _. a" "{Cls_socket}"
proof unfold_locales
  fix u w r w'
  assume c: "sys_connect u w = (r, w')"
  then show "r = shd (connect_in w) \<and> connect_in w' = stl (connect_in w)"
    by (auto simp: sys_connect_def emit_def)
  from c show "later {Cls_socket} w w'" by (rule sys_connect_later) auto
qed (rule connect_retry.simps, erule connect_retry_returns)

lemma nanosleep_retry_total:
  assumes "fair w"
  obtains r w' where "nanosleep_retry ns w = Some (r, w')" "\<not> sleep_interrupted r"
    "later {Cls_wait} w w'"
  using assms nanosleep_loop.loop_total [of w ns] unfolding fair_def sleep_interrupted_def by metis

lemma nanosleep_retry_later [frame]:
  "nanosleep_retry ns w = Some (r, w') \<Longrightarrow> later K w0 w \<Longrightarrow> Cls_wait \<in> K \<Longrightarrow> later K w0 w'"
  by (erule later_trans) (auto dest: nanosleep_loop.loop_sound(2) intro: later_mono)

lemma connect_retry_total:
  assumes "fair w"
  obtains r w' where "connect_retry u w = Some (r, w')" "r \<noteq> Some EINTR" "later {Cls_socket} w w'"
  using assms connect_loop.loop_total [of w u] unfolding fair_def by metis

lemma connect_retry_later [frame]:
  "connect_retry u w = Some (r, w') \<Longrightarrow> later K w0 w \<Longrightarrow> Cls_socket \<in> K \<Longrightarrow> later K w0 w'"
  by (erule later_trans) (auto dest: connect_loop.loop_sound(2) intro: later_mono)

lemma retry_fair [fairness]:
  "nanosleep_retry ns w = Some (r, w') \<Longrightarrow> fair w \<Longrightarrow> fair w'"
  "connect_retry t w = Some (c, w') \<Longrightarrow> fair w \<Longrightarrow> fair w'"
  by (rule fair_later [where K = UNIV], assumption, erule frame, rule later_refl, simp?)+

lemma retry_returns [total]:
  assumes "fair w"
  shows "returns (nanosleep_retry ns w)" and "returns (connect_retry t w)"
  by (rule nanosleep_retry_total [OF assms, of ns], simp)
    (rule connect_retry_total [OF assms, of t], simp)

section \<open>Loops that may not end\<close>

text \<open>
  The loop \<open>while (true) body\<close>, whose body ends an iteration with \<open>None\<close> to go on and
  \<open>Some x\<close> to leave the loop. The loop is \<open>None\<close> when an iteration does not return or no
  iteration leaves it.
\<close>

partial_function (option) loop_until ::
    "('s \<Rightarrow> ('r option \<times> 's) option) \<Rightarrow> 's \<Rightarrow> ('r \<times> 's) option" where
  "loop_until body s =
     body s \<bind> (\<lambda>(r, s1). case r of Some x \<Rightarrow> Some (x, s1) | None \<Rightarrow> loop_until body s1)"

lemma loop_until_induct [consumes 1, case_names leave go_on]:
  assumes "loop_until body s = Some (x, s')"
    and leave: "\<And>s x s'. body s = Some (Some x, s') \<Longrightarrow> P s x s'"
    and go_on: "\<And>s s1 x s'. body s = Some (None, s1) \<Longrightarrow> P s1 x s' \<Longrightarrow> P s x s'"
  shows "P s x s'"
proof -
  have "case (x, s') of (x, s') \<Rightarrow> P s x s'"
  proof (rule loop_until.raw_induct [where P = "\<lambda>b s y. b = body \<longrightarrow> (case y of (x, s') \<Rightarrow> P s x s')",
        OF _ assms(1), THEN mp, OF _ refl])
    fix f b s y
    assume IH: "\<And>b s y. f b s = Some y \<Longrightarrow> b = body \<longrightarrow> (case y of (x, s') \<Rightarrow> P s x s')"
      and eq: "b s \<bind> (\<lambda>(r, s1). case r of None \<Rightarrow> f b s1 | Some x \<Rightarrow> Some (x, s1)) = Some y"
    show "b = body \<longrightarrow> (case y of (x, s') \<Rightarrow> P s x s')"
      using eq by (auto split: bind_splits option.splits intro: leave go_on dest!: IH)
  qed
  then show ?thesis by simp
qed

lemma loop_until_total:
  assumes "wf R" and "I s"
    and body: "\<And>s. I s \<Longrightarrow> returns (body s)"
    and go_on: "\<And>s s1. I s \<Longrightarrow> body s = Some (None, s1) \<Longrightarrow> I s1 \<and> (s1, s) \<in> R"
  shows "returns (loop_until body s)"
  using assms(1,2)
proof (induction s rule: wf_induct_rule)
  case (less s)
  then show ?case using body go_on
    by (subst loop_until.simps) (auto split: option.split)
qed

text \<open>The states between two iterations.\<close>

inductive iterates :: "('s \<Rightarrow> ('r option \<times> 's) option) \<Rightarrow> 's \<Rightarrow> 's \<Rightarrow> bool" for body s where
  start: "iterates body s s"
| step: "iterates body s s1 \<Longrightarrow> body s1 = Some (None, s2) \<Longrightarrow> iterates body s s2"

lemma iterates_invariant:
  assumes "iterates body s s1" and "I s"
    and "\<And>s s1. I s \<Longrightarrow> body s = Some (None, s1) \<Longrightarrow> I s1"
  shows "I s1"
  using assms by induction auto

text \<open>A loop that returns does so by an iteration that leaves it.\<close>

lemma loop_until_last:
  assumes "loop_until body s = Some (x, s')"
  shows "\<exists>s1. iterates body s s1 \<and> body s1 = Some (Some x, s')"
proof -
  have trans: "iterates body s s2" if "body s = Some (None, s1)" "iterates body s1 s2" for s s1 s2
    using that(2,1) by induction (auto intro: iterates.intros)
  show ?thesis
    by (rule loop_until_induct [OF assms]) (blast intro: iterates.intros trans)+
qed

end
