(* ===== verification/Logger.thy ===== *)
theory Logger
  imports Types Effects
begin

text \<open>
  \<open>src/src/logger.c\<close> and the level macros of \<open>openups.h\<close>: the monotonic clock in
  milliseconds, the local timestamp, and the logger that writes lines to standard error. A
  \<open>printf\<close>-style call is modelled with its formatted text.
\<close>

section \<open>Timing\<close>

definition timespec_ms :: "timespec \<Rightarrow> u64" where
  "timespec_ms ts =
     (case ckd_mul (word_of_int (tv_sec ts)) OPENUPS_MS_PER_SEC of
        None \<Rightarrow> UINT64_MAX
      | Some seconds_ms \<Rightarrow>
          (case ckd_add seconds_ms (word_of_int (tv_nsec ts) div 1000000) of
             None \<Rightarrow> UINT64_MAX
           | Some timestamp \<Rightarrow> timestamp))"

definition get_monotonic_ms :: "world \<Rightarrow> u64 \<times> world" where
  "get_monotonic_ms w =
     (case sys_clock_gettime CLOCK_MONOTONIC_COARSE w of
        (Some ts, w1) \<Rightarrow> (timespec_ms ts, w1)
      | (None, w1) \<Rightarrow>
          (case sys_clock_gettime CLOCK_MONOTONIC w1 of
             (Some ts, w2) \<Rightarrow> (timespec_ms ts, w2)
           | (None, w2) \<Rightarrow> (UINT64_MAX, w2)))"

text \<open>\<open>%0<w>d\<close> of an integer.\<close>

definition show_int_pad0 :: "nat \<Rightarrow> int \<Rightarrow> string" where
  "show_int_pad0 n i =
     (if i < 0 then CHR ''-'' # show_pad0 (n - 1) (nat (- i)) else show_pad0 n (nat i))"

text \<open>The buffer that \<open>get_timestamp_str\<close> fills; a failed call leaves the empty string.\<close>

definition get_timestamp_str :: "nat \<Rightarrow> world \<Rightarrow> string \<times> world" where
  "get_timestamp_str n w =
     (case sys_clock_gettime CLOCK_REALTIME w of
        (None, w1) \<Rightarrow> ('''', w1)
      | (Some ts, w1) \<Rightarrow>
          (case localtime_r (host w1) (tv_sec ts) of
             None \<Rightarrow> ('''', w1)
           | Some t \<Rightarrow>
               (snprintf_buf n
                  (show_int_pad0 4 (tm_year t + 1900) @ ''-'' @ show_int_pad0 2 (tm_mon t + 1) @
                   ''-'' @ show_int_pad0 2 (tm_mday t) @ '' '' @ show_int_pad0 2 (tm_hour t) @
                   '':'' @ show_int_pad0 2 (tm_min t) @ '':'' @ show_int_pad0 2 (tm_sec t) @
                   ''.'' @ show_int_pad0 3 (tv_nsec ts div 1000000)), w1)))"

section \<open>Logging\<close>

definition logger_init :: "log_level_t \<Rightarrow> bool \<Rightarrow> logger_t" where
  "logger_init lvl ts = \<lparr>level = lvl, enable_timestamp = ts\<rparr>"

fun log_level_to_string :: "log_level_t \<Rightarrow> string" where
  "log_level_to_string LOG_LEVEL_SILENT = ''SILENT''"
| "log_level_to_string LOG_LEVEL_ERROR = ''ERROR''"
| "log_level_to_string LOG_LEVEL_WARN = ''WARN''"
| "log_level_to_string LOG_LEVEL_INFO = ''INFO''"
| "log_level_to_string LOG_LEVEL_DEBUG = ''DEBUG''"

text \<open>A newline.\<close>

abbreviation nl :: string where "nl \<equiv> [CHR 0x0A]"

definition log_message :: "logger_t \<Rightarrow> log_level_t \<Rightarrow> string \<Rightarrow> world \<Rightarrow> world" where
  "log_message lg lvl msg w =
     (if level lg = LOG_LEVEL_SILENT then w
      else if level lg < lvl then w
      else if enable_timestamp lg then
        (let (timestamp, w1) = get_timestamp_str 64 w
         in emit (Stderr (''['' @ timestamp @ ''] ['' @ log_level_to_string lvl @ ''] '' @ msg @ nl)) w1)
      else emit (Stderr (''['' @ log_level_to_string lvl @ ''] '' @ msg @ nl)) w)"

definition logger_log_va :: "logger_t \<Rightarrow> log_level_t \<Rightarrow> string \<Rightarrow> world \<Rightarrow> world" where
  "logger_log_va lg lvl text w = log_message lg lvl (snprintf_buf OPENUPS_LOG_BUFFER_SIZE text) w"

definition logger_write :: "log_level_t \<Rightarrow> bool \<Rightarrow> string \<Rightarrow> world \<Rightarrow> world" where
  "logger_write lvl ts text w = logger_log_va (logger_init lvl ts) lvl text w"

text \<open>\<open>DEFINE_LOGGER(name, lvl, attrs)\<close> and its four instances.\<close>

definition logger_at :: "log_level_t \<Rightarrow> logger_t \<Rightarrow> string \<Rightarrow> world \<Rightarrow> world" where
  "logger_at lvl lg text w = (if lvl \<le> level lg then logger_log_va lg lvl text w else w)"

definition logger_error :: "logger_t \<Rightarrow> string \<Rightarrow> world \<Rightarrow> world" where
  "logger_error = logger_at LOG_LEVEL_ERROR"

definition logger_warn :: "logger_t \<Rightarrow> string \<Rightarrow> world \<Rightarrow> world" where
  "logger_warn = logger_at LOG_LEVEL_WARN"

definition logger_info :: "logger_t \<Rightarrow> string \<Rightarrow> world \<Rightarrow> world" where
  "logger_info = logger_at LOG_LEVEL_INFO"

definition logger_debug :: "logger_t \<Rightarrow> string \<Rightarrow> world \<Rightarrow> world" where
  "logger_debug = logger_at LOG_LEVEL_DEBUG"

definition log_shutdown_countdown :: "logger_t \<Rightarrow> shutdown_mode_t \<Rightarrow> int \<Rightarrow> world \<Rightarrow> world" where
  "log_shutdown_countdown lg mode minutes w =
     (if mode = SHUTDOWN_MODE_DRY_RUN then
        logger_warn lg (''Starting dry-run countdown for '' @ show_int minutes @ '' minutes'') w
      else if mode = SHUTDOWN_MODE_TRUE_OFF then
        logger_warn lg (''Starting true-off countdown for '' @ show_int minutes @ '' minutes'') w
      else w)"

lemmas logger_defs = logger_error_def logger_warn_def logger_info_def logger_debug_def

section \<open>What the clock returns\<close>

lemma timespec_ms_exact:
  assumes "0 \<le> tv_sec ts" and "tv_sec ts * 1000 + 999 < 2 ^ 64"
    and "0 \<le> tv_nsec ts" and "tv_nsec ts < 1000000000"
  shows "unat (timespec_ms ts) = nat (tv_sec ts) * 1000 + nat (tv_nsec ts) div 1000000"
proof -
  have s: "unat (word_of_int (tv_sec ts) :: u64) = nat (tv_sec ts)"
    using assms by (intro unat_of_int_u64) auto
  have n: "unat (word_of_int (tv_nsec ts) div 1000000 :: u64) = nat (tv_nsec ts) div 1000000"
    using assms by (simp add: unat_div unat_of_int_u64)
  have lt: "nat (tv_nsec ts) div 1000000 < 1000"
    using assms by (simp add: less_mult_imp_div_less nat_less_iff)
  have fit: "nat (tv_sec ts) * 1000 + 999 < 2 ^ 64"
    using assms by (simp add: nat_less_iff zero_less_mult_iff flip: nat_mult_distrib)
  obtain m where m: "ckd_mul (word_of_int (tv_sec ts)) OPENUPS_MS_PER_SEC = Some m"
    using fit s by (cases "ckd_mul (word_of_int (tv_sec ts)) OPENUPS_MS_PER_SEC")
      (auto simp: ckd_mul_None_iff openups_consts)
  then have um: "unat m = nat (tv_sec ts) * 1000"
    by (simp add: ckd_mul_Some_iff s openups_consts)
  obtain r where r: "ckd_add m (word_of_int (tv_nsec ts) div 1000000) = Some r"
    using fit um n lt by (cases "ckd_add m (word_of_int (tv_nsec ts) div 1000000)")
      (auto simp: ckd_add_None_iff)
  then have "timespec_ms ts = r" by (simp add: timespec_ms_def m)
  moreover have "unat r = unat m + nat (tv_nsec ts) div 1000000"
    using r n by (simp add: ckd_add_Some_iff)
  ultimately show ?thesis using um by simp
qed

section \<open>Frame conditions\<close>

lemma get_monotonic_ms_later [frame]:
  "get_monotonic_ms w = (t, w') \<Longrightarrow> later K w0 w \<Longrightarrow> later K w0 w'"
  by (auto simp: get_monotonic_ms_def split: prod.splits option.splits
      dest: sys_clock_gettime_later [of _ _ _ _ K w0])

lemma get_timestamp_str_later [frame]:
  "get_timestamp_str n w = (s, w') \<Longrightarrow> later K w0 w \<Longrightarrow> later K w0 w'"
  by (auto simp: get_timestamp_str_def split: prod.splits option.splits
      dest: sys_clock_gettime_later [of _ _ _ _ K w0])

lemma log_message_later [frame]:
  "later K w0 w \<Longrightarrow> Cls_text \<in> K \<Longrightarrow> later K w0 (log_message lg lvl msg w)"
  by (auto simp: log_message_def split: prod.splits intro!: later_emit
      dest: get_timestamp_str_later [of _ _ _ _ K w0])

lemma logger_log_va_later [frame]:
  "later K w0 w \<Longrightarrow> Cls_text \<in> K \<Longrightarrow> later K w0 (logger_log_va lg lvl msg w)"
  by (simp add: logger_log_va_def log_message_later)

lemma logger_at_later [frame]:
  "later K w0 w \<Longrightarrow> Cls_text \<in> K \<Longrightarrow> later K w0 (logger_at lvl lg msg w)"
  by (simp add: logger_at_def logger_log_va_later)

lemma logger_write_later [frame]:
  "later K w0 w \<Longrightarrow> Cls_text \<in> K \<Longrightarrow> later K w0 (logger_write lvl ts msg w)"
  by (simp add: logger_write_def logger_log_va_later)

lemma logger_later [frame]:
  assumes "later K w0 w" and "Cls_text \<in> K"
  shows "later K w0 (logger_error lg msg w)" and "later K w0 (logger_warn lg msg w)"
    and "later K w0 (logger_info lg msg w)" and "later K w0 (logger_debug lg msg w)"
  using assms by (simp_all add: logger_defs logger_at_later)

lemma log_shutdown_countdown_later [frame]:
  "later K w0 w \<Longrightarrow> Cls_text \<in> K \<Longrightarrow> later K w0 (log_shutdown_countdown lg mode n w)"
  by (simp add: log_shutdown_countdown_def logger_later)

lemma get_monotonic_ms_fair [fairness]: "get_monotonic_ms w = (t, w') \<Longrightarrow> fair w \<Longrightarrow> fair w'"
  by (rule fair_later [where K = UNIV], assumption, erule frame, rule later_refl)

lemma get_timestamp_str_fair [fairness]:
  "get_timestamp_str n w = (s, w') \<Longrightarrow> fair w \<Longrightarrow> fair w'"
  by (rule fair_later [where K = UNIV], assumption, erule frame, rule later_refl)

lemma logger_fair [simp]:
  assumes "fair w"
  shows "fair (log_message lg lvl m w)" and "fair (logger_at lvl lg m w)" and "fair (logger_error lg m w)"
    and "fair (logger_warn lg m w)" and "fair (logger_info lg m w)"
    and "fair (logger_debug lg m w)" and "fair (logger_write lvl ts m w)"
    and "fair (log_shutdown_countdown lg mode k w)"
  by (rule fair_later [where K = UNIV], rule assms, rule frame, rule later_refl, simp)+

text \<open>Logging reads only the real-time clock and writes only to the trace.\<close>

lemma get_timestamp_str_world:
  "snd (get_timestamp_str n w) = w\<lparr>real_in := stl (real_in w)\<rparr>"
  by (simp add: get_timestamp_str_def sys_clock_gettime_def split: option.splits)

lemma log_message_world:
  obtains es s where "log_message lg lvl msg w = w\<lparr>real_in := s, trace := trace w @ es\<rparr>"
proof (cases "level lg = LOG_LEVEL_SILENT \<or> level lg < lvl")
  case True
  then have "log_message lg lvl msg w = w\<lparr>real_in := real_in w, trace := trace w @ []\<rparr>"
    by (auto simp: log_message_def)
  then show thesis by (rule that)
next
  case False
  show thesis
  proof (cases "enable_timestamp lg")
    case True
    obtain s w1 where g: "get_timestamp_str 64 w = (s, w1)" by fastforce
    then have "w1 = w\<lparr>real_in := stl (real_in w)\<rparr>"
      using get_timestamp_str_world [of 64 w] by simp
    with g True False show thesis
      by (intro that [where s = "stl (real_in w)"]) (simp add: log_message_def emit_def)
  next
    case no_ts: False
    with False show thesis
      by (intro that [where s = "real_in w"]) (simp add: log_message_def emit_def)
  qed
qed

lemma log_message_streams [simp]:
  "mono_in (log_message lg lvl msg w) = mono_in w"
  "nanosleep_in (log_message lg lvl msg w) = nanosleep_in w"
  "connect_in (log_message lg lvl msg w) = connect_in w"
  "send_in (log_message lg lvl msg w) = send_in w"
  "sendto_in (log_message lg lvl msg w) = sendto_in w"
  "recvfrom_in (log_message lg lvl msg w) = recvfrom_in w"
  "sigread_in (log_message lg lvl msg w) = sigread_in w"
  "poll_in (log_message lg lvl msg w) = poll_in w"
  "spawn_rc_in (log_message lg lvl msg w) = spawn_rc_in w"
  "spawn_in (log_message lg lvl msg w) = spawn_in w"
  "waitpid_in (log_message lg lvl msg w) = waitpid_in w"
  "host (log_message lg lvl msg w) = host w"
  by (rule log_message_world [of lg lvl msg w]; simp)+

text \<open>The same for the functions the rest of the program calls.\<close>

lemma logger_streams [simp]:
  "mono_in (logger_at lvl lg msg w) = mono_in w"
  "send_in (logger_at lvl lg msg w) = send_in w"
  "sendto_in (logger_at lvl lg msg w) = sendto_in w"
  "recvfrom_in (logger_at lvl lg msg w) = recvfrom_in w"
  "poll_in (logger_at lvl lg msg w) = poll_in w"
  "spawn_rc_in (logger_at lvl lg msg w) = spawn_rc_in w"
  "spawn_in (logger_at lvl lg msg w) = spawn_in w"
  "waitpid_in (logger_at lvl lg msg w) = waitpid_in w"
  "host (logger_at lvl lg msg w) = host w"
  by (simp_all add: logger_at_def logger_log_va_def)

lemma get_monotonic_ms_world:
  assumes "get_monotonic_ms w = (t, w')"
  obtains s where "w' = w\<lparr>mono_in := s\<rparr>"
  using assms by (auto simp: get_monotonic_ms_def sys_clock_gettime_def split: option.splits)

section \<open>What the clock has shown\<close>

text \<open>
  The times in milliseconds among the answers of the monotonic clock consumed between two worlds.
\<close>

definition clock_readings :: "world \<Rightarrow> world \<Rightarrow> nat set" where
  "clock_readings w w' =
     {unat (timespec_ms ts) | ts. \<exists>n k. mono_in w' = sdrop n (mono_in w) \<and> k < n \<and> mono_in w !! k = Some ts}"

lemma clock_reading_at:
  "mono_in w' = sdrop n (mono_in w) \<Longrightarrow> k < n \<Longrightarrow> mono_in w !! k = Some ts \<Longrightarrow>
   unat (timespec_ms ts) \<in> clock_readings w w'"
  unfolding clock_readings_def by blast

lemma clock_readings_mono:
  assumes "later K u v" and "later L v w"
  shows "clock_readings u v \<subseteq> clock_readings u w" and "clock_readings v w \<subseteq> clock_readings u w"
proof -
  from assms obtain m n where m: "mono_in v = sdrop m (mono_in u)" and n: "mono_in w = sdrop n (mono_in v)"
    using later_streams [OF assms(1)] later_streams [OF assms(2)]
    by (auto simp: streams_later_def tail_of_def)
  show "clock_readings u v \<subseteq> clock_readings u w"
  proof
    fix t assume "t \<in> clock_readings u v"
    then obtain ts i k where "t = unat (timespec_ms ts)" "mono_in v = sdrop i (mono_in u)" "k < i"
      "mono_in u !! k = Some ts" by (auto simp: clock_readings_def)
    moreover have "mono_in w = sdrop (i + n) (mono_in u)" "k < i + n"
      using n calculation(2,3) by (simp_all add: sdrop_add)
    ultimately show "t \<in> clock_readings u w" using clock_reading_at [of w "i + n" u k ts] by simp
  qed
  show "clock_readings v w \<subseteq> clock_readings u w"
  proof
    fix t assume "t \<in> clock_readings v w"
    then obtain ts i k where "t = unat (timespec_ms ts)" "mono_in w = sdrop i (mono_in v)" "k < i"
      "mono_in v !! k = Some ts" by (auto simp: clock_readings_def)
    moreover have "mono_in w = sdrop (m + i) (mono_in u)" "mono_in u !! (m + k) = Some ts" "m + k < m + i"
      using m calculation(2,3,4) by (simp_all add: sdrop_add sdrop_snth)
    ultimately show "t \<in> clock_readings u w" using clock_reading_at [of w "m + i" u "m + k" ts] by simp
  qed
qed

lemma get_monotonic_ms_reading:
  assumes "get_monotonic_ms w = (t, w')" and "t \<noteq> UINT64_MAX"
  shows "unat t \<in> clock_readings w w'"
proof -
  consider ts where "mono_in w !! 0 = Some ts" "mono_in w' = sdrop 1 (mono_in w)" "t = timespec_ms ts"
    | ts where "mono_in w !! 1 = Some ts" "mono_in w' = sdrop 2 (mono_in w)" "t = timespec_ms ts"
    using assms by (auto simp: get_monotonic_ms_def sys_clock_gettime_def numeral_2_eq_2 split: option.splits)
  then show ?thesis
    using clock_reading_at [of w' 1 w 0] clock_reading_at [of w' 2 w 1] by cases auto
qed

section \<open>Time passes\<close>

text \<open>A reading at or past a second is at least that many milliseconds, saturation included.\<close>

lemma timespec_ms_ge:
  assumes "clock_past s (Some ts)" and "0 \<le> s" and "unat d \<le> nat s * 1000"
  shows "d \<le> timespec_ms ts"
proof -
  have r: "0 \<le> tv_sec ts" "tv_sec ts < 2 ^ 63" "nat s \<le> nat (tv_sec ts)"
    using assms(1,2) by (auto simp: clock_past_def)
  then have u: "unat (word_of_int (tv_sec ts) :: u64) = nat (tv_sec ts)"
    by (intro unat_of_int_u64) auto
  have le: "unat d \<le> nat (tv_sec ts) * 1000" using r(3) assms(3) by linarith
  show ?thesis
  proof (cases "ckd_mul (word_of_int (tv_sec ts)) OPENUPS_MS_PER_SEC")
    case None
    then show ?thesis by (simp add: timespec_ms_def)
  next
    case (Some m)
    then have m: "unat m = nat (tv_sec ts) * 1000"
      by (simp add: ckd_mul_Some_iff u openups_consts)
    show ?thesis
    proof (cases "ckd_add m (word_of_int (tv_nsec ts) div 1000000)")
      case None
      with Some show ?thesis by (simp add: timespec_ms_def)
    next
      case add: (Some r)
      then have "unat m \<le> unat r" by (simp add: ckd_add_Some_iff)
      with m le have "unat d \<le> unat r" by simp
      with Some add show ?thesis by (simp add: timespec_ms_def word_le_nat_alt)
    qed
  qed
qed

text \<open>
  If the clock's answers contain one past a second, a reading either consumes it, and is at
  least that late, or brings it nearer.
\<close>

lemma get_monotonic_ms_progress:
  assumes "clock_past s (mono_in w !! n)" and "0 \<le> s" and "unat d \<le> nat s * 1000"
    and "get_monotonic_ms w = (t, w')"
  shows "d \<le> t \<or> (\<exists>m < n. clock_past s (mono_in w' !! m))"
proof (cases "shd (mono_in w)")
  case (Some ts)
  with assms(4) have t: "t = timespec_ms ts" "mono_in w' = stl (mono_in w)"
    by (auto simp: get_monotonic_ms_def sys_clock_gettime_def)
  show ?thesis
  proof (cases n)
    case 0
    with assms Some t show ?thesis by (auto intro: timespec_ms_ge)
  next
    case (Suc m)
    with assms(1) t show ?thesis by auto
  qed
next
  case None
  with assms(1) obtain m where n: "n = Suc m" and m: "clock_past s (stl (mono_in w) !! m)"
    by (cases n) (auto simp: clock_past_def)
  show ?thesis
  proof (cases "shd (stl (mono_in w))")
    case (Some ts)
    with None assms(4) have t: "t = timespec_ms ts" "mono_in w' = stl (stl (mono_in w))"
      by (auto simp: get_monotonic_ms_def sys_clock_gettime_def)
    show ?thesis
    proof (cases m)
      case 0
      with assms m Some t show ?thesis by (auto intro: timespec_ms_ge)
    next
      case (Suc k)
      with m n t show ?thesis by (intro disjI2 exI [of _ k]) simp
    qed
  next
    case fails: None
    with None assms(4) show ?thesis
      by (auto simp: get_monotonic_ms_def sys_clock_gettime_def)
  qed
qed

section \<open>What the logger guarantees\<close>

text \<open>
  C40: a log call writes exactly one line, the level's tag and the message cut to the
  2047 characters of its buffer, if the logger's level admits it, and nothing at all otherwise;
  a silent logger never writes. A timestamp, when enabled, stands in front.
\<close>

theorem log_line_exact:
  "trace (logger_at lvl lg msg w) = trace w @
     (if level lg = LOG_LEVEL_SILENT \<or> level lg < lvl then []
      else [Stderr ((if enable_timestamp lg then ''['' @ fst (get_timestamp_str 64 w) @ ''] '' else [])
              @ ''['' @ log_level_to_string lvl @ ''] '' @ take 2047 msg @ nl)])"
proof -
  have "trace (snd (get_timestamp_str 64 w)) = trace w" by (simp add: get_timestamp_str_world)
  then show ?thesis
    by (auto simp: logger_at_def logger_log_va_def log_message_def snprintf_buf_def openups_consts
        emit_def split: prod.split)
qed

text \<open>
  A reading of a clock whose seconds are a non-negative \<open>time_t\<close> is its
  time in milliseconds, or \<open>UINT64_MAX\<close>, the mark of a failure, when that does not fit 64 bits.
\<close>

theorem monotonic_clock_exact:
  assumes "0 \<le> tv_sec ts" and "tv_sec ts < 2 ^ 63" and "0 \<le> tv_nsec ts" and "tv_nsec ts < 10 ^ 9"
  shows "unat (timespec_ms ts) =
     min (nat (tv_sec ts) * 1000 + nat (tv_nsec ts) div 1000000) (2 ^ 64 - 1)"
proof -
  have s: "unat (word_of_int (tv_sec ts) :: u64) = nat (tv_sec ts)"
    using assms by (intro unat_of_int_u64) auto
  have n: "unat (word_of_int (tv_nsec ts) div 1000000 :: u64) = nat (tv_nsec ts) div 1000000"
    using assms by (simp add: unat_div unat_of_int_u64)
  show ?thesis
  proof (cases "ckd_mul (word_of_int (tv_sec ts)) OPENUPS_MS_PER_SEC")
    case None
    then have "2 ^ 64 \<le> nat (tv_sec ts) * 1000" by (simp add: ckd_mul_None_iff s openups_consts)
    with None show ?thesis by (simp add: timespec_ms_def)
  next
    case (Some m)
    then have m: "unat m = nat (tv_sec ts) * 1000"
      by (simp add: ckd_mul_Some_iff s openups_consts)
    show ?thesis
    proof (cases "ckd_add m (word_of_int (tv_nsec ts) div 1000000)")
      case None
      then have "2 ^ 64 \<le> nat (tv_sec ts) * 1000 + nat (tv_nsec ts) div 1000000"
        by (simp add: ckd_add_None_iff m n)
      with None Some show ?thesis by (simp add: timespec_ms_def)
    next
      case add: (Some r)
      then have "unat r = nat (tv_sec ts) * 1000 + nat (tv_nsec ts) div 1000000"
        by (simp add: ckd_add_Some_iff m n)
      with add Some unat_u64_bound [of r] show ?thesis by (simp add: timespec_ms_def)
    qed
  qed
qed

theorem monotonic_clock_exact_witness:
  "unat (timespec_ms \<lparr>tv_sec = 3, tv_nsec = 500000000\<rparr>) = 3500"
  using monotonic_clock_exact [of "\<lparr>tv_sec = 3, tv_nsec = 500000000\<rparr>"] by simp

end
