(* ===== verification/Samples.thy ===== *)
theory Samples
  imports Logger
begin

text \<open>
  A concrete world on which the theorems of the other theories are instantiated: a clock that
  advances one second per reading, system calls that succeed, a network that never answers, no
  signal, a child that keeps running, and a host without environment variables.
\<close>

definition sample_host :: host where
  "sample_host =
     \<lparr>getenv = (\<lambda>_. None), getpid = 4242, strerror = (\<lambda>_. ''error''),
      localtime_r = (\<lambda>_. None),
      inet_pton4 = (\<lambda>s. if s = ''1.1.1.1'' then Some [1, 1, 1, 1] else None),
      inet_pton6 = (\<lambda>s. if s = ''::1'' then Some (replicate 15 0 @ [1]) else None),
      little_endian = True\<rparr>"

definition ticking_clock :: "timespec option stream" where
  "ticking_clock = smap (\<lambda>n. Some \<lparr>tv_sec = min (int n) (2 ^ 63 - 1), tv_nsec = 0\<rparr>) (fromN 0)"

definition sample_world :: world where
  "sample_world =
     \<lparr>host = sample_host, trace = [], mono_in = ticking_clock, real_in = sconst None,
      nanosleep_in = sconst None, socket_in = sconst (Inr 5), connect_in = sconst None,
      send_in = sconst (Inr 7), sendto_in = sconst (Inr 64), recvfrom_in = sconst (Inl EAGAIN),
      sigprocmask_in = sconst None, signalfd_in = sconst (Inr 6), sigread_in = sconst None,
      poll_in = sconst \<lparr>poll_ret = Inr 0, poll_signal_revents = 0, poll_icmp_revents = 0\<rparr>,
      spawn_rc_in = sconst 0, spawn_in = sconst (Inr 77), waitpid_in = sconst (Inr (0, 0))\<rparr>"

definition sample_logger :: logger_t where
  "sample_logger = \<lparr>level = LOG_LEVEL_WARN, enable_timestamp = False\<rparr>"

definition sample_config :: config_t where
  "sample_config =
     \<lparr>target = ''1.1.1.1'', interval_sec = 10, fail_threshold = 5, timeout_ms = 2000,
      shutdown_mode = SHUTDOWN_MODE_TRUE_OFF, delay_minutes = 0, log_level = LOG_LEVEL_WARN,
      enable_systemd = False\<rparr>"

lemma ticking_clock_past: "s < 2 ^ 63 \<Longrightarrow> inf_often (clock_past s) ticking_clock"
  unfolding inf_often_def
proof
  fix n
  assume s: "s < 2 ^ 63"
  show "\<exists>m. clock_past s (sdrop n ticking_clock !! m)"
    by (rule exI [of _ "nat s"])
      (use s in \<open>auto simp: ticking_clock_def sdrop_snth clock_past_def\<close>)
qed

lemma sample_world_fair [simp]: "fair sample_world"
  by (simp add: fair_def sample_world_def ticking_clock_past EAGAIN_def EINTR_def)

end
