(* ===== verification/Getopt.thy ===== *)
theory Getopt
  imports World "HOL-Library.Multiset"
begin

text \<open>
  The GNU function \<open>getopt_long\<close> that \<open>config_load_from_cmdline\<close> of \<open>src/src/config.c\<close> calls in
  its loop, as its manual documents it: short options in clusters, arguments attached or in the
  next word, long names in full or abbreviated, \<open>--name=value\<close>, the word \<open>--\<close>, and operands,
  which are moved behind the options unless the variable \<open>POSIXLY_CORRECT\<close> is set. The model is
  one scan of the whole vector, which lists the returns before -1.
\<close>

section \<open>What a scan returns\<close>

text \<open>
  One return of \<open>getopt_long\<close> with what the caller reads after it: \<open>optarg\<close>, \<open>optopt\<close> (written
  only with the answer \<open>'?'\<close>, 0 elsewhere in the model), \<open>optind\<close> and the argument vector. A
  whole scan: the returns before -1, then \<open>optind\<close> and the vector at the end.
\<close>

record getopt_step =
  gs_option :: char
  gs_optarg :: "string option"
  gs_optopt :: nat
  gs_optind :: nat
  gs_argv :: "string list"

record getopt_run =
  go_steps :: "getopt_step list"
  go_optind :: nat
  go_argv :: "string list"

datatype arg_kind = no_argument | required_argument | optional_argument

text \<open>\<open>struct option\<close>; the member \<open>flag\<close> is null in every entry of the program.\<close>

record long_option =
  lo_name :: string
  lo_has_arg :: arg_kind
  lo_val :: char

section \<open>One word\<close>

definition is_operand :: "string \<Rightarrow> bool" where
  "is_operand a \<longleftrightarrow> (case a of c # d # s \<Rightarrow> c \<noteq> CHR ''-'' | _ \<Rightarrow> True)"

text \<open>The colons that follow a letter of the option string.\<close>

definition short_kind :: "string \<Rightarrow> char \<Rightarrow> arg_kind option" where
  "short_kind optstring c =
     (if c = CHR '':'' \<or> c = CHR '';'' then None
      else case dropWhile (\<lambda>d. d \<noteq> c) optstring of
             [] \<Rightarrow> None
           | d # s \<Rightarrow> Some (case s of
                 c1 # c2 # r \<Rightarrow> if c1 \<noteq> CHR '':'' then no_argument
                                else if c2 \<noteq> CHR '':'' then required_argument
                                else optional_argument
               | [c1] \<Rightarrow> if c1 \<noteq> CHR '':'' then no_argument else required_argument
               | [] \<Rightarrow> no_argument))"

text \<open>
  The answers of one word: option, argument, \<open>optopt\<close>, and by how much \<open>optind\<close> stands past the
  word's own index; and how many of the following words it takes as arguments, 0 or 1.
\<close>

type_synonym answer = "char \<times> string option \<times> nat \<times> nat"

fun short_cluster :: "string \<Rightarrow> string \<Rightarrow> string list \<Rightarrow> answer list \<times> nat" where
  "short_cluster optstring [] nxt = ([], 0)"
| "short_cluster optstring (c # cs) nxt =
     (let (as, n) = short_cluster optstring cs nxt; k = if cs = [] then 1 else 0
      in case short_kind optstring c of
           None \<Rightarrow> ((CHR ''?'', None, of_char c, k) # as, n)
         | Some no_argument \<Rightarrow> ((c, None, 0, k) # as, n)
         | Some optional_argument \<Rightarrow> ([(c, if cs = [] then None else Some cs, 0, 1)], 0)
         | Some required_argument \<Rightarrow>
             if cs \<noteq> [] then ([(c, Some cs, 0, 1)], 0)
             else (case nxt of
                     [] \<Rightarrow> ([(CHR ''?'', None, of_char c, 1)], 0)
                   | a # _ \<Rightarrow> ([(c, Some a, 0, 2)], 1)))"

text \<open>An exact name, else the only entry (or several that mean the same) it abbreviates.\<close>

definition find_long :: "long_option list \<Rightarrow> string \<Rightarrow> long_option option" where
  "find_long longopts name =
     (case filter (\<lambda>p. lo_name p = name) longopts of
        p # _ \<Rightarrow> Some p
      | [] \<Rightarrow>
          (case filter (\<lambda>p. take (length name) (lo_name p) = name) longopts of
             [] \<Rightarrow> None
           | p # ps \<Rightarrow>
               if \<forall>q\<in>set ps. lo_has_arg q = lo_has_arg p \<and> lo_val q = lo_val p
               then Some p else None))"

definition long_word :: "long_option list \<Rightarrow> string \<Rightarrow> string list \<Rightarrow> answer list \<times> nat" where
  "long_word longopts body nxt =
     (let name = takeWhile (\<lambda>c. c \<noteq> CHR ''='') body;
          rest = dropWhile (\<lambda>c. c \<noteq> CHR ''='') body
      in case find_long longopts name of
           None \<Rightarrow> ([(CHR ''?'', None, 0, 1)], 0)
         | Some p \<Rightarrow>
             (case rest of
                e # v \<Rightarrow>
                  if lo_has_arg p \<noteq> no_argument then ([(lo_val p, Some v, 0, 1)], 0)
                  else ([(CHR ''?'', None, of_char (lo_val p), 1)], 0)
              | [] \<Rightarrow>
                  if lo_has_arg p = required_argument then
                    (case nxt of
                       [] \<Rightarrow> ([(CHR ''?'', None, of_char (lo_val p), 1)], 0)
                     | a # _ \<Rightarrow> ([(lo_val p, Some a, 0, 2)], 1))
                  else ([(lo_val p, None, 0, 1)], 0)))"

definition option_word ::
    "string \<Rightarrow> long_option list \<Rightarrow> string \<Rightarrow> string list \<Rightarrow> answer list \<times> nat" where
  "option_word optstring longopts a nxt =
     (if take 2 a = ''--'' then long_word longopts (drop 2 a) nxt
      else short_cluster optstring (drop 1 a) nxt)"

section \<open>The whole vector\<close>

text \<open>
  The vector is at any time \<open>past @ skipped @ rest\<close>: the words dealt with, the operands passed
  over, and the words to come.
\<close>

function scan_words ::
    "bool \<Rightarrow> string \<Rightarrow> long_option list \<Rightarrow> string list \<Rightarrow> string list \<Rightarrow> string list \<Rightarrow> getopt_run"
  where
  "scan_words permute optstring longopts past skipped [] =
     \<lparr>go_steps = [], go_optind = length past, go_argv = past @ skipped\<rparr>"
| "scan_words permute optstring longopts past skipped (a # rest) =
     (if a = ''--'' then
        \<lparr>go_steps = [], go_optind = length past + 1, go_argv = past @ a # skipped @ rest\<rparr>
      else if is_operand a then
        if permute then scan_words permute optstring longopts past (skipped @ [a]) rest
        else \<lparr>go_steps = [], go_optind = length past + length skipped,
              go_argv = past @ skipped @ a # rest\<rparr>
      else
        (let (as, n) = option_word optstring longopts a rest;
             here = map (\<lambda>(opt, arg, optopt, k).
               \<lparr>gs_option = opt, gs_optarg = arg, gs_optopt = optopt,
                gs_optind = length past + length skipped + k,
                gs_argv = past @ skipped @ a # rest\<rparr>) as;
             run = scan_words permute optstring longopts (past @ a # take n rest) skipped (drop n rest)
         in run\<lparr>go_steps := here @ go_steps run\<rparr>))"
  by pat_completeness auto

termination
  by (relation "measure (\<lambda>(permute, optstring, longopts, past, skipped, rest). length rest)") auto

text \<open>\<open>optind\<close> starts at 1; an empty vector ends the scan at once.\<close>

definition getopt_long ::
    "host \<Rightarrow> string \<Rightarrow> long_option list \<Rightarrow> string list \<Rightarrow> getopt_run" where
  "getopt_long h optstring longopts argv =
     (case argv of
        [] \<Rightarrow> \<lparr>go_steps = [], go_optind = 1, go_argv = []\<rparr>
      | program # rest \<Rightarrow>
          scan_words (getenv h ''POSIXLY_CORRECT'' = None) optstring longopts [program] [] rest)"

section \<open>The ways to write an option\<close>

text \<open>
  The words that give an option the argument \<open>v\<close>: a letter with the argument attached or, when it
  is required, in the next word, and a long name or an abbreviation of it likewise.
\<close>

inductive spells :: "string \<Rightarrow> long_option list \<Rightarrow> char \<Rightarrow> string \<Rightarrow> string list \<Rightarrow> bool"
  for optstring longopts where
  spells_attached:
    "short_kind optstring c \<in> {Some required_argument, Some optional_argument} \<Longrightarrow> c \<noteq> CHR ''-'' \<Longrightarrow>
     v \<noteq> [] \<Longrightarrow> spells optstring longopts c v [CHR ''-'' # c # v]"
| spells_separate:
    "short_kind optstring c = Some required_argument \<Longrightarrow> c \<noteq> CHR ''-'' \<Longrightarrow>
     spells optstring longopts c v [[CHR ''-'', c], v]"
| spells_long_attached:
    "find_long longopts name = Some p \<Longrightarrow> lo_val p = c \<Longrightarrow> lo_has_arg p \<noteq> no_argument \<Longrightarrow>
     CHR ''='' \<notin> set name \<Longrightarrow> spells optstring longopts c v [''--'' @ name @ ''='' @ v]"
| spells_long_separate:
    "find_long longopts name = Some p \<Longrightarrow> lo_val p = c \<Longrightarrow> lo_has_arg p = required_argument \<Longrightarrow>
     CHR ''='' \<notin> set name \<Longrightarrow> name \<noteq> [] \<Longrightarrow> spells optstring longopts c v [''--'' @ name, v]"

lemma split_at_equals:
  assumes "CHR ''='' \<notin> set name"
  shows "takeWhile (\<lambda>c. c \<noteq> CHR ''='') (name @ CHR ''='' # v) = name"
    "dropWhile (\<lambda>c. c \<noteq> CHR ''='') (name @ CHR ''='' # v) = CHR ''='' # v"
    "takeWhile (\<lambda>c. c \<noteq> CHR ''='') name = name"
    "dropWhile (\<lambda>c. c \<noteq> CHR ''='') name = []"
  using assms by (auto simp: takeWhile_append dropWhile_append takeWhile_eq_all_conv dropWhile_eq_Nil_conv)

text \<open>The scan reads a spelled option as that option with that argument, and goes on behind it.\<close>

lemma scan_spelled:
  assumes "spells optstring longopts c v ws"
  shows "\<exists>g. gs_option g = c \<and> gs_optarg g = Some v \<and>
    scan_words permute optstring longopts past [] (ws @ rest) =
      (let run = scan_words permute optstring longopts (past @ ws) [] rest
       in run\<lparr>go_steps := g # go_steps run\<rparr>)"
  using assms
proof cases
  case spells_attached
  then show ?thesis
    by (intro exI [of _ "\<lparr>gs_option = c, gs_optarg = Some v, gs_optopt = 0,
        gs_optind = length past + 1, gs_argv = past @ ws @ rest\<rparr>"])
      (auto simp: is_operand_def option_word_def split: prod.split)
next
  case spells_separate
  then show ?thesis
    by (intro exI [of _ "\<lparr>gs_option = c, gs_optarg = Some v, gs_optopt = 0,
        gs_optind = length past + 2, gs_argv = past @ ws @ rest\<rparr>"])
      (simp add: is_operand_def option_word_def)
next
  case (spells_long_attached name p)
  then show ?thesis
    by (intro exI [of _ "\<lparr>gs_option = c, gs_optarg = Some v, gs_optopt = 0,
        gs_optind = length past + 1, gs_argv = past @ ws @ rest\<rparr>"])
      (simp add: is_operand_def option_word_def long_word_def split_at_equals)
next
  case (spells_long_separate name p)
  then show ?thesis
    by (intro exI [of _ "\<lparr>gs_option = c, gs_optarg = Some v, gs_optopt = 0,
        gs_optind = length past + 2, gs_argv = past @ ws @ rest\<rparr>"])
      (simp add: is_operand_def option_word_def long_word_def split_at_equals)
qed

lemma scan_spelled_all:
  assumes "list_all2 (\<lambda>(c, v). spells optstring longopts c v) settings wss"
  shows "let run = scan_words permute optstring longopts past [] (concat wss)
    in map (\<lambda>g. (gs_option g, gs_optarg g)) (go_steps run) = map (\<lambda>(c, v). (c, Some v)) settings \<and>
      go_optind run = length past + length (concat wss)"
  using assms
proof (induction arbitrary: past rule: list_all2_induct)
  case Nil
  then show ?case by simp
next
  case (Cons s settings ws wss)
  obtain c v where s: "s = (c, v)" by fastforce
  with Cons.hyps have "spells optstring longopts c v ws" by simp
  from scan_spelled [OF this, of permute past "concat wss"] Cons.IH [of "past @ ws"]
  show ?case by (auto simp: s Let_def)
qed

section \<open>What the answers of a word carry\<close>

text \<open>
  An answer other than \<open>'?'\<close> is an option of the option string, with an argument exactly as its
  colons say; \<open>optopt\<close> is 0 with \<open>'?'\<close> only for a word with two dashes.
\<close>

fun arg_fits :: "arg_kind option \<Rightarrow> string option \<Rightarrow> bool" where
  "arg_fits None arg \<longleftrightarrow> False"
| "arg_fits (Some no_argument) arg \<longleftrightarrow> arg = None"
| "arg_fits (Some required_argument) arg \<longleftrightarrow> arg \<noteq> None"
| "arg_fits (Some optional_argument) arg \<longleftrightarrow> True"

definition answer_ok :: "string \<Rightarrow> string \<Rightarrow> nat \<Rightarrow> answer \<Rightarrow> bool" where
  "answer_ok optstring a n = (\<lambda>(opt, arg, optopt, k).
     k \<le> 1 + n \<and>
     (opt = CHR ''?'' \<or>
      arg_fits (short_kind optstring opt) arg) \<and>
     (opt = CHR ''?'' \<and> optopt = 0 \<longrightarrow> take 2 a = ''--'' \<and> k = 1))"

lemma char_code_0: "(of_char c :: nat) = 0 \<longleftrightarrow> c = CHR 0x00"
proof -
  have "(of_char c :: nat) = of_char (CHR 0x00) \<longleftrightarrow> c = CHR 0x00" by (rule of_char_eq_iff)
  then show ?thesis by simp
qed

lemma answer_ok_refusal:
  "answer_ok optstring a n (CHR ''?'', arg, optopt, k) \<longleftrightarrow>
     k \<le> 1 + n \<and> (optopt = 0 \<longrightarrow> take 2 a = ''--'' \<and> k = 1)"
  by (simp add: answer_ok_def)

lemma answer_ok_option:
  "opt \<noteq> CHR ''?'' \<Longrightarrow> answer_ok optstring a n (opt, arg, optopt, k) \<longleftrightarrow>
     k \<le> 1 + n \<and> arg_fits (short_kind optstring opt) arg"
  by (simp add: answer_ok_def)

abbreviation answers_ok :: "string \<Rightarrow> string \<Rightarrow> string list \<Rightarrow> answer list \<times> nat \<Rightarrow> bool" where
  "answers_ok optstring a nxt r \<equiv>
     snd r \<le> length nxt \<and> (\<forall>x\<in>set (fst r). answer_ok optstring a (snd r) x)"

lemma short_cluster_ok:
  assumes "CHR 0x00 \<notin> set cs" and q: "short_kind optstring (CHR ''?'') = None"
  shows "answers_ok optstring a nxt (short_cluster optstring cs nxt)"
  using assms(1)
proof (induction cs)
  case (Cons c cs)
  obtain as n where r: "short_cluster optstring cs nxt = (as, n)" by fastforce
  with Cons have IH: "n \<le> length nxt" "\<forall>x\<in>set as. answer_ok optstring a n x" "c \<noteq> CHR 0x00"
    by auto
  have nq: "short_kind optstring c = Some kind \<Longrightarrow> c \<noteq> CHR ''?''" for kind using q by auto
  show ?case
  proof (cases "short_kind optstring c")
    case None
    with IH r show ?thesis by (simp add: answer_ok_refusal char_code_0)
  next
    case (Some kind)
    with IH r nq [OF Some] show ?thesis
      by (cases kind; cases nxt) (auto simp: answer_ok_option answer_ok_refusal char_code_0)
  qed
qed simp

lemma find_long_in:
  assumes "find_long longopts name = Some p"
  shows "p \<in> set longopts"
proof -
  have sub: "filter P longopts = q # qs \<Longrightarrow> q \<in> set longopts" for P q qs
    by (metis filter_is_subset list.set_intros(1) subsetD)
  show ?thesis
  proof (cases "filter (\<lambda>p. lo_name p = name) longopts")
    case Nil
    with assms show ?thesis
      unfolding find_long_def by (auto split: list.splits if_splits elim: sub)
  next
    case (Cons q qs)
    with assms show ?thesis using sub [OF Cons] by (simp add: find_long_def)
  qed
qed

text \<open>
  A step of a scan over the words \<open>ws\<close> of a vector: \<open>optind\<close> stays inside the vector, whose words
  are the old ones in some order, and a refusal without \<open>optopt\<close> points behind the refused word.
\<close>

definition step_ok :: "string \<Rightarrow> string list \<Rightarrow> getopt_step \<Rightarrow> bool" where
  "step_ok optstring ws g \<longleftrightarrow>
     gs_optind g \<le> length (gs_argv g) \<and> mset (gs_argv g) = mset ws \<and>
     (gs_option g = CHR ''?'' \<or>
      arg_fits (short_kind optstring (gs_option g)) (gs_optarg g)) \<and>
     (gs_option g = CHR ''?'' \<and> gs_optopt g = 0 \<longrightarrow>
        1 \<le> gs_optind g \<and> take 2 (gs_argv g ! (gs_optind g - 1)) = ''--'')"

text \<open>A scan that has \<open>n\<close> words behind it: the end of it, and all its steps.\<close>

definition scan_ok :: "string \<Rightarrow> string list \<Rightarrow> nat \<Rightarrow> getopt_run \<Rightarrow> bool" where
  "scan_ok optstring ws n run \<longleftrightarrow>
     mset (go_argv run) = mset ws \<and> n \<le> go_optind run \<and> go_optind run \<le> length ws \<and>
     (\<forall>g\<in>set (go_steps run). step_ok optstring ws g)"

lemma step_ok_cong: "mset ws = mset vs \<Longrightarrow> step_ok optstring ws g = step_ok optstring vs g"
  by (simp add: step_ok_def)

lemma scan_ok_cong:
  "mset ws = mset vs \<Longrightarrow> scan_ok optstring ws n run = scan_ok optstring vs n run"
  by (simp add: scan_ok_def step_ok_cong [of ws vs] mset_eq_length [of ws vs])

lemma mset_take_drop: "mset (take n xs) + mset (drop n xs) = mset xs"
  by (simp flip: mset_append)

text \<open>The step that the scan makes of an answer for the word \<open>a\<close> after the words \<open>pre\<close>.\<close>

lemma step_of_answer:
  assumes "answer_ok optstring a n (opt, arg, optopt, k)" and "n \<le> length rest"
  shows "step_ok optstring (pre @ a # rest)
    \<lparr>gs_option = opt, gs_optarg = arg, gs_optopt = optopt, gs_optind = length pre + k,
     gs_argv = pre @ a # rest\<rparr>"
  using assms by (auto simp: step_ok_def answer_ok_def nth_append)

lemma scan_ok_prepend:
  assumes "scan_ok optstring ws n run" "\<forall>g\<in>set gs. step_ok optstring ws g" "m \<le> n"
  shows "scan_ok optstring ws m (run\<lparr>go_steps := gs @ go_steps run\<rparr>)"
  using assms by (auto simp: scan_ok_def)

text \<open>
  The two tables of a program describe the same options: every long name stands for a letter of
  the option string that takes an argument in the same way.
\<close>

locale option_tables =
  fixes optstring :: string and longopts :: "long_option list"
  assumes agree: "p \<in> set longopts \<Longrightarrow> short_kind optstring (lo_val p) = Some (lo_has_arg p)"
    and no_null: "p \<in> set longopts \<Longrightarrow> lo_val p \<noteq> CHR 0x00"
    and no_question: "short_kind optstring (CHR ''?'') = None"
begin

lemma long_word_ok:
  assumes dashes: "take 2 a = ''--''"
  shows "answers_ok optstring a nxt (long_word longopts body nxt)"
proof (cases "find_long longopts (takeWhile (\<lambda>c. c \<noteq> CHR ''='') body)")
  case None
  then show ?thesis by (simp add: long_word_def answer_ok_refusal dashes)
next
  case (Some p)
  then have p: "short_kind optstring (lo_val p) = Some (lo_has_arg p)" "lo_val p \<noteq> CHR 0x00"
    using find_long_in agree no_null by blast+
  then have "lo_val p \<noteq> CHR ''?''" using no_question by auto
  then show ?thesis
    using p Some unfolding long_word_def Let_def
    by (cases "lo_has_arg p"; cases nxt)
      (auto simp: answer_ok_option answer_ok_refusal char_code_0 split: list.split)
qed

lemma option_word_ok:
  assumes "CHR 0x00 \<notin> set a"
  shows "answers_ok optstring a nxt (option_word optstring longopts a nxt)"
proof (cases "take 2 a = ''--''")
  case True
  then show ?thesis using long_word_ok [OF True] by (simp add: option_word_def)
next
  case False
  have "CHR 0x00 \<notin> set (drop 1 a)" using assms by (meson in_set_dropD)
  with False show ?thesis
    using short_cluster_ok [of "drop 1 a"] no_question by (simp add: option_word_def)
qed

lemma scan_words_ok:
  assumes "\<forall>a\<in>set rest. CHR 0x00 \<notin> set a"
  shows "scan_ok optstring (past @ skipped @ rest) (length past)
    (scan_words permute optstring longopts past skipped rest)"
  using assms
proof (induction "length rest" arbitrary: past skipped rest rule: less_induct)
  case less
  show ?case
  proof (cases rest)
    case Nil
    then show ?thesis by (simp add: scan_ok_def)
  next
    case (Cons a rest')
    then have nul: "CHR 0x00 \<notin> set a" and nul': "\<forall>a\<in>set rest'. CHR 0x00 \<notin> set a"
      using less.prems by auto
    have IH: "scan_ok optstring (p @ s @ drop n rest') (length p)
        (scan_words permute optstring longopts p s (drop n rest'))" for p s n
      by (rule less.hyps) (use nul' Cons in \<open>auto dest: in_set_dropD\<close>)
    consider "a = ''--''" | "a \<noteq> ''--''" "is_operand a" | "a \<noteq> ''--''" "\<not> is_operand a" by blast
    then show ?thesis
    proof cases
      case 1
      then show ?thesis by (simp add: Cons scan_ok_def)
    next
      case 2
      then show ?thesis
        using IH [of past "skipped @ [a]" 0] by (cases permute) (simp_all add: Cons scan_ok_def)
    next
      case 3
      obtain as n where w: "option_word optstring longopts a rest' = (as, n)" by fastforce
      with option_word_ok [OF nul, of rest'] have n: "n \<le> length rest'"
        and as: "\<forall>x\<in>set as. answer_ok optstring a n x" by auto
      have eq: "mset ((past @ a # take n rest') @ skipped @ drop n rest') =
          mset (past @ skipped @ a # rest')"
        by (simp add: mset_take_drop)
      let ?gs = "map (\<lambda>(opt, arg, optopt, k).
               \<lparr>gs_option = opt, gs_optarg = arg, gs_optopt = optopt,
                gs_optind = length past + length skipped + k,
                gs_argv = past @ skipped @ a # rest'\<rparr>) as"
      have "\<forall>g\<in>set ?gs. step_ok optstring (past @ skipped @ a # rest') g"
        using as by (auto dest!: bspec dest: step_of_answer [OF _ n, where pre = "past @ skipped"])
      from scan_ok_prepend [OF IH [of "past @ a # take n rest'" skipped n,
          unfolded scan_ok_cong [OF eq]] this, of "length past"]
      show ?thesis using 3 by (simp add: Cons w Let_def)
    qed
  qed
qed

theorem getopt_long_ok:
  assumes "\<forall>a\<in>set argv. CHR 0x00 \<notin> set a" and "argv \<noteq> []"
  shows "scan_ok optstring argv 1 (getopt_long h optstring longopts argv)"
  using assms scan_words_ok [of "tl argv" "[hd argv]" "[]"]
  by (cases argv) (simp_all add: getopt_long_def)

end

end
