(* ===== verification/Config.thy ===== *)
theory Config
  imports Samples Getopt
begin

text \<open>
  \<open>src/src/config.c\<close>: the option tables, the parsers of single values, the configuration from the
  environment and from the command line, its validation, and the texts that are printed. An
  operation that reports an error returns \<open>Inl\<close> of the message left in the caller's buffer; an
  operation that fills a field of the configuration returns the field's value.
\<close>

section \<open>Defaults and option tables\<close>

definition OPENUPS_DEFAULT_TARGET :: string where "OPENUPS_DEFAULT_TARGET = ''1.1.1.1''"
definition OPENUPS_DEFAULT_INTERVAL_SEC :: int where "OPENUPS_DEFAULT_INTERVAL_SEC = 10"
definition OPENUPS_DEFAULT_FAIL_THRESHOLD :: int where "OPENUPS_DEFAULT_FAIL_THRESHOLD = 5"
definition OPENUPS_DEFAULT_TIMEOUT_MS :: int where "OPENUPS_DEFAULT_TIMEOUT_MS = 2000"
definition OPENUPS_DEFAULT_DELAY_MINUTES :: int where "OPENUPS_DEFAULT_DELAY_MINUTES = 0"
definition OPENUPS_MAX_DELAY_MINUTES :: int where "OPENUPS_MAX_DELAY_MINUTES = 365 * 24 * 60"
definition OPENUPS_DEFAULT_SYSTEMD :: bool where "OPENUPS_DEFAULT_SYSTEMD = True"
definition TARGET_SIZE :: nat where "TARGET_SIZE = 64"

lemmas config_consts = OPENUPS_DEFAULT_TARGET_def OPENUPS_DEFAULT_INTERVAL_SEC_def
  OPENUPS_DEFAULT_FAIL_THRESHOLD_def OPENUPS_DEFAULT_TIMEOUT_MS_def
  OPENUPS_DEFAULT_DELAY_MINUTES_def OPENUPS_MAX_DELAY_MINUTES_def OPENUPS_DEFAULT_SYSTEMD_def
  TARGET_SIZE_def

text \<open>The entry of nulls that ends the C table is the end of the list.\<close>

definition CONFIG_LONG_OPTIONS :: "long_option list" where
  "CONFIG_LONG_OPTIONS =
     [\<lparr>lo_name = ''target'', lo_has_arg = required_argument, lo_val = CHR ''t''\<rparr>,
      \<lparr>lo_name = ''interval'', lo_has_arg = required_argument, lo_val = CHR ''i''\<rparr>,
      \<lparr>lo_name = ''threshold'', lo_has_arg = required_argument, lo_val = CHR ''n''\<rparr>,
      \<lparr>lo_name = ''timeout'', lo_has_arg = required_argument, lo_val = CHR ''w''\<rparr>,
      \<lparr>lo_name = ''shutdown-mode'', lo_has_arg = required_argument, lo_val = CHR ''S''\<rparr>,
      \<lparr>lo_name = ''delay'', lo_has_arg = required_argument, lo_val = CHR ''D''\<rparr>,
      \<lparr>lo_name = ''log-level'', lo_has_arg = required_argument, lo_val = CHR ''L''\<rparr>,
      \<lparr>lo_name = ''systemd'', lo_has_arg = optional_argument, lo_val = CHR ''M''\<rparr>,
      \<lparr>lo_name = ''version'', lo_has_arg = no_argument, lo_val = CHR ''v''\<rparr>,
      \<lparr>lo_name = ''help'', lo_has_arg = no_argument, lo_val = CHR ''h''\<rparr>]"

definition CONFIG_OPTSTRING :: string where "CONFIG_OPTSTRING = ''t:i:n:w:S:D:L:M::vh''"

definition CONFIG_LOG_LEVEL_OPTIONS :: "(string \<times> log_level_t) list" where
  "CONFIG_LOG_LEVEL_OPTIONS =
     [(''silent'', LOG_LEVEL_SILENT), (''none'', LOG_LEVEL_SILENT), (''error'', LOG_LEVEL_ERROR),
      (''warn'', LOG_LEVEL_WARN), (''info'', LOG_LEVEL_INFO), (''debug'', LOG_LEVEL_DEBUG)]"

definition CONFIG_SHUTDOWN_MODE_OPTIONS :: "(string \<times> shutdown_mode_t) list" where
  "CONFIG_SHUTDOWN_MODE_OPTIONS =
     [(''dry-run'', SHUTDOWN_MODE_DRY_RUN), (''true-off'', SHUTDOWN_MODE_TRUE_OFF),
      (''log-only'', SHUTDOWN_MODE_LOG_ONLY)]"

section \<open>Parsing a value\<close>

definition set_error :: "string \<Rightarrow> string + 'a" where
  "set_error text = Inl (snprintf_buf ERROR_MSG_SIZE text)"

definition string_equals_ignore_case :: "string \<Rightarrow> string \<Rightarrow> bool" where
  "string_equals_ignore_case lhs rhs = strcasecmp_eq lhs rhs"

definition copy_string_value :: "nat \<Rightarrow> string \<Rightarrow> string \<Rightarrow> string + string" where
  "copy_string_value dest_size src name =
     (if dest_size \<le> length src then
        set_error (name @ '' is too long (max '' @ show_nat (dest_size - 1) @ '' characters)'')
      else Inr (snprintf_buf dest_size src))"

definition parse_bool_value :: "string option \<Rightarrow> bool \<Rightarrow> bool option" where
  "parse_bool_value arg implicit_true_when_null =
     (case arg of
        None \<Rightarrow> if implicit_true_when_null then Some True else None
      | Some s \<Rightarrow>
          if string_equals_ignore_case s ''true'' then Some True
          else if string_equals_ignore_case s ''false'' then Some False
          else None)"

text \<open>The loops over the option tables: the first entry whose name matches.\<close>

fun find_option :: "(string \<times> 'a) list \<Rightarrow> string \<Rightarrow> 'a option" where
  "find_option [] arg = None"
| "find_option ((name, v) # rest) arg =
     (if string_equals_ignore_case arg name then Some v else find_option rest arg)"

definition parse_log_level_value :: "string option \<Rightarrow> log_level_t option" where
  "parse_log_level_value arg =
     (case arg of None \<Rightarrow> None | Some s \<Rightarrow> find_option CONFIG_LOG_LEVEL_OPTIONS s)"

definition shutdown_mode_parse_internal :: "string option \<Rightarrow> shutdown_mode_t option" where
  "shutdown_mode_parse_internal arg =
     (case arg of None \<Rightarrow> None | Some s \<Rightarrow> find_option CONFIG_SHUTDOWN_MODE_OPTIONS s)"

definition parse_int_value :: "string option \<Rightarrow> int \<Rightarrow> int \<Rightarrow> int option" where
  "parse_int_value arg min_value max_value =
     (case arg of
        None \<Rightarrow> None
      | Some s \<Rightarrow>
          (let (v, rest, erange) = strtol s
           in if erange \<or> rest = s \<or> rest \<noteq> [] then None
              else if v < min_value \<or> max_value < v then None
              else Some v))"

definition optarg_or_empty :: "string option \<Rightarrow> string" where
  "optarg_or_empty arg = (case arg of Some s \<Rightarrow> s | None \<Rightarrow> ''<empty>'')"

definition range_text :: "int \<Rightarrow> int \<Rightarrow> string" where
  "range_text min_value max_value =
     '' (range '' @ show_int min_value @ ''..'' @ show_int max_value @ '')''"

definition invalid_value :: "string \<Rightarrow> string \<Rightarrow> string \<Rightarrow> string + 'a" where
  "invalid_value name value_text hint =
     set_error (''Invalid value for '' @ name @ '': '' @ value_text @ hint)"

definition parse_cmdline_int_option ::
    "string \<Rightarrow> string option \<Rightarrow> int \<Rightarrow> int \<Rightarrow> string + int" where
  "parse_cmdline_int_option name arg min_value max_value =
     (case parse_int_value arg min_value max_value of
        None \<Rightarrow> invalid_value name (optarg_or_empty arg) (range_text min_value max_value)
      | Some v \<Rightarrow> Inr v)"

definition parse_cmdline_bool_option :: "string \<Rightarrow> string option \<Rightarrow> bool \<Rightarrow> string + bool" where
  "parse_cmdline_bool_option name arg implicit_true_when_null =
     (case parse_bool_value arg implicit_true_when_null of
        None \<Rightarrow> invalid_value name (optarg_or_empty arg) '' (use true|false)''
      | Some v \<Rightarrow> Inr v)"

definition parse_cmdline_log_level_option :: "string \<Rightarrow> string option \<Rightarrow> string + log_level_t" where
  "parse_cmdline_log_level_option name arg =
     (case parse_log_level_value arg of
        None \<Rightarrow> invalid_value name (optarg_or_empty arg) '' (use silent|error|warn|info|debug)''
      | Some v \<Rightarrow> Inr v)"

definition parse_cmdline_shutdown_mode_option ::
    "string \<Rightarrow> string option \<Rightarrow> string + shutdown_mode_t" where
  "parse_cmdline_shutdown_mode_option name arg =
     (case shutdown_mode_parse_internal arg of
        None \<Rightarrow> invalid_value name (optarg_or_empty arg) '' (use dry-run|true-off|log-only)''
      | Some v \<Rightarrow> Inr v)"

section \<open>The environment\<close>

text \<open>Each loader gets the field's old value and returns the new one; an unset variable keeps it.\<close>

definition load_env_int :: "host \<Rightarrow> string \<Rightarrow> string \<Rightarrow> int \<Rightarrow> int \<Rightarrow> int \<Rightarrow> string + int" where
  "load_env_int h env_name label min_value max_value old =
     (case getenv h env_name of
        None \<Rightarrow> Inr old
      | Some s \<Rightarrow>
          (case parse_int_value (Some s) min_value max_value of
             None \<Rightarrow> invalid_value label s (range_text min_value max_value)
           | Some v \<Rightarrow> Inr v))"

definition load_env_bool :: "host \<Rightarrow> string \<Rightarrow> string \<Rightarrow> bool \<Rightarrow> string + bool" where
  "load_env_bool h env_name label old =
     (case getenv h env_name of
        None \<Rightarrow> Inr old
      | Some s \<Rightarrow>
          (case parse_bool_value (Some s) False of
             None \<Rightarrow> invalid_value label s '' (use true|false)''
           | Some v \<Rightarrow> Inr v))"

definition load_env_shutdown_mode :: "host \<Rightarrow> string \<Rightarrow> shutdown_mode_t \<Rightarrow> string + shutdown_mode_t"
  where
  "load_env_shutdown_mode h env_name old =
     (case getenv h env_name of
        None \<Rightarrow> Inr old
      | Some s \<Rightarrow>
          (case shutdown_mode_parse_internal (Some s) of
             None \<Rightarrow> invalid_value env_name s '' (use dry-run|true-off|log-only)''
           | Some v \<Rightarrow> Inr v))"

definition load_env_log_level :: "host \<Rightarrow> string \<Rightarrow> log_level_t \<Rightarrow> string + log_level_t" where
  "load_env_log_level h env_name old =
     (case getenv h env_name of
        None \<Rightarrow> Inr old
      | Some s \<Rightarrow>
          (case parse_log_level_value (Some s) of
             None \<Rightarrow> invalid_value env_name s '' (use silent|error|warn|info|debug)''
           | Some v \<Rightarrow> Inr v))"

text \<open>Sequencing of operations that may fail, \<open>a && b\<close> on their success flags.\<close>

definition and_then :: "string + 'a \<Rightarrow> ('a \<Rightarrow> string + 'b) \<Rightarrow> string + 'b" where
  "and_then r f = (case r of Inl e \<Rightarrow> Inl e | Inr x \<Rightarrow> f x)"

definition load_env_int_options :: "host \<Rightarrow> config_t \<Rightarrow> string + config_t" where
  "load_env_int_options h c0 =
     and_then (load_env_int h ''OPENUPS_INTERVAL'' ''OPENUPS_INTERVAL'' 1 INT_MAX (interval_sec c0))
       (\<lambda>i. and_then (load_env_int h ''OPENUPS_THRESHOLD'' ''OPENUPS_THRESHOLD'' 1 INT_MAX
                        (fail_threshold c0))
       (\<lambda>t. and_then (load_env_int h ''OPENUPS_TIMEOUT'' ''OPENUPS_TIMEOUT'' 1 INT_MAX (timeout_ms c0))
       (\<lambda>w. and_then (load_env_int h ''OPENUPS_DELAY_MINUTES'' ''OPENUPS_DELAY_MINUTES'' 0 INT_MAX
                        (delay_minutes c0))
       (\<lambda>d. Inr (c0\<lparr>interval_sec := i, fail_threshold := t, timeout_ms := w,
                      delay_minutes := d\<rparr>)))))"

definition load_env_bool_options :: "host \<Rightarrow> config_t \<Rightarrow> string + config_t" where
  "load_env_bool_options h c0 =
     and_then (load_env_bool h ''OPENUPS_SYSTEMD'' ''OPENUPS_SYSTEMD'' (enable_systemd c0))
       (\<lambda>b. Inr (c0\<lparr>enable_systemd := b\<rparr>))"

definition config_init_default :: config_t where
  "config_init_default =
     \<lparr>target = snprintf_buf TARGET_SIZE OPENUPS_DEFAULT_TARGET,
      interval_sec = OPENUPS_DEFAULT_INTERVAL_SEC,
      fail_threshold = OPENUPS_DEFAULT_FAIL_THRESHOLD,
      timeout_ms = OPENUPS_DEFAULT_TIMEOUT_MS,
      shutdown_mode = SHUTDOWN_MODE_DRY_RUN,
      delay_minutes = OPENUPS_DEFAULT_DELAY_MINUTES,
      log_level = LOG_LEVEL_INFO,
      enable_systemd = OPENUPS_DEFAULT_SYSTEMD\<rparr>"

definition config_load_from_env :: "host \<Rightarrow> config_t \<Rightarrow> string + config_t" where
  "config_load_from_env h c0 =
     and_then (case getenv h ''OPENUPS_TARGET'' of
                 None \<Rightarrow> Inr (target c0)
               | Some s \<Rightarrow> copy_string_value TARGET_SIZE s ''OPENUPS_TARGET'')
       (\<lambda>t. and_then (load_env_int_options h (c0\<lparr>target := t\<rparr>))
       (\<lambda>c1. and_then (load_env_bool_options h c1)
       (\<lambda>c2. and_then (load_env_shutdown_mode h ''OPENUPS_SHUTDOWN_MODE'' (shutdown_mode c2))
       (\<lambda>m. and_then (load_env_log_level h ''OPENUPS_LOG_LEVEL'' (log_level c2))
       (\<lambda>l. Inr (c2\<lparr>shutdown_mode := m, log_level := l\<rparr>))))))"

section \<open>The command line\<close>

text \<open>The variable \<open>requested_exit_option\<close>: 0, \<open>'v'\<close> or \<open>'h'\<close>.\<close>

datatype exit_option = EXIT_NONE | EXIT_VERSION | EXIT_HELP

text \<open>
  The switch for one option that \<open>getopt_long\<close> returned. \<open>-t\<close> has a required argument, so
  \<open>optarg\<close> is a string there.
\<close>

definition cmdline_option ::
    "getopt_step \<Rightarrow> config_t \<times> exit_option \<Rightarrow> string + config_t \<times> exit_option" where
  "cmdline_option g = (\<lambda>(c, ex).
     if gs_option g = CHR ''t'' then
       and_then (case gs_optarg g of
                   None \<Rightarrow> Inl []
                 | Some s \<Rightarrow> copy_string_value TARGET_SIZE s ''--target'')
         (\<lambda>t. Inr (c\<lparr>target := t\<rparr>, ex))
     else if gs_option g = CHR ''i'' then
       and_then (parse_cmdline_int_option ''--interval'' (gs_optarg g) 1 INT_MAX)
         (\<lambda>i. Inr (c\<lparr>interval_sec := i\<rparr>, ex))
     else if gs_option g = CHR ''n'' then
       and_then (parse_cmdline_int_option ''--threshold'' (gs_optarg g) 1 INT_MAX)
         (\<lambda>i. Inr (c\<lparr>fail_threshold := i\<rparr>, ex))
     else if gs_option g = CHR ''w'' then
       and_then (parse_cmdline_int_option ''--timeout'' (gs_optarg g) 1 INT_MAX)
         (\<lambda>i. Inr (c\<lparr>timeout_ms := i\<rparr>, ex))
     else if gs_option g = CHR ''S'' then
       and_then (parse_cmdline_shutdown_mode_option ''--shutdown-mode'' (gs_optarg g))
         (\<lambda>m. Inr (c\<lparr>shutdown_mode := m\<rparr>, ex))
     else if gs_option g = CHR ''D'' then
       and_then (parse_cmdline_int_option ''--delay'' (gs_optarg g) 0 INT_MAX)
         (\<lambda>i. Inr (c\<lparr>delay_minutes := i\<rparr>, ex))
     else if gs_option g = CHR ''L'' then
       and_then (parse_cmdline_log_level_option ''--log-level'' (gs_optarg g))
         (\<lambda>l. Inr (c\<lparr>log_level := l\<rparr>, ex))
     else if gs_option g = CHR ''M'' then
       and_then (parse_cmdline_bool_option ''--systemd'' (gs_optarg g) True)
         (\<lambda>b. Inr (c\<lparr>enable_systemd := b\<rparr>, ex))
     else if gs_option g = CHR ''v'' then Inr (c, EXIT_VERSION)
     else if gs_option g = CHR ''h'' then Inr (c, EXIT_HELP)
     else if gs_option g = CHR ''?'' then
       if gs_optopt g \<noteq> 0 then
         set_error (''Option requires an argument or has invalid value: -'' @
           [char_of (gs_optopt g)])
       else
         set_error (''Unknown option: '' @
           (if 1 \<le> gs_optind g \<and> gs_optind g - 1 < length (gs_argv g)
            then gs_argv g ! (gs_optind g - 1) else ''<unknown>''))
     else set_error ''Failed to parse command line arguments'')"

fun cmdline_loop ::
    "getopt_step list \<Rightarrow> config_t \<times> exit_option \<Rightarrow> string + config_t \<times> exit_option" where
  "cmdline_loop [] s = Inr s"
| "cmdline_loop (g # gs) s = and_then (cmdline_option g s) (cmdline_loop gs)"

section \<open>The printed texts\<close>

definition config_print_version :: "world \<Rightarrow> world" where
  "config_print_version w =
     emit (Stdout (''OpenUPS network monitor'' @ nl))
       (emit (Stdout (OPENUPS_PROGRAM_NAME @ '' version '' @ OPENUPS_VERSION @ nl)) w)"

definition usage_lines :: "string list" where
  "usage_lines =
     [''Usage: '' @ OPENUPS_PROGRAM_NAME @ '' [options]'', [],
      ''Network Options:'',
      ''  -t, --target <ip>           Target IP literal to monitor (DNS disabled, default: '' @
        OPENUPS_DEFAULT_TARGET @ '')'',
      ''  -i, --interval <sec>        Ping interval in seconds (default: '' @
        show_int OPENUPS_DEFAULT_INTERVAL_SEC @ '')'',
      ''  -n, --threshold <num>       Consecutive failures threshold (default: '' @
        show_int OPENUPS_DEFAULT_FAIL_THRESHOLD @ '')'',
      ''  -w, --timeout <ms>          Ping timeout in milliseconds (default: '' @
        show_int OPENUPS_DEFAULT_TIMEOUT_MS @ '')'', [],
      ''Shutdown Options:'',
      ''  -S, --shutdown-mode <mode>  Shutdown mode: dry-run|true-off|log-only'',
      ''                              (default: dry-run)'',
      ''  -D, --delay <min>           Shutdown countdown in minutes for dry-run/true-off mode (default: '' @
        show_int OPENUPS_DEFAULT_DELAY_MINUTES @ '')'',
      ''                              0 means immediate execution without countdown'', [],
      ''Logging Options:'',
      ''  -L, --log-level <level>     Log level: silent|error|warn|info|debug'',
      ''                              (default: info)'',
      ''System Integration:'',
      ''  -M[ARG], --systemd[=ARG]    Enable/disable systemd integration (default: '' @
        (if OPENUPS_DEFAULT_SYSTEMD then ''true'' else ''false'') @ '')'',
      ''                              Watchdog is auto-enabled with systemd'',
      ''                              Log timestamps are auto-disabled when systemd is enabled'',
      ''                              Otherwise timestamps stay enabled'',
      ''                              ARG format: true|false'', [],
      ''General Options:'',
      ''  -v, --version               Show version information'',
      ''  -h, --help                  Show this help message'', [],
      ''Environment Variables (lower priority than CLI args):'',
      ''  Network:      OPENUPS_TARGET, OPENUPS_INTERVAL, OPENUPS_THRESHOLD,'',
      ''                OPENUPS_TIMEOUT'',
      ''  Shutdown:     OPENUPS_SHUTDOWN_MODE, OPENUPS_DELAY_MINUTES,'',
      ''  Logging:      OPENUPS_LOG_LEVEL'',
      ''  Integration:  OPENUPS_SYSTEMD'', [],
      ''Examples:'',
      ''  # Basic monitoring with dry-run mode'',
      ''  '' @ OPENUPS_PROGRAM_NAME @ '' -t 1.1.1.1 -i 10 -n 5'', [],
      ''  # Production mode (actual shutdown)'',
      ''  '' @ OPENUPS_PROGRAM_NAME @ '' -t 192.168.1.1 -i 5 -n 3 --shutdown-mode true-off'', [],
      ''  # Delayed countdown before shutdown'',
      ''  '' @ OPENUPS_PROGRAM_NAME @
        '' -t 192.168.1.1 -i 5 -n 3 --shutdown-mode true-off --delay 3'', [],
      ''  # Foreground debug mode with local timestamps'',
      ''  '' @ OPENUPS_PROGRAM_NAME @ '' -t 8.8.8.8 -L debug --systemd=false'', [],
      ''  # Short options (values must connect directly, no space)'',
      ''  '' @ OPENUPS_PROGRAM_NAME @ '' -t 8.8.8.8 -i5 -n3 -Strue-off -D0 -Mfalse -Ldebug'', []]"

definition config_print_usage :: "world \<Rightarrow> world" where
  "config_print_usage w = fold (\<lambda>l. emit (Stdout (l @ nl))) usage_lines w"

text \<open>The configuration with the flag \<open>exit_requested\<close>, or the error message.\<close>

definition config_load_from_cmdline ::
    "config_t \<Rightarrow> string list \<Rightarrow> world \<Rightarrow> (string + config_t \<times> bool) \<times> world" where
  "config_load_from_cmdline c0 argv w =
     (let run = getopt_long (host w) CONFIG_OPTSTRING CONFIG_LONG_OPTIONS argv
      in case cmdline_loop (go_steps run) (c0, EXIT_NONE) of
           Inl e \<Rightarrow> (Inl e, w)
         | Inr (c, ex) \<Rightarrow>
             if go_optind run < length argv then
               (set_error (''Unexpected argument: '' @
                  (case drop (go_optind run) (go_argv run) of a # _ \<Rightarrow> a | [] \<Rightarrow> [])), w)
             else
               (Inr (c, ex \<noteq> EXIT_NONE),
                case ex of EXIT_VERSION \<Rightarrow> config_print_version w
                         | EXIT_HELP \<Rightarrow> config_print_usage w
                         | EXIT_NONE \<Rightarrow> w))"

section \<open>Validation\<close>

definition is_valid_ip_literal :: "host \<Rightarrow> string \<Rightarrow> bool" where
  "is_valid_ip_literal h tgt =
     (if tgt = [] then False
      else if inet_pton4 h tgt \<noteq> None then True
      else if inet_pton6 h tgt \<noteq> None then True
      else False)"

definition timeout_fits_interval :: "config_t \<Rightarrow> bool" where
  "timeout_fits_interval c =
     (if interval_sec c \<le> 0 \<or> timeout_ms c \<le> 0 then False
      else case ckd_mul (word_of_int (interval_sec c)) OPENUPS_MS_PER_SEC of
             None \<Rightarrow> False
           | Some interval_ms \<Rightarrow> word_of_int (timeout_ms c) < interval_ms)"

definition config_validate :: "host \<Rightarrow> config_t \<Rightarrow> string + unit" where
  "config_validate h c =
     (if target c = [] then set_error ''Target host cannot be empty''
      else if \<not> is_valid_ip_literal h (target c) then
        set_error ''Target must be a valid IPv4 or IPv6 address (DNS is disabled)''
      else if interval_sec c \<le> 0 then set_error ''Interval must be positive''
      else if fail_threshold c \<le> 0 then set_error ''Failure threshold must be positive''
      else if timeout_ms c \<le> 0 then set_error ''Timeout must be positive''
      else if delay_minutes c < 0 then set_error ''Delay minutes cannot be negative''
      else if OPENUPS_MAX_DELAY_MINUTES < delay_minutes c then
        set_error ''Delay minutes too large (max 525600)''
      else if \<not> timeout_fits_interval c then
        set_error ''Timeout must be smaller than interval to avoid overlapping probes''
      else if shutdown_mode c = SHUTDOWN_MODE_LOG_ONLY \<and> delay_minutes c \<noteq> 0 then
        set_error ''Delay is only valid with dry-run or true-off shutdown modes''
      else Inr ())"

definition config_log_timestamps_enabled :: "config_t \<Rightarrow> bool" where
  "config_log_timestamps_enabled c = (\<not> enable_systemd c)"

definition bool_text :: "bool \<Rightarrow> string" where
  "bool_text b = (if b then ''true'' else ''false'')"

definition config_print :: "config_t \<Rightarrow> logger_t \<Rightarrow> world \<Rightarrow> world" where
  "config_print c lg w = fold (logger_debug lg)
     [''Configuration:'', ''  Target: '' @ target c,
      ''  Interval: '' @ show_int (interval_sec c) @ '' seconds'',
      ''  Threshold: '' @ show_int (fail_threshold c),
      ''  Timeout: '' @ show_int (timeout_ms c) @ '' ms'',
      ''  Shutdown Mode: '' @ shutdown_mode_to_string (shutdown_mode c),
      ''  Delay: '' @ show_int (delay_minutes c) @ '' minutes'',
      ''  Log Level: '' @ log_level_to_string (log_level c),
      ''  Timestamp: '' @ bool_text (config_log_timestamps_enabled c),
      ''  Systemd: '' @ bool_text (enable_systemd c)] w"

text \<open>The configuration and whether to exit, or the error message.\<close>

definition config_resolve ::
    "string list \<Rightarrow> world \<Rightarrow> (string + config_t \<times> bool) \<times> world" where
  "config_resolve argv w =
     (case config_load_from_env (host w) config_init_default of
        Inl e \<Rightarrow> (Inl e, w)
      | Inr c1 \<Rightarrow>
          (case config_load_from_cmdline c1 argv w of
             (Inl e, w1) \<Rightarrow> (Inl e, w1)
           | (Inr (c2, exit_requested), w1) \<Rightarrow>
               if exit_requested then (Inr (c2, True), w1)
               else (case config_validate (host w1) c2 of
                       Inl e \<Rightarrow> (Inl e, w1)
                     | Inr _ \<Rightarrow> (Inr (c2, False), w1))))"

section \<open>Keyword tables\<close>

lemma find_option_iff:
  assumes "distinct (map (map c_tolower \<circ> fst) table)"
  shows "find_option table s = Some v \<longleftrightarrow>
    (\<exists>name. (name, v) \<in> set table \<and> map c_tolower s = map c_tolower name)"
  using assms
  by (induction table) (force simp: string_equals_ignore_case_def strcasecmp_eq_def)+

text \<open>
  A table of keywords: the names are different without regard to case, and every value has a
  printed form whose lower case names it. Parsing is then exact, insensitive to case, and the
  inverse of printing.
\<close>

locale keyword_table =
  fixes table :: "(string \<times> 'v) list" and print :: "'v \<Rightarrow> string"
  assumes different: "distinct (map (map c_tolower \<circ> fst) table)"
    and printed: "\<exists>name. (name, v) \<in> set table \<and> map c_tolower name = map c_tolower (print v)"
begin

lemma parse_iff:
  "find_option table s = Some v \<longleftrightarrow>
     (\<exists>name. (name, v) \<in> set table \<and> map c_tolower s = map c_tolower name)"
  by (rule find_option_iff [OF different])

lemma parse_print: "find_option table (print v) = Some v"
  using printed [of v] by (auto simp: parse_iff)

lemma parse_any_case: "map c_tolower s = map c_tolower t \<Longrightarrow> find_option table s = find_option table t"
  using parse_iff [of s] parse_iff [of t] by (metis option.exhaust)

end

interpretation log_levels: keyword_table CONFIG_LOG_LEVEL_OPTIONS log_level_to_string
proof unfold_locales
  show "distinct (map (map c_tolower \<circ> fst) CONFIG_LOG_LEVEL_OPTIONS)"
    by (simp add: CONFIG_LOG_LEVEL_OPTIONS_def c_tolower_def)
  fix v
  show "\<exists>name. (name, v) \<in> set CONFIG_LOG_LEVEL_OPTIONS \<and>
      map c_tolower name = map c_tolower (log_level_to_string v)"
    by (rule exI [of _ "map c_tolower (log_level_to_string v)"], cases v)
      (simp_all add: CONFIG_LOG_LEVEL_OPTIONS_def c_tolower_def char_of_def bit_0)
qed

interpretation shutdown_modes: keyword_table CONFIG_SHUTDOWN_MODE_OPTIONS shutdown_mode_to_string
proof unfold_locales
  show "distinct (map (map c_tolower \<circ> fst) CONFIG_SHUTDOWN_MODE_OPTIONS)"
    by (simp add: CONFIG_SHUTDOWN_MODE_OPTIONS_def c_tolower_def)
  fix v
  show "\<exists>name. (name, v) \<in> set CONFIG_SHUTDOWN_MODE_OPTIONS \<and>
      map c_tolower name = map c_tolower (shutdown_mode_to_string v)"
    by (cases v) (auto simp: CONFIG_SHUTDOWN_MODE_OPTIONS_def)
qed

section \<open>Numbers\<close>

lemma parse_int_value_iff:
  assumes "LONG_MIN \<le> lo" and "hi \<le> LONG_MAX"
  shows "parse_int_value (Some s) lo hi = Some v \<longleftrightarrow>
    (\<exists>neg n. c_decimal s neg n \<and> v = signed_val neg n) \<and> lo \<le> v \<and> v \<le> hi"
proof -
  obtain i rest er where st: "strtol s = (i, rest, er)" by (metis prod_cases3)
  have "parse_int_value (Some s) lo hi = Some v \<longleftrightarrow>
      (\<exists>rest. strtol s = (v, rest, False) \<and> rest \<noteq> s \<and> rest = []) \<and> lo \<le> v \<and> v \<le> hi"
    using st by (auto simp: parse_int_value_def)
  also have "\<dots> \<longleftrightarrow> ((\<exists>neg n. c_decimal s neg n \<and> v = signed_val neg n) \<and>
      LONG_MIN \<le> v \<and> v \<le> LONG_MAX) \<and> lo \<le> v \<and> v \<le> hi"
    unfolding strtol_complete_iff by blast
  finally show ?thesis using assms by (metis order_trans)
qed

section \<open>The last option wins\<close>

text \<open>The argument of the last option with a letter, if there is one.\<close>

definition last_arg :: "char \<Rightarrow> getopt_step list \<Rightarrow> string option option" where
  "last_arg letter gs =
     (let hs = filter (\<lambda>g. gs_option g = letter) gs
      in if hs = [] then None else Some (gs_optarg (last hs)))"

lemma last_arg_snoc:
  "last_arg letter (gs @ [g]) = (if gs_option g = letter then Some (gs_optarg g) else last_arg letter gs)"
  by (auto simp: last_arg_def Let_def)

lemma and_then_Inr_iff: "and_then r f = Inr y \<longleftrightarrow> (\<exists>x. r = Inr x \<and> f x = Inr y)"
  by (simp add: and_then_def split: sum.split)

lemma cmdline_loop_snoc: "cmdline_loop (gs @ [g]) s = and_then (cmdline_loop gs s) (cmdline_option g)"
proof (induction gs arbitrary: s)
  case Nil
  then show ?case by (simp add: and_then_def split: sum.split)
next
  case (Cons h gs)
  then show ?case by (simp add: and_then_def split: sum.split)
qed

text \<open>
  The contract of an option: with its letter it stores what its parser makes of the argument,
  every other option leaves its field alone.
\<close>

locale option_field =
  fixes letter :: char and field :: "config_t \<Rightarrow> 'v" and parse :: "string option \<Rightarrow> 'v option"
  assumes own: "gs_option g = letter \<Longrightarrow> cmdline_option g (c, ex) = Inr (c', ex') \<Longrightarrow>
      parse (gs_optarg g) = Some (field c')"
    and other: "gs_option g \<noteq> letter \<Longrightarrow> cmdline_option g (c, ex) = Inr (c', ex') \<Longrightarrow>
      field c' = field c"
begin

lemma last_wins:
  assumes "cmdline_loop gs (c, ex) = Inr (c', ex')"
  shows "case last_arg letter gs of
      None \<Rightarrow> field c' = field c | Some a \<Rightarrow> parse a = Some (field c')"
  using assms
proof (induction gs arbitrary: c' ex' rule: rev_induct)
  case Nil
  then show ?case by (simp add: last_arg_def)
next
  case (snoc g gs)
  then obtain c1 ex1 where l: "cmdline_loop gs (c, ex) = Inr (c1, ex1)"
    and g: "cmdline_option g (c1, ex1) = Inr (c', ex')"
    by (auto simp: cmdline_loop_snoc and_then_Inr_iff)
  from snoc.IH [OF l] own [OF _ g] other [OF _ g] show ?case
    by (auto simp: last_arg_snoc split: option.splits)
qed

end

lemma copy_string_value_Inr:
  "copy_string_value n s name = Inr t \<longleftrightarrow> length s < n \<and> t = s"
  by (auto simp: copy_string_value_def set_error_def snprintf_buf_fits)

definition parse_target :: "string option \<Rightarrow> string option" where
  "parse_target arg = (case arg of None \<Rightarrow> None | Some s \<Rightarrow> if length s < 64 then Some s else None)"

lemmas cmdline_parsers = parse_cmdline_int_option_def parse_cmdline_bool_option_def
  parse_cmdline_log_level_option_def parse_cmdline_shutdown_mode_option_def
  invalid_value_def set_error_def

lemmas cmdline_option_Inr = cmdline_option_def and_then_Inr_iff cmdline_parsers
  copy_string_value_Inr parse_target_def TARGET_SIZE_def

interpretation opt_target: option_field "CHR ''t''" target parse_target
  by unfold_locales (auto simp: cmdline_option_Inr split: if_splits option.splits)

interpretation opt_interval: option_field "CHR ''i''" interval_sec "\<lambda>a. parse_int_value a 1 INT_MAX"
  by unfold_locales (auto simp: cmdline_option_Inr split: if_splits option.splits)

interpretation opt_threshold: option_field "CHR ''n''" fail_threshold "\<lambda>a. parse_int_value a 1 INT_MAX"
  by unfold_locales (auto simp: cmdline_option_Inr split: if_splits option.splits)

interpretation opt_timeout: option_field "CHR ''w''" timeout_ms "\<lambda>a. parse_int_value a 1 INT_MAX"
  by unfold_locales (auto simp: cmdline_option_Inr split: if_splits option.splits)

interpretation opt_mode: option_field "CHR ''S''" shutdown_mode shutdown_mode_parse_internal
  by unfold_locales (auto simp: cmdline_option_Inr split: if_splits option.splits)

interpretation opt_delay: option_field "CHR ''D''" delay_minutes "\<lambda>a. parse_int_value a 0 INT_MAX"
  by unfold_locales (auto simp: cmdline_option_Inr split: if_splits option.splits)

interpretation opt_level: option_field "CHR ''L''" log_level parse_log_level_value
  by unfold_locales (auto simp: cmdline_option_Inr split: if_splits option.splits)

interpretation opt_systemd: option_field "CHR ''M''" enable_systemd "\<lambda>a. parse_bool_value a True"
  by unfold_locales (auto simp: cmdline_option_Inr split: if_splits option.splits)

section \<open>What the configuration guarantees\<close>

lemma load_env_Inr:
  "load_env_int h n l lo hi old = Inr v \<longleftrightarrow>
     (case getenv h n of None \<Rightarrow> v = old | Some s \<Rightarrow> parse_int_value (Some s) lo hi = Some v)"
  "load_env_bool h n l b = Inr b' \<longleftrightarrow>
     (case getenv h n of None \<Rightarrow> b' = b | Some s \<Rightarrow> parse_bool_value (Some s) False = Some b')"
  "load_env_shutdown_mode h n m = Inr m' \<longleftrightarrow>
     (case getenv h n of None \<Rightarrow> m' = m | Some s \<Rightarrow> shutdown_mode_parse_internal (Some s) = Some m')"
  "load_env_log_level h n g = Inr g' \<longleftrightarrow>
     (case getenv h n of None \<Rightarrow> g' = g | Some s \<Rightarrow> parse_log_level_value (Some s) = Some g')"
  by (auto simp: load_env_int_def load_env_bool_def load_env_shutdown_mode_def load_env_log_level_def
      invalid_value_def set_error_def split: option.split)

text \<open>A field from the environment: the default without the variable, its value otherwise.\<close>

definition env_field :: "host \<Rightarrow> string \<Rightarrow> (string option \<Rightarrow> 'v option) \<Rightarrow> 'v \<Rightarrow> 'v \<Rightarrow> bool" where
  "env_field h name parse dflt v \<longleftrightarrow>
     (case getenv h name of None \<Rightarrow> v = dflt | Some s \<Rightarrow> parse (Some s) = Some v)"

lemma config_load_from_env_Inr:
  assumes "config_load_from_env h c0 = Inr c"
  shows "env_field h ''OPENUPS_TARGET'' parse_target (target c0) (target c)"
    and "env_field h ''OPENUPS_INTERVAL'' (\<lambda>a. parse_int_value a 1 INT_MAX) (interval_sec c0) (interval_sec c)"
    and "env_field h ''OPENUPS_THRESHOLD'' (\<lambda>a. parse_int_value a 1 INT_MAX) (fail_threshold c0) (fail_threshold c)"
    and "env_field h ''OPENUPS_TIMEOUT'' (\<lambda>a. parse_int_value a 1 INT_MAX) (timeout_ms c0) (timeout_ms c)"
    and "env_field h ''OPENUPS_DELAY_MINUTES'' (\<lambda>a. parse_int_value a 0 INT_MAX) (delay_minutes c0) (delay_minutes c)"
    and "env_field h ''OPENUPS_SYSTEMD'' (\<lambda>a. parse_bool_value a False) (enable_systemd c0) (enable_systemd c)"
    and "env_field h ''OPENUPS_SHUTDOWN_MODE'' shutdown_mode_parse_internal (shutdown_mode c0) (shutdown_mode c)"
    and "env_field h ''OPENUPS_LOG_LEVEL'' parse_log_level_value (log_level c0) (log_level c)"
proof -
  from assms obtain t i th tm d b m g where
    t: "(case getenv h ''OPENUPS_TARGET'' of None \<Rightarrow> Inr (target c0)
         | Some s \<Rightarrow> copy_string_value TARGET_SIZE s ''OPENUPS_TARGET'') = Inr t"
    and l: "load_env_int h ''OPENUPS_INTERVAL'' ''OPENUPS_INTERVAL'' 1 INT_MAX (interval_sec c0) = Inr i"
      "load_env_int h ''OPENUPS_THRESHOLD'' ''OPENUPS_THRESHOLD'' 1 INT_MAX (fail_threshold c0) = Inr th"
      "load_env_int h ''OPENUPS_TIMEOUT'' ''OPENUPS_TIMEOUT'' 1 INT_MAX (timeout_ms c0) = Inr tm"
      "load_env_int h ''OPENUPS_DELAY_MINUTES'' ''OPENUPS_DELAY_MINUTES'' 0 INT_MAX (delay_minutes c0) = Inr d"
      "load_env_bool h ''OPENUPS_SYSTEMD'' ''OPENUPS_SYSTEMD'' (enable_systemd c0) = Inr b"
      "load_env_shutdown_mode h ''OPENUPS_SHUTDOWN_MODE'' (shutdown_mode c0) = Inr m"
      "load_env_log_level h ''OPENUPS_LOG_LEVEL'' (log_level c0) = Inr g"
    and c: "c = c0\<lparr>target := t, interval_sec := i, fail_threshold := th, timeout_ms := tm,
      delay_minutes := d, enable_systemd := b, shutdown_mode := m, log_level := g\<rparr>"
    unfolding config_load_from_env_def load_env_int_options_def load_env_bool_options_def
    by (auto simp: and_then_Inr_iff)
  show "env_field h ''OPENUPS_TARGET'' parse_target (target c0) (target c)"
    using t c by (auto simp: env_field_def parse_target_def copy_string_value_Inr TARGET_SIZE_def
        split: option.splits)
  show "env_field h ''OPENUPS_INTERVAL'' (\<lambda>a. parse_int_value a 1 INT_MAX) (interval_sec c0) (interval_sec c)"
    "env_field h ''OPENUPS_THRESHOLD'' (\<lambda>a. parse_int_value a 1 INT_MAX) (fail_threshold c0) (fail_threshold c)"
    "env_field h ''OPENUPS_TIMEOUT'' (\<lambda>a. parse_int_value a 1 INT_MAX) (timeout_ms c0) (timeout_ms c)"
    "env_field h ''OPENUPS_DELAY_MINUTES'' (\<lambda>a. parse_int_value a 0 INT_MAX) (delay_minutes c0) (delay_minutes c)"
    "env_field h ''OPENUPS_SYSTEMD'' (\<lambda>a. parse_bool_value a False) (enable_systemd c0) (enable_systemd c)"
    "env_field h ''OPENUPS_SHUTDOWN_MODE'' shutdown_mode_parse_internal (shutdown_mode c0) (shutdown_mode c)"
    "env_field h ''OPENUPS_LOG_LEVEL'' parse_log_level_value (log_level c0) (log_level c)"
    using l c by (simp_all add: load_env_Inr env_field_def)
qed

text \<open>The value of a field after the whole resolution: command line, environment, default.\<close>

definition resolved_field ::
    "getopt_step list \<Rightarrow> host \<Rightarrow> char \<Rightarrow> (string option \<Rightarrow> 'v option) \<Rightarrow>
     string \<Rightarrow> (string option \<Rightarrow> 'v option) \<Rightarrow> 'v \<Rightarrow> 'v \<Rightarrow> bool" where
  "resolved_field gs h letter parse name env_parse dflt v \<longleftrightarrow>
     (case last_arg letter gs of
        Some a \<Rightarrow> parse a = Some v
      | None \<Rightarrow> env_field h name env_parse dflt v)"

lemma resolved_fieldI:
  assumes "case last_arg letter gs of None \<Rightarrow> v = v1 | Some a \<Rightarrow> parse a = Some v"
    and "env_field h name env_parse dflt v1"
  shows "resolved_field gs h letter parse name env_parse dflt v"
  using assms by (simp add: resolved_field_def split: option.splits)

lemma config_default_fields:
  "target config_init_default = ''1.1.1.1''" "interval_sec config_init_default = 10"
  "fail_threshold config_init_default = 5" "timeout_ms config_init_default = 2000"
  "delay_minutes config_init_default = 0" "shutdown_mode config_init_default = SHUTDOWN_MODE_DRY_RUN"
  "log_level config_init_default = LOG_LEVEL_INFO" "enable_systemd config_init_default = True"
  by (simp_all add: config_init_default_def config_consts snprintf_buf_def)

lemma config_resolve_cases:
  assumes "config_resolve argv w = (Inr (c, ex), w')"
  obtains c1 eo where "config_load_from_env (host w) config_init_default = Inr c1"
    "cmdline_loop (go_steps (getopt_long (host w) CONFIG_OPTSTRING CONFIG_LONG_OPTIONS argv))
      (c1, EXIT_NONE) = Inr (c, eo)"
    "ex \<longleftrightarrow> eo \<noteq> EXIT_NONE" "\<not> ex \<longrightarrow> w' = w \<and> config_validate (host w) c = Inr ()"
    "length argv \<le> go_optind (getopt_long (host w) CONFIG_OPTSTRING CONFIG_LONG_OPTIONS argv)"
  using assms
  by (auto simp: config_resolve_def config_load_from_cmdline_def Let_def set_error_def
      split: sum.splits prod.splits if_splits exit_option.splits)

abbreviation positive_int :: "string option \<Rightarrow> int option" where
  "positive_int \<equiv> \<lambda>a. parse_int_value a 1 INT_MAX"

abbreviation natural_int :: "string option \<Rightarrow> int option" where
  "natural_int \<equiv> \<lambda>a. parse_int_value a 0 INT_MAX"

lemma config_resolve_fields:
  assumes "config_resolve argv w = (Inr (c, ex), w')"
  defines "gs \<equiv> go_steps (getopt_long (host w) CONFIG_OPTSTRING CONFIG_LONG_OPTIONS argv)"
  shows "resolved_field gs (host w) (CHR ''t'') parse_target ''OPENUPS_TARGET'' parse_target ''1.1.1.1'' (target c)"
    and "resolved_field gs (host w) (CHR ''i'') positive_int ''OPENUPS_INTERVAL'' positive_int 10 (interval_sec c)"
    and "resolved_field gs (host w) (CHR ''n'') positive_int ''OPENUPS_THRESHOLD'' positive_int 5 (fail_threshold c)"
    and "resolved_field gs (host w) (CHR ''w'') positive_int ''OPENUPS_TIMEOUT'' positive_int 2000 (timeout_ms c)"
    and "resolved_field gs (host w) (CHR ''D'') natural_int ''OPENUPS_DELAY_MINUTES'' natural_int 0 (delay_minutes c)"
    and "resolved_field gs (host w) (CHR ''S'') shutdown_mode_parse_internal ''OPENUPS_SHUTDOWN_MODE''
      shutdown_mode_parse_internal SHUTDOWN_MODE_DRY_RUN (shutdown_mode c)"
    and "resolved_field gs (host w) (CHR ''L'') parse_log_level_value ''OPENUPS_LOG_LEVEL''
      parse_log_level_value LOG_LEVEL_INFO (log_level c)"
    and "resolved_field gs (host w) (CHR ''M'') (\<lambda>a. parse_bool_value a True) ''OPENUPS_SYSTEMD''
      (\<lambda>a. parse_bool_value a False) True (enable_systemd c)"
proof -
  obtain c1 eo where env: "config_load_from_env (host w) config_init_default = Inr c1"
    and cl: "cmdline_loop gs (c1, EXIT_NONE) = Inr (c, eo)"
    using assms(1) unfolding gs_def by (rule config_resolve_cases)
  note env = config_load_from_env_Inr [OF env, unfolded config_default_fields]
  note fields = resolved_fieldI [OF opt_target.last_wins [OF cl] env(1)]
    resolved_fieldI [OF opt_interval.last_wins [OF cl] env(2)]
    resolved_fieldI [OF opt_threshold.last_wins [OF cl] env(3)]
    resolved_fieldI [OF opt_timeout.last_wins [OF cl] env(4)]
    resolved_fieldI [OF opt_delay.last_wins [OF cl] env(5)]
    resolved_fieldI [OF opt_mode.last_wins [OF cl] env(7)]
    resolved_fieldI [OF opt_level.last_wins [OF cl] env(8)]
    resolved_fieldI [OF opt_systemd.last_wins [OF cl] env(6)]
  show "resolved_field gs (host w) (CHR ''t'') parse_target ''OPENUPS_TARGET'' parse_target ''1.1.1.1'' (target c)"
    "resolved_field gs (host w) (CHR ''i'') positive_int ''OPENUPS_INTERVAL'' positive_int 10 (interval_sec c)"
    "resolved_field gs (host w) (CHR ''n'') positive_int ''OPENUPS_THRESHOLD'' positive_int 5 (fail_threshold c)"
    "resolved_field gs (host w) (CHR ''w'') positive_int ''OPENUPS_TIMEOUT'' positive_int 2000 (timeout_ms c)"
    "resolved_field gs (host w) (CHR ''D'') natural_int ''OPENUPS_DELAY_MINUTES'' natural_int 0 (delay_minutes c)"
    "resolved_field gs (host w) (CHR ''S'') shutdown_mode_parse_internal ''OPENUPS_SHUTDOWN_MODE''
      shutdown_mode_parse_internal SHUTDOWN_MODE_DRY_RUN (shutdown_mode c)"
    "resolved_field gs (host w) (CHR ''L'') parse_log_level_value ''OPENUPS_LOG_LEVEL''
      parse_log_level_value LOG_LEVEL_INFO (log_level c)"
    "resolved_field gs (host w) (CHR ''M'') (\<lambda>a. parse_bool_value a True) ''OPENUPS_SYSTEMD''
      (\<lambda>a. parse_bool_value a False) True (enable_systemd c)"
    by (rule fields)+
qed

text \<open>
  C20: when the configuration is resolved, every field has the value of the
  last command-line option that sets it, without one that of its environment variable, and
  without both the default; each value in force is one its parser accepted.
\<close>

theorem configuration_priority:
  assumes "config_resolve argv w = (Inr (c, ex), w')"
  shows "let gs = go_steps (getopt_long (host w) CONFIG_OPTSTRING CONFIG_LONG_OPTIONS argv); h = host w;
      pos = (\<lambda>a. parse_int_value a 1 INT_MAX)
    in resolved_field gs h (CHR ''t'') parse_target ''OPENUPS_TARGET'' parse_target ''1.1.1.1'' (target c) \<and>
      resolved_field gs h (CHR ''i'') pos ''OPENUPS_INTERVAL'' pos 10 (interval_sec c) \<and>
      resolved_field gs h (CHR ''n'') pos ''OPENUPS_THRESHOLD'' pos 5 (fail_threshold c) \<and>
      resolved_field gs h (CHR ''w'') pos ''OPENUPS_TIMEOUT'' pos 2000 (timeout_ms c) \<and>
      resolved_field gs h (CHR ''D'') (\<lambda>a. parse_int_value a 0 INT_MAX) ''OPENUPS_DELAY_MINUTES''
        (\<lambda>a. parse_int_value a 0 INT_MAX) 0 (delay_minutes c) \<and>
      resolved_field gs h (CHR ''S'') shutdown_mode_parse_internal ''OPENUPS_SHUTDOWN_MODE''
        shutdown_mode_parse_internal SHUTDOWN_MODE_DRY_RUN (shutdown_mode c) \<and>
      resolved_field gs h (CHR ''L'') parse_log_level_value ''OPENUPS_LOG_LEVEL''
        parse_log_level_value LOG_LEVEL_INFO (log_level c) \<and>
      resolved_field gs h (CHR ''M'') (\<lambda>a. parse_bool_value a True) ''OPENUPS_SYSTEMD''
        (\<lambda>a. parse_bool_value a False) True (enable_systemd c)"
  using config_resolve_fields [OF assms] by (simp add: Let_def)

theorem configuration_priority_witness:
  "resolved_field [] sample_host (CHR ''i'') (\<lambda>a. parse_int_value a 1 INT_MAX) ''OPENUPS_INTERVAL''
     (\<lambda>a. parse_int_value a 1 INT_MAX) 10
     (case config_resolve [''openups''] sample_world of (Inr (c, _), _) \<Rightarrow> interval_sec c)"
proof -
  have "\<exists>c. config_resolve [''openups''] sample_world = (Inr (c, False), sample_world)"
    by (simp add: config_resolve_def config_load_from_cmdline_def Let_def config_load_from_env_def
        load_env_int_options_def load_env_bool_options_def load_env_int_def load_env_bool_def
        load_env_shutdown_mode_def load_env_log_level_def and_then_def sample_world_def
        getopt_long_def sample_host_def config_validate_def is_valid_ip_literal_def timeout_fits_interval_def
        config_default_fields config_consts ckd_mul_def OPENUPS_MS_PER_SEC_def word_less_nat_alt)
  then obtain c where c: "config_resolve [''openups''] sample_world = (Inr (c, False), sample_world)"
    by blast
  have "go_steps (getopt_long (host sample_world) CONFIG_OPTSTRING CONFIG_LONG_OPTIONS [''openups'']) = []"
    "host sample_world = sample_host"
    by (simp_all add: sample_world_def sample_host_def getopt_long_def)
  with configuration_priority [OF c] show ?thesis by (simp add: c Let_def)
qed

text \<open>
  C23: the integer parser accepts exactly the decimal strings (white space, an
  optional sign, digits, nothing after them) whose value is in the range, and returns that value;
  so it reads back every number of the range that \<open>printf\<close> wrote.
\<close>

theorem integer_options_exact:
  "(parse_int_value (Some s) 1 INT_MAX = Some v \<longleftrightarrow>
      (\<exists>neg n. c_decimal s neg n \<and> v = signed_val neg n) \<and> 1 \<le> v \<and> v \<le> INT_MAX) \<and>
   (parse_int_value (Some s) 0 INT_MAX = Some v \<longleftrightarrow>
      (\<exists>neg n. c_decimal s neg n \<and> v = signed_val neg n) \<and> 0 \<le> v \<and> v \<le> INT_MAX) \<and>
   (parse_int_value (Some (show_int u)) 0 INT_MAX = Some u \<longleftrightarrow> 0 \<le> u \<and> u \<le> INT_MAX)"
proof -
  have r: "LONG_MIN \<le> 1" "LONG_MIN \<le> 0" "INT_MAX \<le> LONG_MAX"
    by (simp_all add: LONG_MIN_def LONG_MAX_def INT_MAX_def)
  have "\<exists>neg n. c_decimal (show_int u) neg n \<and> u = signed_val neg n"
    by (rule exI [of _ "u < 0"], rule exI [of _ "nat \<bar>u\<bar>"])
      (simp add: c_decimal_show_int signed_val_def)
  then show ?thesis
    using parse_int_value_iff [OF r(1,3), of s v] parse_int_value_iff [OF r(2,3), of s v]
      parse_int_value_iff [OF r(2,3), of "show_int u" u] by blast
qed

text \<open>
  C24: every log level and every shutdown mode is read back from the text the
  program prints for it, in any case of letters; a keyword outside the tables is rejected.
\<close>

theorem keywords_roundtrip:
  "parse_log_level_value (Some (log_level_to_string l)) = Some l \<and>
   shutdown_mode_parse_internal (Some (shutdown_mode_to_string m)) = Some m \<and>
   parse_log_level_value (Some (map c_tolower s)) = parse_log_level_value (Some s) \<and>
   shutdown_mode_parse_internal (Some (map c_tolower s)) = shutdown_mode_parse_internal (Some s) \<and>
   (parse_log_level_value (Some s) \<noteq> None \<longleftrightarrow>
      map c_tolower s \<in> {''silent'', ''none'', ''error'', ''warn'', ''info'', ''debug''}) \<and>
   (shutdown_mode_parse_internal (Some s) \<noteq> None \<longleftrightarrow>
      map c_tolower s \<in> {''dry-run'', ''true-off'', ''log-only''})"
proof -
  have low: "map c_tolower (map c_tolower s) = map c_tolower s"
    by (simp add: c_tolower_idem)
  have "find_option CONFIG_LOG_LEVEL_OPTIONS s \<noteq> None \<longleftrightarrow>
      map c_tolower s \<in> (map c_tolower \<circ> fst) ` set CONFIG_LOG_LEVEL_OPTIONS"
    unfolding not_None_eq log_levels.parse_iff by force
  also have "(map c_tolower \<circ> fst) ` set CONFIG_LOG_LEVEL_OPTIONS =
      {''silent'', ''none'', ''error'', ''warn'', ''info'', ''debug''}"
    by (simp add: CONFIG_LOG_LEVEL_OPTIONS_def c_tolower_def)
  finally have L: "find_option CONFIG_LOG_LEVEL_OPTIONS s \<noteq> None \<longleftrightarrow>
      map c_tolower s \<in> {''silent'', ''none'', ''error'', ''warn'', ''info'', ''debug''}" .
  have "find_option CONFIG_SHUTDOWN_MODE_OPTIONS s \<noteq> None \<longleftrightarrow>
      map c_tolower s \<in> (map c_tolower \<circ> fst) ` set CONFIG_SHUTDOWN_MODE_OPTIONS"
    unfolding not_None_eq shutdown_modes.parse_iff by force
  also have "(map c_tolower \<circ> fst) ` set CONFIG_SHUTDOWN_MODE_OPTIONS =
      {''dry-run'', ''true-off'', ''log-only''}"
    by (simp add: CONFIG_SHUTDOWN_MODE_OPTIONS_def c_tolower_def)
  finally have M: "find_option CONFIG_SHUTDOWN_MODE_OPTIONS s \<noteq> None \<longleftrightarrow>
      map c_tolower s \<in> {''dry-run'', ''true-off'', ''log-only''}" .
  show ?thesis
    using L M log_levels.parse_print [of l] shutdown_modes.parse_print [of m]
      log_levels.parse_any_case [OF low] shutdown_modes.parse_any_case [OF low]
    by (simp only: parse_log_level_value_def shutdown_mode_parse_internal_def option.case simp_thms)
qed

section \<open>Validation\<close>

text \<open>The abstract specification of a valid configuration, over the integers.\<close>

definition valid_config :: "host \<Rightarrow> config_t \<Rightarrow> bool" where
  "valid_config h c \<longleftrightarrow>
     target c \<noteq> [] \<and> (inet_pton4 h (target c) \<noteq> None \<or> inet_pton6 h (target c) \<noteq> None) \<and>
     0 < interval_sec c \<and> 0 < fail_threshold c \<and> 0 < timeout_ms c \<and>
     timeout_ms c < 1000 * interval_sec c \<and> 0 \<le> delay_minutes c \<and> delay_minutes c \<le> 525600 \<and>
     (shutdown_mode c = SHUTDOWN_MODE_LOG_ONLY \<longrightarrow> delay_minutes c = 0)"

definition int_fields_fit :: "config_t \<Rightarrow> bool" where
  "int_fields_fit c \<longleftrightarrow>
     interval_sec c \<le> INT_MAX \<and> timeout_ms c \<le> INT_MAX \<and> fail_threshold c \<le> INT_MAX \<and>
     delay_minutes c \<le> INT_MAX"

lemma timeout_fits_interval_iff:
  assumes "int_fields_fit c"
  shows "timeout_fits_interval c \<longleftrightarrow>
    0 < interval_sec c \<and> 0 < timeout_ms c \<and> timeout_ms c < 1000 * interval_sec c"
proof (cases "interval_sec c \<le> 0 \<or> timeout_ms c \<le> 0")
  case True
  then show ?thesis by (auto simp: timeout_fits_interval_def)
next
  case False
  have i: "unat (word_of_int (interval_sec c) :: u64) = nat (interval_sec c)"
    and t: "unat (word_of_int (timeout_ms c) :: u64) = nat (timeout_ms c)"
    using False assms by (simp_all add: unat_of_int_u64_small int_fields_fit_def)
  have "interval_sec c \<le> 2147483647" using assms by (simp add: int_fields_fit_def INT_MAX_def)
  then have lt: "nat (interval_sec c) * 1000 < 2 ^ 64" by simp
  then obtain r where r: "ckd_mul (word_of_int (interval_sec c)) OPENUPS_MS_PER_SEC = Some r"
    by (simp add: ckd_mul_def i OPENUPS_MS_PER_SEC_def)
  then have "unat r = nat (interval_sec c) * 1000"
    by (simp add: ckd_mul_Some_iff i OPENUPS_MS_PER_SEC_def)
  then show ?thesis
    using False r t by (auto simp: timeout_fits_interval_def word_less_nat_alt)
qed

lemma config_validate_iff:
  assumes "int_fields_fit c"
  shows "config_validate h c = Inr () \<longleftrightarrow> valid_config h c"
  unfolding config_validate_def valid_config_def is_valid_ip_literal_def set_error_def
    timeout_fits_interval_iff [OF assms] OPENUPS_MAX_DELAY_MINUTES_def
  by auto

lemma resolved_int_le:
  "resolved_field gs h letter (\<lambda>a. parse_int_value a lo hi) name (\<lambda>a. parse_int_value a lo hi) d v \<Longrightarrow>
   d \<le> hi \<Longrightarrow> v \<le> hi"
  by (auto simp: resolved_field_def env_field_def parse_int_value_def split: option.splits prod.splits if_splits)

lemma config_resolve_bounds:
  assumes "config_resolve argv w = (Inr (c, ex), w')"
  shows "int_fields_fit c" and "length (target c) < 64"
proof -
  note f = config_resolve_fields [OF assms]
  show "int_fields_fit c"
    unfolding int_fields_fit_def
    by (intro conjI resolved_int_le [OF f(2)] resolved_int_le [OF f(3)] resolved_int_le [OF f(4)]
        resolved_int_le [OF f(5)])
      (simp_all add: INT_MAX_def)
  show "length (target c) < 64"
    using f(1) by (auto simp: resolved_field_def env_field_def parse_target_def split: option.splits if_splits)
qed

lemma config_resolve_valid:
  assumes "config_resolve argv w = (Inr (c, False), w')"
  shows "w' = w" and "valid_config (host w) c"
proof -
  from assms have "w' = w \<and> config_validate (host w) c = Inr ()"
    by (auto elim: config_resolve_cases)
  then show "w' = w" "valid_config (host w) c"
    using config_validate_iff [OF config_resolve_bounds(1) [OF assms]] by auto
qed

text \<open>Every error message fits the caller's buffer.\<close>

lemma set_error_Inl: "set_error t = Inl e \<Longrightarrow> length e < 256"
  using snprintf_buf_length [of ERROR_MSG_SIZE t] by (auto simp: set_error_def ERROR_MSG_SIZE_def)

lemma and_then_Inl_iff: "and_then r f = Inl e \<longleftrightarrow> r = Inl e \<or> (\<exists>x. r = Inr x \<and> f x = Inl e)"
  by (cases r) (auto simp: and_then_def)

lemma value_errors_fit:
  "copy_string_value n s name = Inl e \<Longrightarrow> length e < 256"
  "invalid_value name t hint = Inl e \<Longrightarrow> length e < 256"
  by (auto simp: copy_string_value_def invalid_value_def dest: set_error_Inl split: if_splits)

lemma load_env_errors_fit:
  "load_env_int h n l lo hi i = Inl e \<Longrightarrow> length e < 256"
  "load_env_bool h n l b = Inl e \<Longrightarrow> length e < 256"
  "load_env_shutdown_mode h n m = Inl e \<Longrightarrow> length e < 256"
  "load_env_log_level h n g = Inl e \<Longrightarrow> length e < 256"
  by (auto simp: load_env_int_def load_env_bool_def load_env_shutdown_mode_def load_env_log_level_def
      dest: value_errors_fit split: option.splits)

lemma config_load_from_env_error: "config_load_from_env h c = Inl e \<Longrightarrow> length e < 256"
  by (auto simp: config_load_from_env_def load_env_int_options_def load_env_bool_options_def
      and_then_Inl_iff dest: load_env_errors_fit value_errors_fit split: option.splits)

lemma parse_cmdline_errors_fit:
  "parse_cmdline_int_option n a lo hi = Inl e \<Longrightarrow> length e < 256"
  "parse_cmdline_bool_option n a b = Inl e \<Longrightarrow> length e < 256"
  "parse_cmdline_log_level_option n a = Inl e \<Longrightarrow> length e < 256"
  "parse_cmdline_shutdown_mode_option n a = Inl e \<Longrightarrow> length e < 256"
  by (auto simp: parse_cmdline_int_option_def parse_cmdline_bool_option_def
      parse_cmdline_log_level_option_def parse_cmdline_shutdown_mode_option_def
      dest: value_errors_fit split: option.splits)

lemma cmdline_option_error: "cmdline_option g s = Inl e \<Longrightarrow> length e < 256"
  by (cases s)
    (auto simp: cmdline_option_def and_then_Inl_iff split: if_splits option.splits
      dest: parse_cmdline_errors_fit value_errors_fit set_error_Inl)

lemma cmdline_loop_error: "cmdline_loop gs s = Inl e \<Longrightarrow> length e < 256"
  by (induction gs arbitrary: s) (auto simp: and_then_Inl_iff dest: cmdline_option_error)

lemma config_validate_error: "config_validate h c = Inl e \<Longrightarrow> length e < 256"
  by (auto simp: config_validate_def dest: set_error_Inl split: if_splits)

lemma config_load_from_cmdline_error:
  "config_load_from_cmdline c argv w = (Inl e, w') \<Longrightarrow> length e < 256 \<and> w' = w"
  by (auto simp: config_load_from_cmdline_def Let_def dest: cmdline_loop_error set_error_Inl
      split: sum.splits prod.splits if_splits)

lemma config_load_from_cmdline_ok:
  "config_load_from_cmdline c argv w = (Inr (c', ex), w') \<Longrightarrow>
   if ex then w' = config_print_version w \<or> w' = config_print_usage w else w' = w"
  by (auto simp: config_load_from_cmdline_def Let_def set_error_def
      split: sum.splits prod.splits if_splits exit_option.splits)

lemma config_resolve_error:
  "config_resolve argv w = (Inl e, w') \<Longrightarrow> length e < 256 \<and> w' = w"
  by (auto simp: config_resolve_def split: sum.splits prod.splits if_splits
      dest: config_load_from_env_error config_load_from_cmdline_error config_validate_error
        config_load_from_cmdline_ok)

lemma fold_emit_text:
  "trace (fold (\<lambda>l. emit (Stdout (l @ nl))) ls w) = trace w @ map (\<lambda>l. Stdout (l @ nl)) ls"
  by (induction ls arbitrary: w) (simp_all add: emit_def)

lemma config_print_version_trace:
  "trace (config_print_version w) =
     trace w @ [Stdout (''openups version 1.3.1'' @ nl), Stdout (''OpenUPS network monitor'' @ nl)]"
  by (simp add: config_print_version_def emit_def OPENUPS_PROGRAM_NAME_def OPENUPS_VERSION_def)

text \<open>
  C19: resolving the configuration has three outcomes. An error has a message
  that fits the caller's buffer, and nothing was printed. An exit request printed the version or
  the usage text and nothing else, and skips the validation. Otherwise nothing was printed and the
  configuration is valid: an IP literal below 64 characters as target, positive numbers, a timeout
  strictly shorter than the interval, a delay up to 525600 minutes and none in log-only mode.
\<close>

theorem configuration_outcomes:
  "case config_resolve argv w of
     (Inl e, w') \<Rightarrow> length e < ERROR_MSG_SIZE \<and> w' = w
   | (Inr (c, exit_requested), w') \<Rightarrow>
       if exit_requested then
         trace w' = trace w @ [Stdout (''openups version 1.3.1'' @ nl), Stdout (''OpenUPS network monitor'' @ nl)] \<or>
         trace w' = trace w @ map (\<lambda>l. Stdout (l @ nl)) usage_lines
       else w' = w \<and> valid_config (host w) c \<and> int_fields_fit c \<and> length (target c) < 64"
proof -
  obtain r w' where r: "config_resolve argv w = (r, w')" by fastforce
  show ?thesis
  proof (cases r)
    case (Inl e)
    then show ?thesis using r config_resolve_error by (simp add: ERROR_MSG_SIZE_def)
  next
    case (Inr y)
    then obtain c ex where y: "r = Inr (c, ex)" by (cases y) auto
    show ?thesis
    proof (cases ex)
      case True
      then have "w' = config_print_version w \<or> w' = config_print_usage w"
        using r y by (auto simp: config_resolve_def split: sum.splits prod.splits if_splits
            dest: config_load_from_cmdline_ok)
      then show ?thesis
        using r y True config_print_version_trace by (auto simp: config_print_usage_def fold_emit_text)
    next
      case False
      then show ?thesis
        using r y config_resolve_valid [of argv w c w'] config_resolve_bounds [of argv w c ex w'] by simp
    qed
  qed
qed

end
