(* ===== verification/Outage.thy ===== *)
theory Outage
  imports Types
begin

text \<open>
  What the monitor promises about outages, as an abstract machine without clocks, logs or
  sockets: it counts the probes lost since the last reply, may hold the time of a pending
  shutdown, and says when a shutdown is due. The handlers of \<open>src/src/monitor.c\<close> are proved to
  refine it.
\<close>

section \<open>The machine\<close>

text \<open>
  A reply with its latency, a probe found lost at a time, a look at the clock; times in
  milliseconds.
\<close>

datatype outage_event = is_reply: Reply double | Lost nat | is_tick: Tick nat

text \<open>The consecutive failures and the time of the pending shutdown.\<close>

type_synonym outage = "nat \<times> nat option"

text \<open>The delay before the shutdown; a deadline must fit below the largest 64-bit number.\<close>

definition delay_of :: "config_t \<Rightarrow> nat" where
  "delay_of cfg = nat (delay_minutes cfg) * 60000"

definition outage_limit :: nat where
  "outage_limit = 2 ^ 64 - 1"

fun outage_step :: "config_t \<Rightarrow> outage_event \<Rightarrow> outage \<Rightarrow> outage \<times> bool" where
  "outage_step cfg (Reply l) (n, due) = ((0, None), False)"
| "outage_step cfg (Lost t) (n, due) =
     (if int (n + 1) < fail_threshold cfg then ((n + 1, due), False)
      else if shutdown_mode cfg = SHUTDOWN_MODE_LOG_ONLY then ((0, due), False)
      else if delay_minutes cfg \<le> 0 then ((n + 1, due), True)
      else if due \<noteq> None then ((n + 1, due), False)
      else if t + delay_of cfg < outage_limit then ((n + 1, Some (t + delay_of cfg)), False)
      else ((0, None), False))"
| "outage_step cfg (Tick t) (n, due) =
     (case due of
        None \<Rightarrow> ((n, due), False)
      | Some d \<Rightarrow> if d \<le> t then ((n, None), True) else ((n, due), False))"

text \<open>The state after a sequence of events, and how many of them made a shutdown due.\<close>

fun outage_run :: "config_t \<Rightarrow> outage_event list \<Rightarrow> outage \<Rightarrow> outage \<times> nat" where
  "outage_run cfg [] st = (st, 0)"
| "outage_run cfg (e # es) st =
     (let (st1, shut) = outage_step cfg e st; (st2, k) = outage_run cfg es st1
      in (st2, of_bool shut + k))"

lemma outage_run_append:
  "outage_run cfg (es @ fs) st =
     (let (st1, j) = outage_run cfg es st; (st2, k) = outage_run cfg fs st1 in (st2, j + k))"
  by (induction es arbitrary: st) (simp_all add: Let_def split: prod.split)

lemma outage_run_snoc:
  "outage_run cfg (es @ [e]) st =
     (let (st1, j) = outage_run cfg es st; (st2, shut) = outage_step cfg e st1
      in (st2, j + of_bool shut))"
  by (simp add: outage_run_append Let_def split: prod.split)

text \<open>The times at which something was found out.\<close>

definition event_times :: "outage_event list \<Rightarrow> nat set" where
  "event_times es = (\<Union>e\<in>set es. case e of Reply l \<Rightarrow> {} | Lost t \<Rightarrow> {t} | Tick t \<Rightarrow> {t})"

lemma event_times_simps [simp]:
  "event_times [] = {}" "event_times (es @ fs) = event_times es \<union> event_times fs"
  "event_times (Reply l # es) = event_times es"
  "event_times (Lost t # es) = insert t (event_times es)"
  "event_times (Tick t # es) = insert t (event_times es)"
  by (auto simp: event_times_def)

section \<open>A shutdown needs an outage\<close>

text \<open>The times at which probes were found lost since the last reply.\<close>

fun losses :: "outage_event list \<Rightarrow> nat list" where
  "losses [] = []"
| "losses (e # es) = (if list_ex is_reply es then losses es
     else case e of Lost t \<Rightarrow> t # losses es | _ \<Rightarrow> losses es)"

lemma losses_snoc:
  "losses (es @ [e]) = (case e of Reply l \<Rightarrow> [] | Lost t \<Rightarrow> losses es @ [t] | Tick t \<Rightarrow> losses es)"
  by (induction es) (auto split: outage_event.splits)

text \<open>What the state remembers of the events since the last reply.\<close>

definition outage_ok :: "config_t \<Rightarrow> outage_event list \<Rightarrow> outage \<Rightarrow> bool" where
  "outage_ok cfg es st \<longleftrightarrow>
     fst st \<le> length (losses es) \<and>
     (case snd st of None \<Rightarrow> True
      | Some d \<Rightarrow> fail_threshold cfg \<le> int (fst st) \<and> 0 < delay_minutes cfg \<and>
          shutdown_mode cfg \<noteq> SHUTDOWN_MODE_LOG_ONLY \<and>
          (\<exists>t0\<in>set (losses es). d = t0 + delay_of cfg))"

lemma outage_ok_step:
  assumes "outage_ok cfg es st" and "outage_step cfg e st = (st', shut)"
  shows "outage_ok cfg (es @ [e]) st'"
proof (cases e)
  case (Lost t)
  then show ?thesis
    using assms by (cases st) (auto simp: outage_ok_def losses_snoc split: option.splits if_splits)
qed (use assms in \<open>cases st; auto simp: outage_ok_def losses_snoc split: option.splits if_splits\<close>)+

lemma outage_ok_run: "outage_ok cfg es (fst (outage_run cfg es (0, None)))"
proof (induction es rule: rev_induct)
  case Nil
  then show ?case by (simp add: outage_ok_def)
next
  case (snoc e es)
  obtain st j where r: "outage_run cfg es (0, None) = (st, j)" by fastforce
  obtain st' shut where s: "outage_step cfg e st = (st', shut)" by fastforce
  from outage_ok_step [OF _ s, of es] snoc r s show ?case by (simp add: outage_run_snoc)
qed

text \<open>
  A shutdown due at an event: enough probes were lost since the last reply, never in log-only
  mode, and with a delay only when the delay has passed since one of these losses.
\<close>

definition shutdown_justified :: "config_t \<Rightarrow> outage_event list \<Rightarrow> bool" where
  "shutdown_justified cfg es \<longleftrightarrow>
     fail_threshold cfg \<le> int (length (losses es)) \<and> shutdown_mode cfg \<noteq> SHUTDOWN_MODE_LOG_ONLY \<and>
     (0 < delay_minutes cfg \<longrightarrow>
        (\<exists>t t0. last es = Tick t \<and> t0 \<in> set (losses es) \<and> t0 + delay_of cfg \<le> t))"

lemma outage_step_justified:
  assumes "outage_ok cfg es st" and "outage_step cfg e st = (st', True)"
  shows "shutdown_justified cfg (es @ [e])"
proof (cases e)
  case (Lost t)
  then show ?thesis
    using assms
    by (cases st) (auto simp: outage_ok_def shutdown_justified_def losses_snoc split: option.splits if_splits)
next
  case (Tick t)
  then show ?thesis
    using assms
    by (cases st) (auto simp: outage_ok_def shutdown_justified_def losses_snoc split: option.splits if_splits)
next
  case (Reply l)
  then show ?thesis using assms by (cases st) simp
qed

text \<open>The positions of a sequence at which a shutdown is justified.\<close>

definition justified_instants :: "config_t \<Rightarrow> outage_event list \<Rightarrow> nat list" where
  "justified_instants cfg es = filter (\<lambda>i. shutdown_justified cfg (take (Suc i) es)) [0..<length es]"

lemma justified_instants_snoc:
  "justified_instants cfg (es @ [e]) =
     justified_instants cfg es @ (if shutdown_justified cfg (es @ [e]) then [length es] else [])"
proof -
  have "filter (\<lambda>i. shutdown_justified cfg (take (Suc i) (es @ [e]))) [0..<length es] =
      filter (\<lambda>i. shutdown_justified cfg (take (Suc i) es)) [0..<length es]"
    by (rule filter_cong) auto
  then show ?thesis by (simp add: justified_instants_def del: take_append)
qed

lemma outage_run_justified:
  assumes "outage_run cfg es (0, None) = (st, k)"
  shows "k \<le> length (justified_instants cfg es)"
  using assms
proof (induction es arbitrary: st k rule: rev_induct)
  case (snoc e es)
  obtain st1 j where r: "outage_run cfg es (0, None) = (st1, j)" by fastforce
  obtain st2 shut where s: "outage_step cfg e st1 = (st2, shut)" by fastforce
  have "outage_ok cfg es st1" using outage_ok_run [of cfg es] r by simp
  with outage_step_justified s have "shut \<Longrightarrow> shutdown_justified cfg (es @ [e])" by (cases shut) auto
  moreover have "k = j + of_bool shut" using snoc.prems r s by (simp add: outage_run_snoc)
  ultimately show ?case using snoc.IH [OF r] by (auto simp: justified_instants_snoc)
qed simp

end
