(* ===== verification/Notify.thy ===== *)
theory Notify
  imports Samples
begin

text \<open>
  \<open>src/src/systemd.c\<close>: the notifier that speaks the systemd notification protocol over a
  datagram socket. A function that may repeat an interrupted call returns \<open>None\<close> for a call
  that never returns, otherwise its result and the world.
\<close>

section \<open>Environment values\<close>

definition OPENUPS_NOTIFY_RETRY_COUNT :: nat where "OPENUPS_NOTIFY_RETRY_COUNT = 3"
definition OPENUPS_NOTIFY_RETRY_NS :: int where "OPENUPS_NOTIFY_RETRY_NS = 10000000"

definition parse_uint64_value :: "string \<Rightarrow> u64 option" where
  "parse_uint64_value s =
     (let (parsed, rest, erange) = strtoull s
      in if erange \<or> rest = s \<or> rest \<noteq> [] then None else Some parsed)"

text \<open>\<open>(pid_t)parsed_pid == getpid()\<close> compares the low 32 bits.\<close>

definition watchdog_pid_matches_current_process :: "world \<Rightarrow> bool" where
  "watchdog_pid_matches_current_process w =
     (case getenv (host w) ''WATCHDOG_PID'' of
        None \<Rightarrow> True
      | Some s \<Rightarrow>
          if s = [] then True
          else let (parsed_pid, rest, erange) = strtol s
               in if erange \<or> rest = s \<or> rest \<noteq> [] \<or> parsed_pid \<le> 0 then False
                  else signed_take_bit 31 parsed_pid = getpid (host w))"

section \<open>The socket address\<close>

definition SUN_PATH_SIZE :: nat where "SUN_PATH_SIZE = 108"
definition SUN_PATH_OFFSET :: nat where "SUN_PATH_OFFSET = 2"

abbreviation NUL :: char where "NUL \<equiv> CHR 0x00"

definition sun_path_of :: "string \<Rightarrow> string" where
  "sun_path_of bytes = bytes @ replicate (SUN_PATH_SIZE - length bytes) NUL"

text \<open>The address and its length; a leading \<open>@\<close> asks for an abstract address.\<close>

definition build_systemd_addr :: "string \<Rightarrow> (sockaddr_un \<times> nat) option" where
  "build_systemd_addr socket_path =
     (if take 1 socket_path = ''@'' then
        let name = drop 1 socket_path; name_len = length name
        in if name_len = 0 \<or> SUN_PATH_SIZE - 1 < name_len then None
           else Some (\<lparr>sun_family = AF_UNIX, sun_path = sun_path_of (NUL # name)\<rparr>,
                      SUN_PATH_OFFSET + 1 + name_len)
      else
        let path_len = length socket_path
        in if path_len = 0 \<or> SUN_PATH_SIZE \<le> path_len then None
           else Some (\<lparr>sun_family = AF_UNIX, sun_path = sun_path_of socket_path\<rparr>,
                      SUN_PATH_OFFSET + path_len + 1))"

section \<open>Sending\<close>

text \<open>The loop over the attempts; a transient error sleeps before the next one.\<close>

fun send_attempts :: "nat \<Rightarrow> int \<Rightarrow> string \<Rightarrow> world \<Rightarrow> (bool \<times> world) option" where
  "send_attempts 0 fd message w = Some (False, w)"
| "send_attempts (Suc n) fd message w =
     (case sys_send fd message w of
        (Inr sent, w1) \<Rightarrow> Some (True, w1)
      | (Inl errno, w1) \<Rightarrow>
          if errno = EINTR then send_attempts n fd message w1
          else if errno = EAGAIN \<or> errno = EWOULDBLOCK \<or> errno = ENOBUFS then
            do { (r, w2) \<leftarrow> nanosleep_retry OPENUPS_NOTIFY_RETRY_NS w1;
                 send_attempts n fd message w2 }
          else Some (False, w1))"

definition send_notify :: "systemd_notifier_t \<Rightarrow> string \<Rightarrow> world \<Rightarrow> (bool \<times> world) option" where
  "send_notify notifier message w =
     (if \<not> sn_enabled notifier then Some (False, w)
      else send_attempts OPENUPS_NOTIFY_RETRY_COUNT (sn_sockfd notifier) message w)"

section \<open>The notifier\<close>

definition systemd_notifier_off :: systemd_notifier_t where
  "systemd_notifier_off = \<lparr>sn_enabled = False, sn_sockfd = - 1, watchdog_usec = 0,
     last_status_ms = 0, last_status = ''''\<rparr>"

definition systemd_notifier_init :: "world \<Rightarrow> (systemd_notifier_t \<times> world) option" where
  "systemd_notifier_init w =
     (case getenv (host w) ''NOTIFY_SOCKET'' of
        None \<Rightarrow> Some (systemd_notifier_off, w)
      | Some socket_path \<Rightarrow>
          (case sys_socket AF_UNIX (SOCK_DGRAM OR SOCK_CLOEXEC) 0 w of
             (Inl e, w1) \<Rightarrow> Some (systemd_notifier_off, w1)
           | (Inr fd, w1) \<Rightarrow>
               (case build_systemd_addr socket_path of
                  None \<Rightarrow> Some (systemd_notifier_off, sys_close fd w1)
                | Some addr \<Rightarrow>
                    do { (rc, w2) \<leftarrow> connect_retry (fd, addr) w1;
                         if rc \<noteq> None then Some (systemd_notifier_off, sys_close fd w2)
                         else
                           let usec =
                             (case getenv (host w2) ''WATCHDOG_USEC'' of
                                None \<Rightarrow> 0
                              | Some s \<Rightarrow>
                                  if watchdog_pid_matches_current_process w2
                                  then (case parse_uint64_value s of None \<Rightarrow> 0 | Some u \<Rightarrow> u)
                                  else 0)
                           in Some (systemd_notifier_off
                                      \<lparr>sn_enabled := True, sn_sockfd := fd, watchdog_usec := usec\<rparr>,
                                    w2) })))"

definition systemd_notifier_destroy ::
    "systemd_notifier_t \<Rightarrow> world \<Rightarrow> systemd_notifier_t \<times> world" where
  "systemd_notifier_destroy notifier w =
     (if 0 \<le> sn_sockfd notifier
      then (notifier\<lparr>sn_sockfd := - 1, sn_enabled := False\<rparr>, sys_close (sn_sockfd notifier) w)
      else (notifier\<lparr>sn_enabled := False\<rparr>, w))"

definition systemd_notifier_is_enabled :: "systemd_notifier_t \<Rightarrow> bool" where
  "systemd_notifier_is_enabled notifier = sn_enabled notifier"

definition systemd_notifier_ready :: "systemd_notifier_t \<Rightarrow> world \<Rightarrow> (bool \<times> world) option" where
  "systemd_notifier_ready notifier w = send_notify notifier ''READY=1'' w"

definition status_message :: "string \<Rightarrow> string" where
  "status_message status =
     snprintf_buf OPENUPS_SYSTEMD_MESSAGE_SIZE
       (''STATUS='' @ take (OPENUPS_SYSTEMD_STATUS_SIZE - 1) status)"

definition systemd_notifier_status ::
    "systemd_notifier_t \<Rightarrow> string \<Rightarrow> world \<Rightarrow> (bool \<times> systemd_notifier_t \<times> world) option" where
  "systemd_notifier_status notifier status w =
     (if \<not> sn_enabled notifier then Some (False, notifier, w)
      else
        let (now_ms, w1) = get_monotonic_ms w
        in if last_status notifier = status \<and> last_status_ms notifier \<noteq> 0 \<and>
              now_ms \<noteq> UINT64_MAX \<and>
              now_ms - last_status_ms notifier < OPENUPS_STATUS_DEDUP_WINDOW_MS
           then Some (True, notifier, w1)
           else do { (ok, w2) \<leftarrow> send_notify notifier (status_message status) w1;
                     Some (ok,
                       if ok then notifier
                         \<lparr>last_status := snprintf_buf OPENUPS_SYSTEMD_STATUS_SIZE status,
                          last_status_ms := (if now_ms = UINT64_MAX then 0 else now_ms)\<rparr>
                       else notifier, w2) })"

definition systemd_notifier_stopping :: "systemd_notifier_t \<Rightarrow> world \<Rightarrow> (bool \<times> world) option" where
  "systemd_notifier_stopping notifier w = send_notify notifier ''STOPPING=1'' w"

definition systemd_notifier_watchdog :: "systemd_notifier_t \<Rightarrow> world \<Rightarrow> (bool \<times> world) option" where
  "systemd_notifier_watchdog notifier w =
     (if \<not> sn_enabled notifier \<or> watchdog_usec notifier = 0 then Some (False, w)
      else send_notify notifier ''WATCHDOG=1'' w)"

definition systemd_notifier_watchdog_interval_ms :: "systemd_notifier_t \<Rightarrow> u64" where
  "systemd_notifier_watchdog_interval_ms notifier =
     (if \<not> sn_enabled notifier \<or> watchdog_usec notifier = 0 then 0
      else let interval_ms = watchdog_usec notifier div (OPENUPS_MS_PER_SEC * 2)
           in if interval_ms = 0 then 1 else interval_ms)"

section \<open>What sending does\<close>

lemma send_attempts_later [frame]:
  "send_attempts n fd m w = Some (ok, w') \<Longrightarrow> later K w0 w \<Longrightarrow> {Cls_notify, Cls_wait} \<subseteq> K \<Longrightarrow>
   later K w0 w'"
proof (induction n arbitrary: w)
  case (Suc n)
  obtain r w1 where s: "sys_send fd m w = (r, w1)" by fastforce
  with Suc.prems have l1: "later K w0 w1" by (auto intro: sys_send_later)
  have l2: "nanosleep_retry ns w1 = Some (x, w2) \<Longrightarrow> later K w0 w2" for ns x w2
    using l1 Suc.prems(3) by (auto intro: nanosleep_retry_later)
  show ?case
    using Suc.prems s l1 l2 Suc.IH
    by (auto split: sum.splits if_splits bind_splits)
qed simp

lemma send_attempts_fair [fairness]:
  "send_attempts n fd m w = Some (ok, w') \<Longrightarrow> fair w \<Longrightarrow> fair w'"
  by (rule fair_later [where K = UNIV], assumption, erule frame, rule later_refl, simp)

lemma send_attempts_total [total]: "fair w \<Longrightarrow> returns (send_attempts n fd m w)"
  by (induction n arbitrary: w)
    (auto simp: total split: sum.splits prod.splits dest: fairness)

text \<open>
  What \<open>n\<close> attempts mean for the peer: the answers of \<open>send\<close> are read until one is a success
  or a final error, at most \<open>n\<close> of them, and the message is handed over once for each.
\<close>

definition transient :: "int + nat \<Rightarrow> bool" where
  "transient r = (case r of Inl e \<Rightarrow> e \<in> {EINTR, EAGAIN, EWOULDBLOCK, ENOBUFS} | Inr _ \<Rightarrow> False)"

fun attempts_spec :: "nat \<Rightarrow> (int + nat) stream \<Rightarrow> bool \<times> nat" where
  "attempts_spec 0 s = (False, 0)"
| "attempts_spec (Suc n) s =
     (if transient (shd s) then (let (ok, k) = attempts_spec n (stl s) in (ok, Suc k))
      else (\<not> isl (shd s), 1))"

lemma attempts_spec_le: "snd (attempts_spec n s) \<le> n"
proof (induction n arbitrary: s)
  case (Suc n)
  from Suc.IH [of "stl s"] show ?case by (auto split: prod.splits)
qed simp

lemma send_attempts_spec:
  assumes "send_attempts n fd m w = Some (ok, w')"
  shows "ok = fst (attempts_spec n (send_in w)) \<and>
     events Cls_notify w' =
       events Cls_notify w @ replicate (snd (attempts_spec n (send_in w))) (Notify_sent fd m)"
  using assms
proof (induction n arbitrary: w)
  case (Suc n)
  define w1 where "w1 = snd (sys_send fd m w)"
  have s: "sys_send fd m w = (shd (send_in w), w1)"
    and in1: "send_in w1 = stl (send_in w)"
    and ev1: "events Cls_notify w1 = events Cls_notify w @ [Notify_sent fd m]"
    by (simp_all add: w1_def sys_send_def emit_def events_def)
  have sleep: "send_in w2 = send_in w1 \<and> events Cls_notify w2 = events Cls_notify w1"
    if slept: "nanosleep_retry ns w1 = Some (r, w2)" for ns r w2
  proof -
    obtain s t where "w2 = w1\<lparr>nanosleep_in := s, trace := t\<rparr>"
      by (rule nanosleep_retry_world [OF slept])
    moreover have "events Cls_notify w2 = events Cls_notify w1"
      by (rule later_events [OF nanosleep_loop.loop_sound(2) [OF slept]]) simp
    ultimately show ?thesis by simp
  qed
  show ?case
  proof (cases "transient (shd (send_in w))")
    case True
    then obtain w2 where w2: "send_attempts n fd m w2 = Some (ok, w')" and "send_in w2 = send_in w1"
      and "events Cls_notify w2 = events Cls_notify w1"
      using Suc.prems s sleep
      by (auto simp: transient_def split: sum.splits if_splits bind_splits)
    with Suc.IH [OF w2] True in1 ev1 show ?thesis by (auto split: prod.splits)
  next
    case False
    then show ?thesis using Suc.prems s ev1
      by (auto simp: transient_def split: sum.splits if_splits bind_splits)
  qed
qed simp


section \<open>Frame conditions of the operations\<close>

lemma send_notify_later [frame]:
  "send_notify n m w = Some (ok, w') \<Longrightarrow> later K w0 w \<Longrightarrow> {Cls_notify, Cls_wait} \<subseteq> K \<Longrightarrow>
   later K w0 w'"
  by (auto simp: send_notify_def intro: frame split: if_splits)

lemma systemd_notifier_send_later [frame]:
  assumes "later K w0 w" and "{Cls_notify, Cls_wait} \<subseteq> K"
  shows "systemd_notifier_ready n w = Some (ok, w') \<Longrightarrow> later K w0 w'"
    and "systemd_notifier_stopping n w = Some (ok, w') \<Longrightarrow> later K w0 w'"
    and "systemd_notifier_watchdog n w = Some (ok, w') \<Longrightarrow> later K w0 w'"
  using assms send_notify_later
  by (auto simp: systemd_notifier_ready_def systemd_notifier_stopping_def
      systemd_notifier_watchdog_def split: if_splits)

lemma systemd_notifier_status_later [frame]:
  "systemd_notifier_status n s w = Some (ok, n', w') \<Longrightarrow> later K w0 w \<Longrightarrow>
   {Cls_notify, Cls_wait} \<subseteq> K \<Longrightarrow> later K w0 w'"
  by (auto simp: systemd_notifier_status_def Let_def split: if_splits prod.splits bind_splits
      dest!: get_monotonic_ms_later [of _ _ _ K w0] intro: send_notify_later)

lemma systemd_notifier_init_later [frame]:
  "systemd_notifier_init w = Some (n, w') \<Longrightarrow> later K w0 w \<Longrightarrow> {Cls_fd, Cls_socket} \<subseteq> K \<Longrightarrow>
   later K w0 w'"
  by (auto simp: systemd_notifier_init_def Let_def
      split: option.splits prod.splits sum.splits bind_splits if_splits
      intro!: sys_close_later
      dest!: sys_socket_later [of _ _ _ _ _ _ K w0] connect_retry_later [of _ _ _ _ K w0])

lemma systemd_notifier_destroy_later [frame]:
  "systemd_notifier_destroy n w = (n', w') \<Longrightarrow> later K w0 w \<Longrightarrow> Cls_fd \<in> K \<Longrightarrow> later K w0 w'"
  by (auto simp: systemd_notifier_destroy_def intro: frame split: if_splits)

lemma notify_fair [fairness]:
  "send_notify n m w = Some (ok, w') \<Longrightarrow> fair w \<Longrightarrow> fair w'"
  "systemd_notifier_status n s w = Some (ok, n', w') \<Longrightarrow> fair w \<Longrightarrow> fair w'"
  "systemd_notifier_init w = Some (n', w') \<Longrightarrow> fair w \<Longrightarrow> fair w'"
  by (rule fair_later [where K = UNIV], assumption, erule frame, rule later_refl, simp)+

lemma send_notify_total [total]: "fair w \<Longrightarrow> returns (send_notify n m w)"
  by (simp add: send_notify_def total)

lemma systemd_notifier_total [total]:
  assumes "fair w"
  shows "returns (systemd_notifier_ready n w)" and "returns (systemd_notifier_stopping n w)"
    and "returns (systemd_notifier_watchdog n w)" and "returns (systemd_notifier_status n s w)"
    and "returns (systemd_notifier_init w)"
  using assms
  by (auto simp: systemd_notifier_ready_def systemd_notifier_stopping_def
      systemd_notifier_watchdog_def systemd_notifier_status_def systemd_notifier_init_def
      Let_def total dest: fairness split: prod.splits option.splits sum.splits)

lemma systemd_notifier_status_keeps:
  "systemd_notifier_status n s w = Some (ok, n', w') \<Longrightarrow>
   sn_enabled n' = sn_enabled n \<and> sn_sockfd n' = sn_sockfd n \<and> watchdog_usec n' = watchdog_usec n"
  by (auto simp: systemd_notifier_status_def Let_def split: if_splits prod.splits bind_splits)

section \<open>What the notifier guarantees\<close>

lemma status_message_exact: "status_message s = ''STATUS='' @ take 239 s"
  by (simp add: status_message_def snprintf_buf_def openups_consts)

definition status_deduplicated :: "systemd_notifier_t \<Rightarrow> string \<Rightarrow> u64 \<Rightarrow> bool" where
  "status_deduplicated n s now_ms \<longleftrightarrow>
     last_status n = s \<and> last_status_ms n \<noteq> 0 \<and> now_ms \<noteq> UINT64_MAX \<and>
     now_ms - last_status_ms n < 2000"

lemma events_get_monotonic_ms:
  "get_monotonic_ms w = (t, w') \<Longrightarrow> events c w' = events c w"
  using get_monotonic_ms_later [of w t w' "{}" w] by (auto intro: later_events)



text \<open>
  The descriptors: initialisation holds one more descriptor exactly when the notifier is
  enabled, and destroying the notifier gives it back.
\<close>

lemma held_connect_retry: "connect_retry t w = Some (r, w') \<Longrightarrow> held fd w' = held fd w"
  using connect_loop.loop_sound(2) [of t w r w'] by (auto intro: held_later)

lemma systemd_notifier_init_held:
  assumes "systemd_notifier_init w = Some (n, w')"
  shows "held fd w' = held fd w + (if sn_enabled n \<and> sn_sockfd n = fd then 1 else 0) \<and>
     (if sn_enabled n then 0 \<le> sn_sockfd n else sn_sockfd n = - 1)"
  using assms
  by (auto simp: systemd_notifier_init_def systemd_notifier_off_def Let_def
      split: option.splits prod.splits sum.splits bind_splits if_split_asm split del: if_split
      dest!: held_sys_open(1) [where fd = fd] held_sys_open(3) [where fd = fd]
        held_connect_retry [where fd = fd])

definition notifier_wf :: "systemd_notifier_t \<Rightarrow> bool" where
  "notifier_wf n \<longleftrightarrow> (if sn_enabled n then 0 \<le> sn_sockfd n else sn_sockfd n = - 1)"

lemma systemd_notifier_destroy_held:
  assumes "notifier_wf n" and "systemd_notifier_destroy n w = (n', w')"
  shows "held fd w' = held fd w - (if sn_enabled n \<and> sn_sockfd n = fd then 1 else 0) \<and>
    notifier_wf n' \<and> \<not> sn_enabled n'"
  using assms by (auto simp: systemd_notifier_destroy_def notifier_wf_def split: if_splits)

text \<open>
  The watchdog interval is 0 exactly when the notifier is disabled
  or the service manager asked for no watchdog, and otherwise half the requested period in
  milliseconds, rounded down, but at least 1.
\<close>

theorem watchdog_interval_is_half:
  "unat (systemd_notifier_watchdog_interval_ms n) =
     (if sn_enabled n \<and> 0 < watchdog_usec n then max 1 (unat (watchdog_usec n) div 2000) else 0)"
proof -
  have "unat (watchdog_usec n div 2000) = unat (watchdog_usec n) div 2000"
    by (simp add: unat_div)
  then show ?thesis
    by (auto simp: systemd_notifier_watchdog_interval_ms_def openups_consts Let_def word_gt_0
        unat_eq_zero max_def Suc_le_eq unat_gt_0)
qed

text \<open>
  C39: an address that is built lies in the 110 bytes of the structure
  and its length makes the kernel read back the requested name, an abstract one without its
  \<open>@\<close> behind a zero byte, a path with the zero byte that ends it.
\<close>

theorem systemd_address_roundtrip:
  "build_systemd_addr s = Some (a, len) \<longleftrightarrow>
     sun_family a = AF_UNIX \<and> length (sun_path a) = 108 \<and> 4 \<le> len \<and> len \<le> 110 \<and>
     take (len - 2) (sun_path a) = (if take 1 s = ''@'' then NUL # drop 1 s else s @ [NUL]) \<and>
     set (drop (len - 2) (sun_path a)) \<subseteq> {NUL} \<and>
     len = length s + (if take 1 s = ''@'' then 2 else 3)"
  (is "_ \<longleftrightarrow> ?R")
proof
  assume "build_systemd_addr s = Some (a, len)"
  then show ?R
    by (cases s) (auto simp: build_systemd_addr_def Let_def sun_path_of_def SUN_PATH_SIZE_def
        SUN_PATH_OFFSET_def take_Cons' Suc_le_eq split: if_splits)
next
  assume R: ?R
  then have "replicate (length (drop (len - 2) (sun_path a))) NUL = drop (len - 2) (sun_path a)"
    by (intro replicate_length_same) auto
  moreover have "length (drop (len - 2) (sun_path a)) = 110 - len" using R by auto
  ultimately have rest: "replicate (110 - len) NUL = drop (len - 2) (sun_path a)" by simp
  have start: "take (len - 2) (sun_path a) =
      (if take 1 s = ''@'' then NUL # drop 1 s else s @ [NUL])" using R by blast
  have path: "sun_path a = (if take 1 s = ''@'' then NUL # drop 1 s else s @ [NUL]) @
      replicate (110 - len) NUL"
    unfolding rest start [symmetric] by (rule append_take_drop_id [symmetric])
  show "build_systemd_addr s = Some (a, len)"
  proof (cases "take 1 s = ''@''")
    case True
    with R path show ?thesis
      by (cases s) (auto simp: build_systemd_addr_def Let_def sun_path_of_def SUN_PATH_SIZE_def
          SUN_PATH_OFFSET_def intro!: sockaddr_un.equality)
  next
    case False
    with R have "108 - length s = Suc (110 - len)" by auto
    with R path False show ?thesis
      by (auto simp: build_systemd_addr_def Let_def sun_path_of_def SUN_PATH_SIZE_def
          SUN_PATH_OFFSET_def intro!: sockaddr_un.equality)
  qed
qed

section \<open>Two inputs that the conversions let through\<close>

text \<open>
  \<open>strtoull\<close> accepts a minus sign, so a negative watchdog period becomes an enormous one; and the
  cast of \<open>WATCHDOG_PID\<close> to \<open>pid_t\<close> drops the high bits, so a number that is no process id at
  all can pass for this process (2 to the 32 plus 4242, in a process with id 4242).
\<close>

lemma watchdog_period_accepts_negative: "parse_uint64_value ''-1'' = Some UINT64_MAX"
  by (simp add: parse_uint64_value_def strtoull_def c_isdigit_def c_isspace_def digits_val_def
      digit_val_def UINT64_MAX_def)

lemma watchdog_pid_is_truncated:
  "watchdog_pid_matches_current_process
     (sample_world\<lparr>host := sample_host
        \<lparr>getenv := (\<lambda>n. if n = ''WATCHDOG_PID'' then Some ''4294971538'' else None)\<rparr>\<rparr>) \<and>
   getpid sample_host \<noteq> 4294971538"
  by (simp add: watchdog_pid_matches_current_process_def sample_host_def strtol_def c_isdigit_def
      c_isspace_def digits_val_def digit_val_def LONG_MAX_def LONG_MIN_def signed_take_bit_def)

end
