(* ===== verification/Services.thy ===== *)
theory Services
  imports Notify
begin

text \<open>
  The service table of \<open>src/src/openups.h\<close> (\<open>runtime_services_*\<close>): calls through the function
  pointers of \<open>runtime_services_t\<close>, which lead to the no-op functions or to the notifier of
  \<open>systemd.c\<close>. A call gets the table and the notifier its \<open>backend_ctx\<close> points to, and returns
  the notifier with its answer. The operations the monitor calls share one contract, the locale
  \<open>service_op\<close>.
\<close>

section \<open>The functions behind the pointers\<close>

definition runtime_services_noop_ready :: bool where "runtime_services_noop_ready = True"
definition runtime_services_noop_status :: "string \<Rightarrow> bool" where
  "runtime_services_noop_status status = True"
definition runtime_services_noop_stopping :: bool where "runtime_services_noop_stopping = True"
definition runtime_services_noop_watchdog :: bool where "runtime_services_noop_watchdog = True"
definition runtime_services_noop_watchdog_interval_ms :: u64 where
  "runtime_services_noop_watchdog_interval_ms = 0"
definition runtime_services_noop_destroy :: "systemd_notifier_t \<times> world \<Rightarrow> systemd_notifier_t \<times> world"
  where "runtime_services_noop_destroy x = x"

lemmas noop_defs = runtime_services_noop_ready_def runtime_services_noop_status_def
  runtime_services_noop_stopping_def runtime_services_noop_watchdog_def
  runtime_services_noop_watchdog_interval_ms_def runtime_services_noop_destroy_def

text \<open>
  An indirect call of a function that answers a flag: the no-op, or the notifier's function on
  what \<open>backend_ctx\<close> points to; on \<open>NULL\<close> the notifier's functions return false.
\<close>

definition call_flag ::
    "service_fn \<Rightarrow> bool \<Rightarrow> (systemd_notifier_t \<Rightarrow> world \<Rightarrow> (bool \<times> world) option) \<Rightarrow>
     backend_ptr \<Rightarrow> systemd_notifier_t \<Rightarrow> world \<Rightarrow> (bool \<times> systemd_notifier_t \<times> world) option" where
  "call_flag fn noop impl backend sd w =
     (case fn of
        FN_NOOP \<Rightarrow> Some (noop, sd, w)
      | FN_SYSTEMD \<Rightarrow>
          (case backend of
             BACKEND_NULL \<Rightarrow> Some (False, sd, w)
           | BACKEND_SYSTEMD \<Rightarrow> do { (ok, w1) \<leftarrow> impl sd w; Some (ok, sd, w1) }))"

section \<open>The table\<close>

definition runtime_services_set_null :: runtime_services_t where
  "runtime_services_set_null =
     \<lparr>backend_ctx = BACKEND_NULL, sv_enabled = False, sv_ready = FN_NOOP, sv_status = FN_NOOP,
      sv_stopping = FN_NOOP, sv_watchdog = FN_NOOP, sv_watchdog_interval_ms = FN_NOOP,
      sv_destroy = FN_NOOP\<rparr>"

definition runtime_services_init ::
    "systemd_notifier_t \<Rightarrow> bool \<Rightarrow> world \<Rightarrow>
     (runtime_services_t \<times> systemd_notifier_t \<times> world) option" where
  "runtime_services_init sd enable w =
     (if \<not> enable then Some (runtime_services_set_null, sd, w)
      else do { (sd1, w1) \<leftarrow> systemd_notifier_init w;
                if \<not> systemd_notifier_is_enabled sd1 then Some (runtime_services_set_null, sd1, w1)
                else Some (\<lparr>backend_ctx = BACKEND_SYSTEMD, sv_enabled = True,
                     sv_ready = FN_SYSTEMD, sv_status = FN_SYSTEMD, sv_stopping = FN_SYSTEMD,
                     sv_watchdog = FN_SYSTEMD, sv_watchdog_interval_ms = FN_SYSTEMD,
                     sv_destroy = FN_SYSTEMD\<rparr>, sd1, w1) })"

definition runtime_services_destroy ::
    "runtime_services_t \<Rightarrow> systemd_notifier_t \<Rightarrow> world \<Rightarrow>
     runtime_services_t \<times> systemd_notifier_t \<times> world" where
  "runtime_services_destroy sv sd w =
     (runtime_services_set_null,
      case sv_destroy sv of
        FN_NOOP \<Rightarrow> runtime_services_noop_destroy (sd, w)
      | FN_SYSTEMD \<Rightarrow> (case backend_ctx sv of
            BACKEND_NULL \<Rightarrow> (sd, w)
          | BACKEND_SYSTEMD \<Rightarrow> systemd_notifier_destroy sd w))"

definition runtime_services_is_enabled :: "runtime_services_t \<Rightarrow> bool" where
  "runtime_services_is_enabled sv = sv_enabled sv"

definition runtime_services_watchdog_interval_ms ::
    "runtime_services_t \<Rightarrow> systemd_notifier_t \<Rightarrow> u64" where
  "runtime_services_watchdog_interval_ms sv sd =
     (case sv_watchdog_interval_ms sv of
        FN_NOOP \<Rightarrow> runtime_services_noop_watchdog_interval_ms
      | FN_SYSTEMD \<Rightarrow> (case backend_ctx sv of
            BACKEND_NULL \<Rightarrow> 0
          | BACKEND_SYSTEMD \<Rightarrow> systemd_notifier_watchdog_interval_ms sd))"

text \<open>The formatted text is cut to the status buffer before it is passed on.\<close>

definition runtime_services_notify_statusf ::
    "string \<Rightarrow> runtime_services_t \<Rightarrow> systemd_notifier_t \<Rightarrow> world \<Rightarrow>
     (bool \<times> systemd_notifier_t \<times> world) option" where
  "runtime_services_notify_statusf text sv sd w =
     (if \<not> runtime_services_is_enabled sv then Some (True, sd, w)
      else let status_msg = snprintf_buf OPENUPS_SYSTEMD_STATUS_SIZE text
           in case sv_status sv of
                FN_NOOP \<Rightarrow> Some (runtime_services_noop_status status_msg, sd, w)
              | FN_SYSTEMD \<Rightarrow> (case backend_ctx sv of
                    BACKEND_NULL \<Rightarrow> Some (False, sd, w)
                  | BACKEND_SYSTEMD \<Rightarrow> systemd_notifier_status sd status_msg w))"

definition runtime_services_notify_ready ::
    "runtime_services_t \<Rightarrow> systemd_notifier_t \<Rightarrow> world \<Rightarrow>
     (bool \<times> systemd_notifier_t \<times> world) option" where
  "runtime_services_notify_ready sv sd w =
     call_flag (sv_ready sv) runtime_services_noop_ready systemd_notifier_ready (backend_ctx sv) sd w"

definition runtime_services_notify_watchdog ::
    "runtime_services_t \<Rightarrow> systemd_notifier_t \<Rightarrow> world \<Rightarrow>
     (bool \<times> systemd_notifier_t \<times> world) option" where
  "runtime_services_notify_watchdog sv sd w =
     call_flag (sv_watchdog sv) runtime_services_noop_watchdog systemd_notifier_watchdog
       (backend_ctx sv) sd w"

definition runtime_services_notify_stopping ::
    "runtime_services_t \<Rightarrow> systemd_notifier_t \<Rightarrow> world \<Rightarrow>
     (bool \<times> systemd_notifier_t \<times> world) option" where
  "runtime_services_notify_stopping sv sd w =
     call_flag (sv_stopping sv) runtime_services_noop_stopping systemd_notifier_stopping
       (backend_ctx sv) sd w"

section \<open>What a notification does\<close>

text \<open>
  The contract of a notification: it returns in a fair world, it does nothing but send on the
  notification socket and wait between attempts, and it keeps the notifier's descriptor and
  watchdog period.
\<close>

locale service_op =
  fixes notify :: "runtime_services_t \<Rightarrow> systemd_notifier_t \<Rightarrow> world \<Rightarrow>
      (bool \<times> systemd_notifier_t \<times> world) option"
  assumes later: "notify sv sd w = Some (ok, sd', w') \<Longrightarrow> later {Cls_notify, Cls_wait} w w'"
    and returns: "fair w \<Longrightarrow> returns (notify sv sd w)"
    and keeps: "notify sv sd w = Some (ok, sd', w') \<Longrightarrow>
        sn_enabled sd' = sn_enabled sd \<and> sn_sockfd sd' = sn_sockfd sd \<and>
        watchdog_usec sd' = watchdog_usec sd"
begin

lemma accumulates:
  "notify sv sd w = Some (ok, sd', w') \<Longrightarrow> later K w0 w \<Longrightarrow> {Cls_notify, Cls_wait} \<subseteq> K \<Longrightarrow>
   later K w0 w'"
  by (rule later_trans, assumption, rule later_mono, erule later, assumption)

lemma stays_fair: "notify sv sd w = Some (ok, sd', w') \<Longrightarrow> fair w \<Longrightarrow> fair w'"
  by (rule fair_later, assumption, erule later)

lemma keeps_wf: "notify sv sd w = Some (ok, sd', w') \<Longrightarrow> notifier_wf sd' = notifier_wf sd"
  using keeps [of sv sd w ok sd' w'] by (simp add: notifier_wf_def)

lemma keeps_interval:
  "notify sv sd w = Some (ok, sd', w') \<Longrightarrow>
   runtime_services_watchdog_interval_ms sv' sd' = runtime_services_watchdog_interval_ms sv' sd"
  using keeps [of sv sd w ok sd' w']
  by (simp add: runtime_services_watchdog_interval_ms_def
      systemd_notifier_watchdog_interval_ms_def split: service_fn.split backend_ptr.split)

lemma keeps_held: "notify sv sd w = Some (ok, sd', w') \<Longrightarrow> held fd w' = held fd w"
  by (erule held_later [OF later]) simp

end

lemma call_flag_cases:
  "call_flag fn noop impl b sd w = Some (ok, sd', w') \<Longrightarrow>
   sd' = sd \<and> (w' = w \<or> impl sd w = Some (ok, w'))"
  by (auto simp: call_flag_def split: service_fn.splits backend_ptr.splits bind_splits)

lemma call_flag_returns: "returns (impl sd w) \<Longrightarrow> returns (call_flag fn noop impl b sd w)"
  by (auto simp: call_flag_def split: service_fn.split backend_ptr.split)

interpretation ready_op: service_op runtime_services_notify_ready
  by unfold_locales (auto simp: runtime_services_notify_ready_def total
      intro: call_flag_returns frame dest!: call_flag_cases)

interpretation watchdog_op: service_op runtime_services_notify_watchdog
  by unfold_locales (auto simp: runtime_services_notify_watchdog_def total
      intro: call_flag_returns frame dest!: call_flag_cases)

interpretation stopping_op: service_op runtime_services_notify_stopping
  by unfold_locales (auto simp: runtime_services_notify_stopping_def total
      intro: call_flag_returns frame dest!: call_flag_cases)

interpretation status_op: service_op "runtime_services_notify_statusf text"
  by unfold_locales
    (auto simp: runtime_services_notify_statusf_def Let_def total
      dest: systemd_notifier_status_keeps intro: systemd_notifier_status_later
      split: if_splits service_fn.splits backend_ptr.splits)

lemmas services_later [frame] =
  ready_op.accumulates watchdog_op.accumulates stopping_op.accumulates status_op.accumulates
lemmas services_fair [fairness] =
  ready_op.stays_fair watchdog_op.stays_fair stopping_op.stays_fair status_op.stays_fair
lemmas services_total [total] =
  ready_op.returns watchdog_op.returns stopping_op.returns status_op.returns

lemma runtime_services_init_later [frame]:
  "runtime_services_init sd e w = Some (sv, sd', w') \<Longrightarrow> later K w0 w \<Longrightarrow>
   {Cls_fd, Cls_socket} \<subseteq> K \<Longrightarrow> later K w0 w'"
  by (auto simp: runtime_services_init_def split: if_splits bind_splits
      intro: systemd_notifier_init_later)

lemma runtime_services_init_total [total]: "fair w \<Longrightarrow> returns (runtime_services_init sd e w)"
  by (auto simp: runtime_services_init_def total)

lemma runtime_services_destroy_later [frame]:
  "runtime_services_destroy sv sd w = (sv', sd', w') \<Longrightarrow> later K w0 w \<Longrightarrow> Cls_fd \<in> K \<Longrightarrow>
   later K w0 w'"
  by (auto simp: runtime_services_destroy_def noop_defs intro: systemd_notifier_destroy_later
      split: service_fn.splits backend_ptr.splits)

section \<open>The table stays in one of two shapes\<close>

text \<open>
  Either the table is the null table, or every entry leads to the notifier, which is enabled and
  holds a descriptor; the two are never mixed, so no entry of the notifier is called on \<open>NULL\<close>.
\<close>

definition services_wf :: "runtime_services_t \<Rightarrow> systemd_notifier_t \<Rightarrow> bool" where
  "services_wf sv sd \<longleftrightarrow>
     sv = runtime_services_set_null \<and> \<not> sn_enabled sd \<or>
     sv = \<lparr>backend_ctx = BACKEND_SYSTEMD, sv_enabled = True, sv_ready = FN_SYSTEMD,
       sv_status = FN_SYSTEMD, sv_stopping = FN_SYSTEMD, sv_watchdog = FN_SYSTEMD,
       sv_watchdog_interval_ms = FN_SYSTEMD, sv_destroy = FN_SYSTEMD\<rparr> \<and>
     sn_enabled sd \<and> 0 \<le> sn_sockfd sd"

text \<open>The descriptors the table holds.\<close>

definition services_fds :: "systemd_notifier_t \<Rightarrow> int \<Rightarrow> int" where
  "services_fds sd fd = (if sn_enabled sd \<and> sn_sockfd sd = fd then 1 else 0)"

lemma services_keep:
  assumes "sn_enabled sd' = sn_enabled sd \<and> sn_sockfd sd' = sn_sockfd sd \<and>
    watchdog_usec sd' = watchdog_usec sd"
  shows "services_wf sv sd' = services_wf sv sd" and "services_fds sd' = services_fds sd"
  using assms by (auto simp: services_wf_def services_fds_def)

lemma runtime_services_init_wf:
  assumes "runtime_services_init sd e w = Some (sv, sd', w')" and "\<not> sn_enabled sd"
  shows "services_wf sv sd'" and "held fd w' = held fd w + services_fds sd' fd"
  using assms
  by (auto simp: runtime_services_init_def services_wf_def systemd_notifier_is_enabled_def
      services_fds_def split: if_splits bind_splits dest: systemd_notifier_init_held [where fd = fd])

lemma runtime_services_destroy_wf:
  assumes "services_wf sv sd" and "runtime_services_destroy sv sd w = (sv', sd', w')"
  shows "sv' = runtime_services_set_null" and "services_wf sv' sd'"
    and "held fd w' = held fd w - services_fds sd fd"
  using assms systemd_notifier_destroy_held [of sd w sd' w' fd]
  by (auto simp: runtime_services_destroy_def services_wf_def runtime_services_set_null_def
      services_fds_def notifier_wf_def noop_defs)

text \<open>With the null table every notification succeeds and has no effect.\<close>

lemma null_services:
  "runtime_services_notify_ready runtime_services_set_null sd w = Some (True, sd, w)"
  "runtime_services_notify_watchdog runtime_services_set_null sd w = Some (True, sd, w)"
  "runtime_services_notify_stopping runtime_services_set_null sd w = Some (True, sd, w)"
  "runtime_services_notify_statusf text runtime_services_set_null sd w = Some (True, sd, w)"
  "runtime_services_watchdog_interval_ms runtime_services_set_null sd = 0"
  by (simp_all add: runtime_services_notify_ready_def runtime_services_notify_watchdog_def
      runtime_services_notify_stopping_def runtime_services_notify_statusf_def
      runtime_services_watchdog_interval_ms_def runtime_services_is_enabled_def call_flag_def
      runtime_services_set_null_def noop_defs)

section \<open>What the table guarantees\<close>

text \<open>
  C37: initialising the table (on a notifier that is not enabled) either
  leaves the null table, whose notifications all succeed without any effect, or a table that
  leads to an enabled notifier with an open descriptor. Destroying the table returns to the null
  table and closes exactly the descriptors that initialising it left open.
\<close>

theorem service_table_lifecycle:
  assumes "runtime_services_init sd e w = Some (sv, sd1, w1)" and "\<not> sn_enabled sd"
    and "runtime_services_destroy sv sd1 w1 = (sv2, sd2, w2)"
  shows "services_wf sv sd1 \<and> (sv_enabled sv \<longleftrightarrow> sn_enabled sd1) \<and>
    (sv_enabled sv \<or> runtime_services_notify_statusf text sv sd1 w1 = Some (True, sd1, w1) \<and>
       runtime_services_notify_ready sv sd1 w1 = Some (True, sd1, w1) \<and>
       runtime_services_watchdog_interval_ms sv sd1 = 0) \<and>
    sv2 = runtime_services_set_null \<and> services_wf sv2 sd2 \<and> held fd w2 = held fd w"
proof -
  note wf = runtime_services_init_wf [OF assms(1,2)]
  have "sv_enabled sv \<longleftrightarrow> sn_enabled sd1" "\<not> sv_enabled sv \<Longrightarrow> sv = runtime_services_set_null"
    using wf(1) by (auto simp: services_wf_def runtime_services_set_null_def)
  then show ?thesis
    using wf(1) wf(2) [of fd] runtime_services_destroy_wf [OF wf(1) assms(3)] null_services by auto
qed

theorem service_table_lifecycle_witness:
  "\<exists>sv sd1 w1. runtime_services_init systemd_notifier_off True sample_world = Some (sv, sd1, w1) \<and>
     \<not> sv_enabled sv \<and> runtime_services_notify_statusf ''up'' sv sd1 w1 = Some (True, sd1, w1)"
proof -
  have i: "runtime_services_init systemd_notifier_off True sample_world =
      Some (runtime_services_set_null, systemd_notifier_off, sample_world)"
    by (simp add: runtime_services_init_def systemd_notifier_init_def sample_world_def sample_host_def
        systemd_notifier_is_enabled_def systemd_notifier_off_def)
  have "\<not> sv_enabled runtime_services_set_null" by (simp add: runtime_services_set_null_def)
  moreover obtain sv2 sd2 w2 where "runtime_services_destroy runtime_services_set_null
      systemd_notifier_off sample_world = (sv2, sd2, w2)"
    by (metis prod_cases3)
  then have "sv_enabled runtime_services_set_null \<or> runtime_services_notify_statusf ''up''
      runtime_services_set_null systemd_notifier_off sample_world =
      Some (True, systemd_notifier_off, sample_world)"
    using service_table_lifecycle [OF i, of sv2 sd2 w2 "''up''" 0]
    by (auto simp: systemd_notifier_off_def)
  ultimately show ?thesis using i by blast
qed

end
