(* ===== verification/Shutdown.thy ===== *)
theory Shutdown
  imports Samples
begin

text \<open>
  \<open>src/src/shutdown.c\<close>: the choice of the shutdown command, its start with \<open>posix_spawn\<close>, the
  observation of the child for one second, and \<open>shutdown_trigger\<close>. \<open>None\<close> is a call that does
  not return; \<open>shutdown_trigger_total\<close> says when there is none.
\<close>

section \<open>The command\<close>

definition OPENUPS_SHUTDOWN_STARTUP_GRACE_MS :: u64 where
  "OPENUPS_SHUTDOWN_STARTUP_GRACE_MS = 1000"
definition OPENUPS_SHUTDOWN_POLL_INTERVAL_NS :: int where
  "OPENUPS_SHUTDOWN_POLL_INTERVAL_NS = 50000000"

datatype shutdown_backend_t = SHUTDOWN_BACKEND_SYSTEMCTL | SHUTDOWN_BACKEND_SHUTDOWN

definition select_shutdown_backend :: "bool \<Rightarrow> shutdown_backend_t" where
  "select_shutdown_backend use_systemctl_poweroff =
     (if use_systemctl_poweroff then SHUTDOWN_BACKEND_SYSTEMCTL else SHUTDOWN_BACKEND_SHUTDOWN)"

definition shutdown_backend_command :: "shutdown_backend_t \<Rightarrow> string" where
  "shutdown_backend_command backend =
     (if backend = SHUTDOWN_BACKEND_SYSTEMCTL then ''/usr/bin/systemctl'' else ''/sbin/shutdown'')"

text \<open>The argument vector up to its null pointer; the flag says whether it is complete.\<close>

definition shutdown_select_argv :: "config_t \<Rightarrow> bool \<Rightarrow> bool \<times> string list" where
  "shutdown_select_argv cfg use_systemctl_poweroff =
     (let backend = select_shutdown_backend use_systemctl_poweroff;
          argv0 = shutdown_backend_command backend
      in if shutdown_mode cfg = SHUTDOWN_MODE_TRUE_OFF then
           (True, if backend = SHUTDOWN_BACKEND_SYSTEMCTL then [argv0, ''poweroff'']
                  else [argv0, ''-h'', ''now''])
         else (False, [argv0]))"

definition shutdown_should_execute :: "config_t \<Rightarrow> logger_t \<Rightarrow> world \<Rightarrow> bool \<times> world" where
  "shutdown_should_execute cfg lg w =
     (if shutdown_mode cfg = SHUTDOWN_MODE_DRY_RUN
      then (False, logger_info lg ''[DRY-RUN] Would trigger shutdown now'' w)
      else (True, w))"

section \<open>Observing the child\<close>

definition shutdown_sleep_retry_window :: "world \<Rightarrow> (bool \<times> world) option" where
  "shutdown_sleep_retry_window w =
     do { (r, w1) \<leftarrow> nanosleep_retry OPENUPS_SHUTDOWN_POLL_INTERVAL_NS w; Some (r = None, w1) }"

definition shutdown_assume_started ::
    "logger_t \<Rightarrow> string \<Rightarrow> world \<Rightarrow> shutdown_result_t \<times> world" where
  "shutdown_assume_started lg reason w =
     (SHUTDOWN_RESULT_TRIGGERED,
      logger_warn lg (''Unable to confirm shutdown command startup: '' @ reason @
        ''; assuming command started'') w)"

definition shutdown_deadline_ms :: "u64 \<Rightarrow> u64 option" where
  "shutdown_deadline_ms start_ms = ckd_add start_ms OPENUPS_SHUTDOWN_STARTUP_GRACE_MS"

text \<open>The macros of \<open>sys/wait.h\<close>.\<close>

definition WTERMSIG :: "int \<Rightarrow> int" where "WTERMSIG st = st AND 127"
definition WIFEXITED :: "int \<Rightarrow> bool" where "WIFEXITED st \<longleftrightarrow> WTERMSIG st = 0"
definition WEXITSTATUS :: "int \<Rightarrow> int" where "WEXITSTATUS st = drop_bit 8 (st AND 65280)"
definition WIFSIGNALED :: "int \<Rightarrow> bool" where
  "WIFSIGNALED st \<longleftrightarrow> 0 < drop_bit 1 (signed_take_bit 7 ((st AND 127) + 1))"

definition shutdown_consume_child_status ::
    "int \<Rightarrow> int \<Rightarrow> int \<Rightarrow> string \<Rightarrow> logger_t \<Rightarrow> world \<Rightarrow> shutdown_result_t \<times> world" where
  "shutdown_consume_child_status child_pid wait_result status command_path lg w =
     (if wait_result \<noteq> child_pid then (SHUTDOWN_RESULT_NO_ACTION, w)
      else if WIFEXITED status then
        let exit_code = WEXITSTATUS status
        in if exit_code = 0
           then (SHUTDOWN_RESULT_TRIGGERED, logger_info lg ''Shutdown command executed successfully'' w)
           else (SHUTDOWN_RESULT_FAILED,
                 logger_error lg (''Shutdown command failed with exit code '' @ show_int exit_code @
                   '': '' @ command_path) w)
      else if WIFSIGNALED status then
        (SHUTDOWN_RESULT_FAILED,
         logger_error lg (''Shutdown command terminated by signal '' @ show_int (WTERMSIG status)) w)
      else (SHUTDOWN_RESULT_FAILED, logger_error lg ''Shutdown command exited unexpectedly'' w))"

text \<open>The variables \<open>result\<close> and \<open>status\<close> after a call of \<open>waitpid\<close>.\<close>

definition wait_result :: "int + nat \<times> int \<Rightarrow> int" where
  "wait_result answer = (case answer of Inl e \<Rightarrow> - 1 | Inr (r, st) \<Rightarrow> int r)"

definition wait_status :: "int \<Rightarrow> int + nat \<times> int \<Rightarrow> int" where
  "wait_status status answer = (case answer of Inl e \<Rightarrow> status | Inr (r, st) \<Rightarrow> st)"

definition waitpid_failed ::
    "logger_t \<Rightarrow> int \<Rightarrow> world \<Rightarrow> shutdown_result_t \<times> world" where
  "waitpid_failed lg errno w =
     (SHUTDOWN_RESULT_FAILED,
      logger_error lg (''waitpid() failed: '' @ strerror (host w) errno) w)"

text \<open>
  The body of the loop of \<open>shutdown_observe_startup\<close>: \<open>Some r\<close> returns \<open>r\<close>, \<open>None\<close> is the
  next iteration; the variable \<open>status\<close> outlives an iteration.
\<close>

definition observe_body ::
    "int \<Rightarrow> string \<Rightarrow> logger_t \<Rightarrow> u64 \<Rightarrow> int \<times> world \<Rightarrow>
     (shutdown_result_t option \<times> int \<times> world) option" where
  "observe_body child_pid command_path lg deadline_ms = (\<lambda>(status0, w).
     (case sys_waitpid w of (answer, w1) \<Rightarrow>
        let status = wait_status status0 answer
        in case shutdown_consume_child_status child_pid (wait_result answer) status
                  command_path lg w1 of (child_result, w2) \<Rightarrow>
             if child_result \<noteq> SHUTDOWN_RESULT_NO_ACTION then Some (Some child_result, status, w2)
             else
               (case answer of
                  Inl e \<Rightarrow>
                    if e = EINTR then Some (None, status, w2)
                    else (case waitpid_failed lg e w2 of (r, w3) \<Rightarrow> Some (Some r, status, w3))
                | Inr _ \<Rightarrow>
                    (case get_monotonic_ms w2 of (now_ms, w3) \<Rightarrow>
                       if now_ms = UINT64_MAX then
                         (case shutdown_assume_started lg
                            ''monotonic clock unavailable before startup grace elapsed'' w3 of
                            (r, w4) \<Rightarrow> Some (Some r, status, w4))
                       else if deadline_ms \<le> now_ms then
                         Some (Some SHUTDOWN_RESULT_TRIGGERED, status,
                           logger_info lg
                             ''Shutdown command startup grace elapsed; assuming it is running'' w3)
                       else do {
                         (slept, w4) \<leftarrow> shutdown_sleep_retry_window w3;
                         if \<not> slept then
                           (case shutdown_assume_started lg
                              ''startup observation sleep interrupted by non-retryable error'' w4 of
                              (r, w5) \<Rightarrow> Some (Some r, status, w5))
                         else Some (None, status, w4) }))))"

definition observe_loop ::
    "int \<Rightarrow> string \<Rightarrow> logger_t \<Rightarrow> u64 \<Rightarrow> int \<times> world \<Rightarrow> (shutdown_result_t \<times> int \<times> world) option"
  where
  "observe_loop child_pid command_path lg deadline_ms =
     loop_until (observe_body child_pid command_path lg deadline_ms)"

definition shutdown_observe_startup ::
    "int \<Rightarrow> string \<Rightarrow> logger_t \<Rightarrow> world \<Rightarrow> (shutdown_result_t \<times> world) option" where
  "shutdown_observe_startup child_pid command_path lg w =
     (if child_pid \<le> 0 then Some (SHUTDOWN_RESULT_FAILED, w)
      else
        (case get_monotonic_ms w of (start_ms, w1) \<Rightarrow>
           if start_ms = UINT64_MAX then
             (case sys_waitpid w1 of
                (Inl e, w2) \<Rightarrow>
                  if e = EINTR then
                    Some (shutdown_assume_started lg
                      ''monotonic clock unavailable during startup observation'' w2)
                  else Some (waitpid_failed lg e w2)
              | (Inr (r, status), w2) \<Rightarrow>
                  (case shutdown_consume_child_status child_pid (int r) status command_path lg w2 of
                     (immediate_result, w3) \<Rightarrow>
                       if immediate_result \<noteq> SHUTDOWN_RESULT_NO_ACTION
                       then Some (immediate_result, w3)
                       else Some (shutdown_assume_started lg
                              ''monotonic clock unavailable during startup observation'' w3)))
           else
             (case shutdown_deadline_ms start_ms of
                None \<Rightarrow> Some (shutdown_assume_started lg
                          ''startup observation deadline overflow'' w1)
              | Some deadline_ms \<Rightarrow>
                  do { (r, _, w2) \<leftarrow> observe_loop child_pid command_path lg deadline_ms (0, w1);
                       Some (r, w2) })))"

section \<open>Starting the command\<close>

definition shutdown_envp :: "string list" where
  "shutdown_envp = [''PATH=/usr/bin:/usr/sbin:/bin:/sbin'', ''LANG=C'', ''LC_ALL=C'']"

text \<open>The three \<open>addopen\<close> calls, each made only when the one before succeeded.\<close>

fun add_redirections :: "nat \<Rightarrow> world \<Rightarrow> int \<times> world" where
  "add_redirections 0 w = (0, w)"
| "add_redirections (Suc n) w =
     (let (rc, w1) = sys_file_action w in if rc = 0 then add_redirections n w1 else (rc, w1))"

definition shutdown_execute_command ::
    "string list \<Rightarrow> logger_t \<Rightarrow> world \<Rightarrow> (shutdown_result_t \<times> world) option" where
  "shutdown_execute_command argv lg w =
     (case argv of
        [] \<Rightarrow> Some (SHUTDOWN_RESULT_FAILED, w)
      | argv0 # _ \<Rightarrow>
          (case sys_file_action w of (rc, w1) \<Rightarrow>
             if rc \<noteq> 0 then
               Some (SHUTDOWN_RESULT_FAILED,
                 logger_error lg (''posix_spawn_file_actions_init failed: '' @ strerror (host w1) rc) w1)
             else
               (case add_redirections 3 w1 of (rc, w2) \<Rightarrow>
                  if rc \<noteq> 0 then
                    Some (SHUTDOWN_RESULT_FAILED,
                      logger_error lg
                        (''Failed to prepare stdio redirection: '' @ strerror (host w2) rc) w2)
                  else
                    (case sys_posix_spawn argv0 argv shutdown_envp w2 of
                       (Inl spawn_err, w3) \<Rightarrow>
                         Some (SHUTDOWN_RESULT_FAILED,
                           logger_error lg (''posix_spawn failed: '' @ strerror (host w3) spawn_err) w3)
                     | (Inr child_pid, w3) \<Rightarrow>
                         shutdown_observe_startup child_pid argv0 lg w3))))"

definition shutdown_trigger ::
    "config_t \<Rightarrow> logger_t \<Rightarrow> bool \<Rightarrow> world \<Rightarrow> (shutdown_result_t \<times> world) option" where
  "shutdown_trigger cfg lg use_systemctl_poweroff w =
     (if shutdown_mode cfg = SHUTDOWN_MODE_LOG_ONLY then
        Some (SHUTDOWN_RESULT_NO_ACTION,
          logger_warn lg (''Failure threshold reached in LOG-ONLY mode; '' @
            ''continuing monitoring without shutdown'') w)
      else
        let w1 = logger_warn lg (''Shutdown threshold reached, mode is '' @
                   shutdown_mode_to_string (shutdown_mode cfg)) w
        in case shutdown_should_execute cfg lg w1 of (execute, w2) \<Rightarrow>
             if \<not> execute then Some (SHUTDOWN_RESULT_NO_ACTION, w2)
             else
               (case shutdown_select_argv cfg use_systemctl_poweroff of (ok, argv) \<Rightarrow>
                  if \<not> ok then
                    Some (SHUTDOWN_RESULT_FAILED,
                      logger_error lg ''Failed to build shutdown command arguments'' w2)
                  else shutdown_execute_command argv lg
                         (logger_warn lg ''Triggering shutdown now'' w2)))"

section \<open>One iteration of the observation\<close>

text \<open>What an answer of \<open>waitpid\<close> settles: the child's end or an error that is no interruption.\<close>

definition child_verdict :: "int \<Rightarrow> int + nat \<times> int \<Rightarrow> shutdown_result_t option" where
  "child_verdict pid answer =
     (case answer of
        Inl e \<Rightarrow> if e = EINTR then None else Some SHUTDOWN_RESULT_FAILED
      | Inr (r, st) \<Rightarrow>
          if int r \<noteq> pid then None
          else if WIFEXITED st \<and> WEXITSTATUS st = 0 then Some SHUTDOWN_RESULT_TRIGGERED
          else Some SHUTDOWN_RESULT_FAILED)"

definition settled :: "int \<Rightarrow> int + nat \<times> int \<Rightarrow> shutdown_result_t" where
  "settled pid answer =
     (case child_verdict pid answer of None \<Rightarrow> SHUTDOWN_RESULT_TRIGGERED | Some v \<Rightarrow> v)"

lemma settled_acts: "settled pid a \<noteq> SHUTDOWN_RESULT_NO_ACTION"
  by (auto simp: settled_def child_verdict_def split: sum.splits option.splits if_splits)

lemma consume_result:
  "fst (shutdown_consume_child_status pid r st path lg w) =
     (if r \<noteq> pid then SHUTDOWN_RESULT_NO_ACTION
      else if WIFEXITED st \<and> WEXITSTATUS st = 0 then SHUTDOWN_RESULT_TRIGGERED
      else SHUTDOWN_RESULT_FAILED)"
  by (simp add: shutdown_consume_child_status_def Let_def)

lemma consume_later [frame]:
  "shutdown_consume_child_status pid r st path lg w = (x, w') \<Longrightarrow> later K w0 w \<Longrightarrow> Cls_text \<in> K \<Longrightarrow>
   later K w0 w'"
  by (auto simp: shutdown_consume_child_status_def Let_def intro: logger_later split: if_splits)

lemma consume_streams:
  "shutdown_consume_child_status pid r st path lg w = (x, w') \<Longrightarrow>
   waitpid_in w' = waitpid_in w \<and> mono_in w' = mono_in w"
  by (auto simp: shutdown_consume_child_status_def Let_def logger_defs split: if_splits)

lemma sleep_window_later [frame]:
  "shutdown_sleep_retry_window w = Some (ok, w') \<Longrightarrow> later K w0 w \<Longrightarrow> Cls_wait \<in> K \<Longrightarrow>
   later K w0 w'"
  by (auto simp: shutdown_sleep_retry_window_def intro: nanosleep_retry_later split: bind_splits)

lemma sleep_window_streams:
  assumes "shutdown_sleep_retry_window w = Some (ok, w')"
  shows "waitpid_in w' = waitpid_in w \<and> mono_in w' = mono_in w"
  using assms
  by (auto simp: shutdown_sleep_retry_window_def split: bind_splits elim: nanosleep_retry_world)

lemma sleep_window_total [total]: "fair w \<Longrightarrow> returns (shutdown_sleep_retry_window w)"
  by (auto simp: shutdown_sleep_retry_window_def total)

lemma sys_waitpid_streams:
  "sys_waitpid w = (a, w') \<Longrightarrow>
   shd (waitpid_in w) = a \<and> waitpid_in w' = stl (waitpid_in w) \<and> mono_in w' = mono_in w"
  by (auto simp: sys_waitpid_def)

lemma get_monotonic_ms_waitpid:
  "get_monotonic_ms w = (t, w') \<Longrightarrow> waitpid_in w' = waitpid_in w"
  by (erule get_monotonic_ms_world) simp

text \<open>
  An iteration goes on only after an unsettled answer, and leaves the loop with what the
  answer settles.
\<close>

lemma observe_body_effect:
  assumes "observe_body pid path lg d (st, w) = Some (r, st', w')" and "0 < pid"
  shows "later {Cls_text, Cls_wait} w w' \<and> waitpid_in w' = stl (waitpid_in w) \<and>
     (case r of None \<Rightarrow> child_verdict pid (shd (waitpid_in w)) = None
      | Some x \<Rightarrow> x = settled pid (shd (waitpid_in w)))"
proof -
  obtain a w1 where a: "sys_waitpid w = (a, w1)" by fastforce
  obtain cr w2 where c: "shutdown_consume_child_status pid (wait_result a) (wait_status st a)
      path lg w1 = (cr, w2)" by fastforce
  have s1: "shd (waitpid_in w) = a" "waitpid_in w1 = stl (waitpid_in w)"
    using sys_waitpid_streams [OF a] by auto
  have l2: "later {Cls_text, Cls_wait} w w2"
    by (rule consume_later [OF c]) (auto intro: sys_waitpid_later [OF a])
  have s2: "waitpid_in w2 = stl (waitpid_in w)" using consume_streams [OF c] s1 by simp
  have v: "cr = (if wait_result a \<noteq> pid then SHUTDOWN_RESULT_NO_ACTION else settled pid a)"
    using consume_result [of pid "wait_result a" "wait_status st a" path lg w1] c assms(2)
    by (auto simp: settled_def child_verdict_def wait_result_def wait_status_def
        split: sum.splits prod.splits)
  show ?thesis
  proof (cases "cr = SHUTDOWN_RESULT_NO_ACTION")
    case False
    then show ?thesis using assms(1) a c l2 s1 s2 v
      by (auto simp: observe_body_def Let_def split: if_splits)
  next
    case True
    then have nv: "child_verdict pid a = (if isl a \<and> a \<noteq> Inl EINTR then Some SHUTDOWN_RESULT_FAILED
        else None)"
      using v assms(2) by (auto simp: settled_def child_verdict_def wait_result_def
          split: sum.splits prod.splits option.splits if_splits)
    show ?thesis
    proof (cases a)
      case (Inl e)
      with True assms(1) a c l2 s1 s2 nv show ?thesis
        by (auto simp: observe_body_def Let_def settled_def child_verdict_def waitpid_failed_def
            logger_defs
            intro: frame split: if_splits)
    next
      case (Inr x)
      obtain now w3 where t: "get_monotonic_ms w2 = (now, w3)" by fastforce
      have l3: "later {Cls_text, Cls_wait} w w3" by (rule get_monotonic_ms_later [OF t l2])
      have s3: "waitpid_in w3 = stl (waitpid_in w)"
        using get_monotonic_ms_waitpid [OF t] s2 by simp
      have sl: "later {Cls_text, Cls_wait} w w4 \<and> waitpid_in w4 = stl (waitpid_in w)"
        if "shutdown_sleep_retry_window w3 = Some (ok, w4)" for ok w4
        using sleep_window_later [OF that l3] sleep_window_streams [OF that] s3 by simp
      from Inr True assms(1) a c l3 s1 s3 nv t sl show ?thesis
        by (auto simp: observe_body_def Let_def settled_def shutdown_assume_started_def logger_defs
            intro: logger_at_later split: if_splits bind_splits)
    qed
  qed
qed

text \<open>
  The loop reads answers of \<open>waitpid\<close> as long as they settle nothing; the last one it reads
  decides the result, which is success when it settles nothing either.
\<close>

definition observed ::
    "int \<Rightarrow> world \<Rightarrow> shutdown_result_t \<Rightarrow> world \<Rightarrow> bool" where
  "observed pid w r w' \<longleftrightarrow>
     (\<exists>n. waitpid_in w' = sdrop (Suc n) (waitpid_in w) \<and>
        (\<forall>i < n. child_verdict pid (waitpid_in w !! i) = None) \<and>
        r = settled pid (waitpid_in w !! n))"

lemma observe_loop_effect:
  assumes "observe_loop pid path lg d s = Some (r, s')" and "0 < pid"
  shows "later {Cls_text, Cls_wait} (snd s) (snd s') \<and> observed pid (snd s) r (snd s')"
  using assms(1) unfolding observe_loop_def
proof (induct rule: loop_until_induct)
  case (leave s x s')
  then show ?case using observe_body_effect [of pid path lg d "fst s" "snd s" "Some x" "fst s'" "snd s'"]
      assms(2) by (auto simp: observed_def intro!: exI [of _ 0])
next
  case (go_on s s1 x s')
  have b: "later {Cls_text, Cls_wait} (snd s) (snd s1)"
    "waitpid_in (snd s1) = stl (waitpid_in (snd s))"
    "child_verdict pid (shd (waitpid_in (snd s))) = None"
    using observe_body_effect [of pid path lg d "fst s" "snd s" None "fst s1" "snd s1"] go_on(1) assms(2)
    by auto
  from go_on obtain n where n: "waitpid_in (snd s') = sdrop (Suc n) (waitpid_in (snd s1))"
    "\<forall>i < n. child_verdict pid (waitpid_in (snd s1) !! i) = None"
    "x = settled pid (waitpid_in (snd s1) !! n)"
    unfolding observed_def by auto
  have "observed pid (snd s) x (snd s')"
    unfolding observed_def
    using n b by (intro exI [of _ "Suc n"]) (auto simp: less_Suc_eq_0_disj)
  then show ?case using go_on b(1) by (blast intro: later_trans)
qed

section \<open>The observation ends\<close>

lemma consume_fair [fairness]:
  "shutdown_consume_child_status pid r st path lg w = (x, w') \<Longrightarrow> fair w \<Longrightarrow> fair w'"
  by (rule fair_later [where K = UNIV], assumption, erule frame, rule later_refl, simp)

lemma observe_body_total: "fair (snd s) \<Longrightarrow> returns (observe_body pid path lg d s)"
  by (cases s) (auto simp: observe_body_def Let_def total dest!: fairness
      split: sum.splits prod.splits)

text \<open>An iteration that goes on was interrupted, or read a time before the deadline.\<close>

lemma observe_body_next:
  assumes "observe_body pid path lg d (st, w) = Some (None, st', w')"
  shows "shd (waitpid_in w) = Inl EINTR \<and> waitpid_in w' = stl (waitpid_in w) \<and> mono_in w' = mono_in w \<or>
     (\<exists>w2 t w3. mono_in w2 = mono_in w \<and> get_monotonic_ms w2 = (t, w3) \<and> t < d \<and>
        mono_in w' = mono_in w3)"
proof -
  obtain a w1 where a: "sys_waitpid w = (a, w1)" by fastforce
  obtain cr w2 where c: "shutdown_consume_child_status pid (wait_result a) (wait_status st a)
      path lg w1 = (cr, w2)" by fastforce
  have s: "shd (waitpid_in w) = a" "waitpid_in w2 = stl (waitpid_in w)" "mono_in w2 = mono_in w"
    using sys_waitpid_streams [OF a] consume_streams [OF c] by auto
  show ?thesis
  proof (cases a)
    case (Inl e)
    with assms a c s show ?thesis
      by (auto simp: observe_body_def Let_def split: if_splits prod.splits)
  next
    case (Inr x)
    obtain now w3 where t: "get_monotonic_ms w2 = (now, w3)" by fastforce
    from Inr assms a c t obtain ok where "shutdown_sleep_retry_window w3 = Some (ok, w')" "now < d"
      by (auto simp: observe_body_def Let_def not_le
          split: if_splits prod.splits bind_splits)
    with s t show ?thesis using sleep_window_streams by blast
  qed
qed

lemma observe_loop_total:
  assumes "fair (snd s)"
  shows "returns (observe_loop pid path lg d s)"
proof -
  define sec where "sec = int (unat d) div 1000 + 1"
  have "unat d < 18446744073709551616" using unat_u64_bound [of d] by linarith
  then have sec: "0 \<le> sec" "sec < 2 ^ 63" "unat d \<le> nat sec * 1000"
    unfolding sec_def by (auto simp: nat_add_distrib nat_div_distrib)
  define clock where "clock s = first (clock_past sec) (mono_in (snd s))" for s :: "int \<times> world"
  define wait where "wait s = first (\<lambda>r. r \<noteq> Inl EINTR) (waitpid_in (snd s))" for s :: "int \<times> world"
  define R where "R = inv_image (less_than <*lex*> less_than) (\<lambda>s. (clock s, wait s))"
  show ?thesis
    unfolding observe_loop_def
  proof (rule loop_until_total [of R "\<lambda>s. fair (snd s)"])
    show "wf R" unfolding R_def by (intro wf_inv_image wf_lex_prod wf_less_than)
    show "fair (snd s)" by fact
    show "returns (observe_body pid path lg d s)" if "fair (snd s)" for s
      using that by (rule observe_body_total)
    fix s s1
    assume f: "fair (snd s)" and b: "observe_body pid path lg d s = Some (None, s1)"
    have b': "observe_body pid path lg d (fst s, snd s) = Some (None, fst s1, snd s1)"
      using b by simp
    from f have often: "inf_often (clock_past sec) (mono_in (snd s))"
      and wait: "inf_often (\<lambda>r. r \<noteq> Inl EINTR) (waitpid_in (snd s))"
      using sec by (auto simp: fair_def)
    from observe_body_next [OF b'] have "(s1, s) \<in> R"
    proof
      assume "shd (waitpid_in (snd s)) = Inl EINTR \<and>
        waitpid_in (snd s1) = stl (waitpid_in (snd s)) \<and> mono_in (snd s1) = mono_in (snd s)"
      then show ?thesis using first_stl [OF wait]
        by (auto simp: R_def clock_def wait_def)
    next
      assume "\<exists>w2 t w3. mono_in w2 = mono_in (snd s) \<and> get_monotonic_ms w2 = (t, w3) \<and> t < d \<and>
        mono_in (snd s1) = mono_in w3"
      then obtain w2 t w3 where w2: "mono_in w2 = mono_in (snd s)" "get_monotonic_ms w2 = (t, w3)"
        "t < d" "mono_in (snd s1) = mono_in w3" by blast
      have "clock_past sec (mono_in w2 !! clock s)"
        using first_holds [OF often] by (simp add: w2(1) clock_def)
      from get_monotonic_ms_progress [OF this sec(1,3) w2(2)] w2(3)
      obtain m where "m < clock s" "clock_past sec (mono_in w3 !! m)" by auto
      then have "clock s1 < clock s" using w2(4) by (auto simp: clock_def intro: first_less)
      then show ?thesis by (simp add: R_def)
    qed
    moreover have "fair (snd s1)"
      using f b by (cases s; cases s1)
        (auto simp: observe_body_def Let_def shutdown_sleep_retry_window_def
          dest!: fairness split: sum.splits prod.splits if_splits bind_splits)
    ultimately show "fair (snd s1) \<and> (s1, s) \<in> R" by simp
  qed
qed

section \<open>What triggering a shutdown does\<close>

lemma observe_startup_effect:
  assumes "shutdown_observe_startup pid path lg w = Some (r, w')" and "0 < pid"
  shows "later {Cls_text, Cls_wait} w w' \<and>
    (observed pid w r w' \<or> r = SHUTDOWN_RESULT_TRIGGERED \<and> waitpid_in w' = waitpid_in w)"
proof -
  obtain t w1 where t: "get_monotonic_ms w = (t, w1)" by fastforce
  have l1: "later {Cls_text, Cls_wait} w w1" by (rule get_monotonic_ms_later [OF t]) simp
  have p1: "waitpid_in w1 = waitpid_in w" by (rule get_monotonic_ms_waitpid [OF t])
  show ?thesis
  proof (cases "t = UINT64_MAX")
    case True
    obtain a w2 where a: "sys_waitpid w1 = (a, w2)" by fastforce
    have l2: "later {Cls_text, Cls_wait} w w2" by (rule sys_waitpid_later [OF a l1])
    have p2: "shd (waitpid_in w) = a" "waitpid_in w2 = stl (waitpid_in w)"
      using sys_waitpid_streams [OF a] p1 by auto
    have one: "observed pid w r w'" if "waitpid_in w' = waitpid_in w2" "r = settled pid a"
      unfolding observed_def using that p2 by (intro exI [of _ 0]) simp
    show ?thesis
    proof (cases a)
      case (Inl e)
      with assms t True a l2 one show ?thesis
        by (auto simp: shutdown_observe_startup_def shutdown_assume_started_def
            waitpid_failed_def settled_def child_verdict_def logger_defs
            intro: logger_at_later split: if_splits)
    next
      case (Inr x)
      obtain n st where x: "x = (n, st)" by fastforce
      obtain cr w3 where c: "shutdown_consume_child_status pid (int n) st path lg w2 = (cr, w3)"
        by fastforce
      have l3: "later {Cls_text, Cls_wait} w w3" by (rule consume_later [OF c l2]) simp
      have p3: "waitpid_in w3 = waitpid_in w2" using consume_streams [OF c] by simp
      have cr: "cr = (if int n \<noteq> pid then SHUTDOWN_RESULT_NO_ACTION
          else if WIFEXITED st \<and> WEXITSTATUS st = 0 then SHUTDOWN_RESULT_TRIGGERED
          else SHUTDOWN_RESULT_FAILED)"
        using consume_result [of pid "int n" st path lg w2] c by simp
      from assms t True a Inr x c l3 p3 cr one show ?thesis
        by (auto simp: shutdown_observe_startup_def shutdown_assume_started_def
            settled_def child_verdict_def logger_defs
            intro: logger_at_later split: if_splits)
    qed
  next
    case False
    show ?thesis
    proof (cases "shutdown_deadline_ms t")
      case None
      with assms t False l1 p1 show ?thesis
        by (auto simp: shutdown_observe_startup_def shutdown_assume_started_def logger_defs
            intro: logger_at_later)
    next
      case (Some d)
      with assms t False obtain st where loop: "observe_loop pid path lg d (0, w1) = Some (r, st, w')"
        by (auto simp: shutdown_observe_startup_def split: bind_splits)
      from observe_loop_effect [OF loop assms(2)] l1 p1 show ?thesis
        by (auto simp: observed_def intro: later_trans)
    qed
  qed
qed

lemma observe_startup_total [total]: "fair w \<Longrightarrow> returns (shutdown_observe_startup pid path lg w)"
  by (auto simp: shutdown_observe_startup_def observe_loop_total dest!: fairness
      split: sum.splits prod.splits option.splits)

lemma add_redirections_effect:
  "add_redirections n w = (rc, w') \<Longrightarrow>
   (rc = 0 \<longleftrightarrow> (\<forall>i < n. spawn_rc_in w !! i = 0)) \<and>
   (\<exists>s. w' = w\<lparr>spawn_rc_in := s\<rparr>)"
proof (induction n arbitrary: w)
  case 0
  then show ?case by (auto intro: exI [of _ "spawn_rc_in w"])
next
  case (Suc n)
  obtain rc1 w1 where s: "sys_file_action w = (rc1, w1)" by fastforce
  then have rc1: "rc1 = spawn_rc_in w !! 0" "w1 = w\<lparr>spawn_rc_in := stl (spawn_rc_in w)\<rparr>"
    by (auto simp: sys_file_action_def)
  show ?case
  proof (cases "rc1 = 0")
    case True
    with Suc.prems s have "add_redirections n w1 = (rc, w')" by simp
    from Suc.IH [OF this] rc1 True show ?thesis
      by (auto simp: less_Suc_eq_0_disj)
  next
    case False
    with Suc.prems s rc1 show ?thesis by auto
  qed
qed

text \<open>Starting a command: the result, the process that is started, and nothing else.\<close>

lemma observed_cong: "waitpid_in v = waitpid_in w \<Longrightarrow> observed pid v r w' = observed pid w r w'"
  by (simp add: observed_def)

text \<open>What the answer \<open>x\<close> of \<open>posix_spawn\<close> in \<open>w\<close> makes of the result \<open>r\<close>.\<close>

definition spawn_decides :: "int + int \<Rightarrow> world \<Rightarrow> shutdown_result_t \<Rightarrow> world \<Rightarrow> bool" where
  "spawn_decides x w r w' \<longleftrightarrow>
     (case x of
        Inl e \<Rightarrow> r = SHUTDOWN_RESULT_FAILED
      | Inr pid \<Rightarrow>
          if pid \<le> 0 then r = SHUTDOWN_RESULT_FAILED
          else observed pid w r w' \<or> r = SHUTDOWN_RESULT_TRIGGERED)"

lemma prepare_command_effect:
  assumes a: "sys_file_action w = (rc1, w1)" and b: "add_redirections 3 w1 = (rc2, w2)"
  shows "later {Cls_text} w w1" "later {Cls_text} w w2"
    and "(\<exists>i < 4. spawn_rc_in w !! i \<noteq> 0) \<longleftrightarrow> \<not> (rc1 = 0 \<and> rc2 = 0)"
    and "\<exists>s. w2 = w\<lparr>spawn_rc_in := s\<rparr>"
proof -
  have w1: "rc1 = spawn_rc_in w !! 0" "w1 = w\<lparr>spawn_rc_in := stl (spawn_rc_in w)\<rparr>"
    using a by (auto simp: sys_file_action_def)
  from add_redirections_effect [OF b] obtain s where
    w2: "w2 = w1\<lparr>spawn_rc_in := s\<rparr>" and rc2: "rc2 = 0 \<longleftrightarrow> (\<forall>i < 3. spawn_rc_in w1 !! i = 0)" by blast
  show l: "later {Cls_text} w w1" by (rule sys_file_action_later [OF a]) simp
  show "later {Cls_text} w w2"
    using b l by (auto simp: numeral_3_eq_3 Let_def dest: sys_file_action_later
        split: prod.splits if_splits)
  have "(\<forall>i < 4. spawn_rc_in w !! i = 0) \<longleftrightarrow> rc1 = 0 \<and> rc2 = 0"
    unfolding rc2 w1 by (auto simp: numeral_eq_Suc less_Suc_eq)
  then show "(\<exists>i < 4. spawn_rc_in w !! i \<noteq> 0) \<longleftrightarrow> \<not> (rc1 = 0 \<and> rc2 = 0)" by blast
  show "\<exists>s. w2 = w\<lparr>spawn_rc_in := s\<rparr>" using w1 w2 by auto
qed

lemma execute_command_effect:
  assumes "shutdown_execute_command (path # args) lg w = Some (r, w')"
  shows "later {Cls_text, Cls_wait, Cls_spawn} w w' \<and>
    (if \<exists>i < 4. spawn_rc_in w !! i \<noteq> 0
     then r = SHUTDOWN_RESULT_FAILED \<and> events Cls_spawn w' = events Cls_spawn w
     else events Cls_spawn w' = events Cls_spawn w @ [Spawned path (path # args) shutdown_envp] \<and>
       spawn_decides (shd (spawn_in w)) w r w')"
proof -
  obtain rc1 w1 where a: "sys_file_action w = (rc1, w1)" by fastforce
  obtain rc2 w2 where b: "add_redirections 3 w1 = (rc2, w2)" by fastforce
  note prep = prepare_command_effect [OF a b]
  show ?thesis
  proof (cases "rc1 = 0 \<and> rc2 = 0")
    case False
    with assms a b prep(1,2) have "r = SHUTDOWN_RESULT_FAILED \<and> later {Cls_text} w w'"
      by (auto simp: shutdown_execute_command_def intro: logger_later split: if_splits)
    moreover have "events Cls_spawn w' = events Cls_spawn w" if "later {Cls_text} w w'"
      using that by (rule later_events) simp
    ultimately show ?thesis using False prep(3) by (auto intro: later_mono)
  next
    case True
    obtain x w3 where sp: "sys_posix_spawn path (path # args) shutdown_envp w2 = (x, w3)" by fastforce
    then have w3: "x = shd (spawn_in w)" "waitpid_in w3 = waitpid_in w"
      "events Cls_spawn w3 = events Cls_spawn w @ [Spawned path (path # args) shutdown_envp]"
      using prep(4) by (auto simp: sys_posix_spawn_def emit_def events_def)
    have res: "later {Cls_text, Cls_wait} w3 w' \<and> spawn_decides x w3 r w'"
    proof (cases x)
      case (Inl e)
      with assms a b True sp show ?thesis
        by (auto simp: spawn_decides_def shutdown_execute_command_def intro: logger_later)
    next
      case (Inr pid)
      with assms a b True sp have o: "shutdown_observe_startup pid path lg w3 = Some (r, w')"
        by (simp add: shutdown_execute_command_def)
      show ?thesis
        using o observe_startup_effect [OF o] Inr
        by (cases "pid \<le> 0") (auto simp: spawn_decides_def shutdown_observe_startup_def)
    qed
    then have l4: "later {Cls_text, Cls_wait} w3 w'" and "spawn_decides x w r w'"
      using observed_cong [OF w3(2)] by (auto simp: spawn_decides_def split: sum.splits)
    moreover have "later {Cls_text, Cls_wait, Cls_spawn} w w3"
      by (rule sys_posix_spawn_later [OF sp]) (auto intro: later_mono [OF prep(2)])
    then have "later {Cls_text, Cls_wait, Cls_spawn} w w'"
      by (rule later_trans) (auto intro: later_mono [OF l4])
    moreover have "events Cls_spawn w' = events Cls_spawn w3"
      by (rule later_events [OF l4]) simp
    ultimately show ?thesis using True prep(3) w3 by simp
  qed
qed

lemma execute_command_total [total]:
  assumes "fair w"
  shows "returns (shutdown_execute_command argv lg w)"
proof -
  have "fair w2" if "add_redirections n w1 = (rc, w2)" "fair w1" for n rc w1 w2
    using add_redirections_effect [OF that(1)] that(2) by (auto simp: fair_def)
  with assms show ?thesis
    by (auto simp: shutdown_execute_command_def total dest!: fairness
        split: list.split prod.splits sum.splits)
qed

text \<open>The command lines that a shutdown may start.\<close>

definition shutdown_argv :: "bool \<Rightarrow> string list" where
  "shutdown_argv use_systemctl =
     (if use_systemctl then [''/usr/bin/systemctl'', ''poweroff'']
      else [''/sbin/shutdown'', ''-h'', ''now''])"

lemma trigger_true_off:
  assumes "shutdown_trigger cfg lg sys w = Some (r, w')"
    and "shutdown_mode cfg = SHUTDOWN_MODE_TRUE_OFF"
  obtains w1 where "later {Cls_text} w w1" "spawn_rc_in w1 = spawn_rc_in w"
    "spawn_in w1 = spawn_in w" "waitpid_in w1 = waitpid_in w"
    "shutdown_execute_command (shutdown_argv sys) lg w1 = Some (r, w')"
proof -
  define w1 where "w1 = logger_warn lg ''Triggering shutdown now''
      (logger_warn lg (''Shutdown threshold reached, mode is '' @ ''true-off'') w)"
  have "later {Cls_text} w w1" by (simp add: w1_def logger_later)
  moreover have "spawn_rc_in w1 = spawn_rc_in w" "spawn_in w1 = spawn_in w"
    "waitpid_in w1 = waitpid_in w" by (simp_all add: w1_def logger_defs)
  moreover have "shutdown_execute_command (shutdown_argv sys) lg w1 = Some (r, w')"
    using assms by (cases sys) (simp_all add: shutdown_trigger_def shutdown_should_execute_def
        Let_def shutdown_select_argv_def select_shutdown_backend_def shutdown_backend_command_def
        shutdown_argv_def w1_def)
  ultimately show thesis by (rule that)
qed

lemma trigger_other_mode:
  assumes "shutdown_trigger cfg lg sys w = Some (r, w')"
    and "shutdown_mode cfg \<noteq> SHUTDOWN_MODE_TRUE_OFF"
  shows "r = SHUTDOWN_RESULT_NO_ACTION \<and> later {Cls_text} w w'"
  using assms by (cases "shutdown_mode cfg")
    (auto simp: shutdown_trigger_def shutdown_should_execute_def Let_def intro: logger_later)

lemma shutdown_trigger_later [frame]:
  assumes "shutdown_trigger cfg lg sys w = Some (r, w')" and "later K w0 w"
    and "{Cls_text, Cls_wait, Cls_spawn} \<subseteq> K"
  shows "later K w0 w'"
proof -
  have "later {Cls_text, Cls_wait, Cls_spawn} w w'"
  proof (cases "shutdown_mode cfg = SHUTDOWN_MODE_TRUE_OFF")
    case True
    with assms(1) obtain w1 where w1: "later {Cls_text} w w1"
      "shutdown_execute_command (shutdown_argv sys) lg w1 = Some (r, w')"
      by (rule trigger_true_off)
    then have "later {Cls_text, Cls_wait, Cls_spawn} w1 w'"
      by (cases sys) (auto simp: shutdown_argv_def dest: execute_command_effect)
    with w1(1) show ?thesis by (auto intro: later_trans later_mono)
  next
    case False
    with trigger_other_mode [OF assms(1)] show ?thesis by (auto intro: later_mono)
  qed
  then show ?thesis using assms(2,3) by (auto intro: later_trans later_mono)
qed

lemma shutdown_trigger_total [total]: "fair w \<Longrightarrow> returns (shutdown_trigger cfg lg sys w)"
  by (auto simp: shutdown_trigger_def shutdown_should_execute_def Let_def total split: prod.splits)

lemma trigger_outcome:
  assumes "shutdown_trigger cfg lg sys w = Some (r, w')"
  shows "if shutdown_mode cfg \<noteq> SHUTDOWN_MODE_TRUE_OFF
    then r = SHUTDOWN_RESULT_NO_ACTION \<and> events Cls_spawn w' = events Cls_spawn w
    else r \<noteq> SHUTDOWN_RESULT_NO_ACTION \<and>
      (events Cls_spawn w' =
         events Cls_spawn w @ [Spawned (hd (shutdown_argv sys)) (shutdown_argv sys) shutdown_envp] \<or>
       r = SHUTDOWN_RESULT_FAILED \<and> events Cls_spawn w' = events Cls_spawn w)"
proof (cases "shutdown_mode cfg = SHUTDOWN_MODE_TRUE_OFF")
  case False
  with trigger_other_mode [OF assms False] show ?thesis
    by (auto intro: later_events)
next
  case True
  with assms obtain w1 where w1: "later {Cls_text} w w1"
    and x: "shutdown_execute_command (shutdown_argv sys) lg w1 = Some (r, w')"
    by (rule trigger_true_off)
  have e: "events Cls_spawn w1 = events Cls_spawn w" by (rule later_events [OF w1]) simp
  obtain path args where argv: "shutdown_argv sys = path # args"
    by (cases "shutdown_argv sys") (auto simp: shutdown_argv_def split: if_splits)
  from execute_command_effect [OF x [unfolded argv]] e True argv show ?thesis
    by (auto simp: spawn_decides_def observed_def settled_acts [THEN not_sym]
        split: if_splits sum.splits)
qed


text \<open>
  C11: triggering a shutdown starts at most one process. In the dry-run
  and log-only modes it starts none and reports that no action was taken; in the true-off mode
  the only process it can start is \<open>systemctl poweroff\<close> or \<open>shutdown -h now\<close>, under a fixed
  environment, and a success is never reported without it.
\<close>

theorem shutdown_only_in_true_off:
  assumes "shutdown_trigger cfg lg sys w = Some (r, w')"
  shows "if shutdown_mode cfg \<noteq> SHUTDOWN_MODE_TRUE_OFF
    then r = SHUTDOWN_RESULT_NO_ACTION \<and> events Cls_spawn w' = events Cls_spawn w
    else r \<noteq> SHUTDOWN_RESULT_NO_ACTION \<and>
      (events Cls_spawn w' = events Cls_spawn w @
         [Spawned (if sys then ''/usr/bin/systemctl'' else ''/sbin/shutdown'')
            (if sys then [''/usr/bin/systemctl'', ''poweroff'']
             else [''/sbin/shutdown'', ''-h'', ''now''])
            [''PATH=/usr/bin:/usr/sbin:/bin:/sbin'', ''LANG=C'', ''LC_ALL=C'']] \<or>
       r = SHUTDOWN_RESULT_FAILED \<and> events Cls_spawn w' = events Cls_spawn w)"
  using trigger_outcome [OF assms]
  by (cases sys; cases "shutdown_mode cfg = SHUTDOWN_MODE_TRUE_OFF")
    (simp_all add: shutdown_argv_def shutdown_envp_def)

theorem shutdown_only_in_true_off_witness:
  "\<exists>r w'. shutdown_trigger sample_config sample_logger True sample_world = Some (r, w') \<and>
     r \<noteq> SHUTDOWN_RESULT_NO_ACTION"
proof -
  obtain r w' where s: "shutdown_trigger sample_config sample_logger True sample_world = Some (r, w')"
    by (rule returnsE [OF shutdown_trigger_total [OF sample_world_fair]])
  then show ?thesis using shutdown_only_in_true_off [OF s] by (auto simp: sample_config_def)
qed



text \<open>
  C13: triggering a shutdown returns, whatever the kernel answers, as long
  as interrupted calls are not interrupted for ever and the clock advances: the observation of
  the child is bounded by its deadline.
\<close>

theorem shutdown_trigger_returns:
  "fair w \<Longrightarrow> \<exists>r w'. shutdown_trigger cfg lg sys w = Some (r, w')"
  by (rule returnsE [OF shutdown_trigger_total]) auto

theorem shutdown_trigger_returns_witness:
  "\<exists>r w'. shutdown_trigger sample_config sample_logger True sample_world = Some (r, w')"
  by (rule shutdown_trigger_returns) (rule sample_world_fair)

end
