(* ===== verification/MonitorState.thy ===== *)
theory MonitorState
  imports Types
begin

text \<open>
  The monitor state of \<open>src/src/monitor.c\<close>: the outstanding probe, the pending shutdown, the
  probe schedule and the watchdog clock, all with absolute deadlines in milliseconds, and the
  timeout for \<open>poll\<close> computed from them. Functions that update the state through a pointer
  and return a flag return the pair of both.

  The two countdowns (probe and shutdown) have one contract, the locale \<open>deadline_timer\<close>,
  interpreted on both.
\<close>

section \<open>State\<close>

record monitor_ping_state_t =
  ps_deadline_ms :: u64
  send_time_ms :: u64
  expected_sequence :: u16
  waiting :: bool

record monitor_shutdown_state_t =
  ss_deadline_ms :: u64
  pending :: bool

record monitor_scheduler_state_t =
  next_ping_ms :: u64
  sc_interval_ms :: u64

record monitor_watchdog_state_t =
  last_sent_ms :: u64
  wd_interval_ms :: u64

record monitor_state_t =
  ping :: monitor_ping_state_t
  shutdown :: monitor_shutdown_state_t
  scheduler :: monitor_scheduler_state_t
  watchdog :: monitor_watchdog_state_t

datatype monitor_step_result_t =
  MONITOR_STEP_CONTINUE | MONITOR_STEP_STOP | MONITOR_STEP_ERROR

section \<open>Operations\<close>

definition monitor_deadline_add_ms :: "u64 \<Rightarrow> u64 \<Rightarrow> u64" where
  "monitor_deadline_add_ms base_ms delta_ms =
     (case ckd_add base_ms delta_ms of None \<Rightarrow> UINT64_MAX | Some result \<Rightarrow> result)"

definition monitor_deadline_timeout_ms :: "u64 \<Rightarrow> u64 \<Rightarrow> int" where
  "monitor_deadline_timeout_ms now_ms deadline_ms =
     (if deadline_ms \<le> now_ms then 0
      else let remaining_ms = deadline_ms - now_ms
           in if word_of_int INT_MAX < remaining_ms then INT_MAX else int (unat remaining_ms))"

definition monitor_timeout_min :: "int \<Rightarrow> int \<Rightarrow> int" where
  "monitor_timeout_min lhs rhs = (if rhs < lhs then rhs else lhs)"

definition monitor_state_init :: "u64 \<Rightarrow> u64 \<Rightarrow> u64 \<Rightarrow> monitor_state_t" where
  "monitor_state_init now_ms interval_ms watchdog_interval_ms =
     \<lparr>ping = \<lparr>ps_deadline_ms = 0, send_time_ms = 0, expected_sequence = 0, waiting = False\<rparr>,
      shutdown = \<lparr>ss_deadline_ms = 0, pending = False\<rparr>,
      scheduler = \<lparr>next_ping_ms = now_ms, sc_interval_ms = interval_ms\<rparr>,
      watchdog = \<lparr>last_sent_ms = now_ms, wd_interval_ms = watchdog_interval_ms\<rparr>\<rparr>"

definition monitor_ping_arm ::
    "monitor_state_t \<Rightarrow> u64 \<Rightarrow> u64 \<Rightarrow> u16 \<Rightarrow> bool \<times> monitor_state_t" where
  "monitor_ping_arm state now_ms timeout seqno =
     (let deadline_ms = monitor_deadline_add_ms now_ms timeout
      in if deadline_ms = UINT64_MAX then (False, state)
         else (True, state\<lparr>ping := \<lparr>ps_deadline_ms = deadline_ms, send_time_ms = now_ms,
                                    expected_sequence = seqno, waiting = True\<rparr>\<rparr>))"

definition monitor_ping_clear :: "monitor_state_t \<Rightarrow> monitor_state_t" where
  "monitor_ping_clear state =
     state\<lparr>ping := \<lparr>ps_deadline_ms = 0, send_time_ms = 0, expected_sequence = 0, waiting = False\<rparr>\<rparr>"

definition monitor_ping_waiting :: "monitor_state_t \<Rightarrow> bool" where
  "monitor_ping_waiting state = waiting (ping state)"

definition monitor_ping_deadline_elapsed :: "monitor_state_t \<Rightarrow> u64 \<Rightarrow> bool" where
  "monitor_ping_deadline_elapsed state now_ms =
     (waiting (ping state) \<and> ps_deadline_ms (ping state) \<le> now_ms)"

definition monitor_ping_send_time_ms :: "monitor_state_t \<Rightarrow> u64" where
  "monitor_ping_send_time_ms state = send_time_ms (ping state)"

definition monitor_ping_expected_sequence :: "monitor_state_t \<Rightarrow> u16" where
  "monitor_ping_expected_sequence state = expected_sequence (ping state)"

definition monitor_shutdown_arm ::
    "monitor_state_t \<Rightarrow> u64 \<Rightarrow> u64 \<Rightarrow> bool \<times> monitor_state_t" where
  "monitor_shutdown_arm state now_ms delay_ms =
     (let deadline_ms = monitor_deadline_add_ms now_ms delay_ms
      in if deadline_ms = UINT64_MAX then (False, state)
         else (True, state\<lparr>shutdown := \<lparr>ss_deadline_ms = deadline_ms, pending = True\<rparr>\<rparr>))"

definition monitor_shutdown_clear :: "monitor_state_t \<Rightarrow> monitor_state_t" where
  "monitor_shutdown_clear state = state\<lparr>shutdown := \<lparr>ss_deadline_ms = 0, pending = False\<rparr>\<rparr>"

definition monitor_shutdown_pending :: "monitor_state_t \<Rightarrow> bool" where
  "monitor_shutdown_pending state = pending (shutdown state)"

definition monitor_shutdown_deadline_elapsed :: "monitor_state_t \<Rightarrow> u64 \<Rightarrow> bool" where
  "monitor_shutdown_deadline_elapsed state now_ms =
     (pending (shutdown state) \<and> ss_deadline_ms (shutdown state) \<le> now_ms)"

definition monitor_scheduler_due :: "monitor_state_t \<Rightarrow> u64 \<Rightarrow> bool" where
  "monitor_scheduler_due state now_ms = (next_ping_ms (scheduler state) \<le> now_ms)"

definition monitor_scheduler_advance ::
    "monitor_state_t \<Rightarrow> u64 \<Rightarrow> bool \<times> monitor_state_t" where
  "monitor_scheduler_advance state now_ms =
     (let sc = scheduler state;
          candidate0 = monitor_deadline_add_ms (next_ping_ms sc) (sc_interval_ms sc);
          candidate = (if candidate0 = UINT64_MAX \<or> candidate0 < now_ms
                       then monitor_deadline_add_ms now_ms (sc_interval_ms sc) else candidate0)
      in if candidate = UINT64_MAX then (False, state)
         else (True, state\<lparr>scheduler := sc\<lparr>next_ping_ms := candidate\<rparr>\<rparr>))"

definition monitor_watchdog_due :: "monitor_state_t \<Rightarrow> u64 \<Rightarrow> bool" where
  "monitor_watchdog_due state now_ms =
     (0 < wd_interval_ms (watchdog state) \<and>
      wd_interval_ms (watchdog state) \<le> now_ms - last_sent_ms (watchdog state))"

definition monitor_watchdog_mark_sent :: "monitor_state_t \<Rightarrow> u64 \<Rightarrow> monitor_state_t" where
  "monitor_watchdog_mark_sent state now_ms =
     state\<lparr>watchdog := (watchdog state)\<lparr>last_sent_ms := now_ms\<rparr>\<rparr>"

definition monitor_state_wait_timeout :: "monitor_state_t \<Rightarrow> u64 \<Rightarrow> int" where
  "monitor_state_wait_timeout state now_ms =
     (let t1 = (if monitor_ping_waiting state
                then monitor_deadline_timeout_ms now_ms (ps_deadline_ms (ping state))
                else monitor_deadline_timeout_ms now_ms (next_ping_ms (scheduler state)));
          t2 = (if monitor_shutdown_pending state
                then monitor_timeout_min t1
                       (monitor_deadline_timeout_ms now_ms (ss_deadline_ms (shutdown state)))
                else t1)
      in if 0 < wd_interval_ms (watchdog state) then
           let watchdog_deadline_ms =
                 monitor_deadline_add_ms (last_sent_ms (watchdog state))
                   (wd_interval_ms (watchdog state));
               watchdog_timeout_ms =
                 (if watchdog_deadline_ms = UINT64_MAX then INT_MAX
                  else monitor_deadline_timeout_ms now_ms watchdog_deadline_ms)
           in monitor_timeout_min t2 watchdog_timeout_ms
         else t2)"

lemmas monitor_defs = monitor_ping_clear_def monitor_ping_waiting_def
  monitor_ping_deadline_elapsed_def monitor_ping_send_time_ms_def
  monitor_ping_expected_sequence_def monitor_shutdown_clear_def monitor_shutdown_pending_def
  monitor_shutdown_deadline_elapsed_def monitor_scheduler_due_def monitor_watchdog_due_def
  monitor_watchdog_mark_sent_def

section \<open>Deadlines\<close>

text \<open>Adding saturates: the exact sum, or \<open>UINT64_MAX\<close>, which stands for never.\<close>

lemma unat_monitor_deadline_add_ms:
  "unat (monitor_deadline_add_ms a b) = min (unat a + unat b) (unat UINT64_MAX)"
proof (cases "ckd_add a b")
  case None
  then have "2 ^ 64 \<le> unat a + unat b" by (simp only: ckd_add_None_iff)
  then show ?thesis using None by (simp add: monitor_deadline_add_ms_def)
next
  case (Some r)
  then have "unat r = unat a + unat b" by (simp only: ckd_add_Some_iff)
  then show ?thesis
    using Some unat_u64_bound [of r] by (simp add: monitor_deadline_add_ms_def)
qed

lemma monitor_deadline_add_ms_max_iff:
  "monitor_deadline_add_ms a b = UINT64_MAX \<longleftrightarrow> unat UINT64_MAX \<le> unat a + unat b"
  by (auto simp: u64_eq_max_iff unat_monitor_deadline_add_ms)

lemma monitor_deadline_timeout_ms_eq:
  "monitor_deadline_timeout_ms now_ms deadline_ms =
     min INT_MAX (int (unat deadline_ms - unat now_ms))"
proof (cases "deadline_ms \<le> now_ms")
  case True
  then show ?thesis
    by (simp add: monitor_deadline_timeout_ms_def word_le_nat_alt INT_MAX_def)
next
  case False
  then have le: "now_ms \<le> deadline_ms" by simp
  have m: "unat (word_of_int INT_MAX :: u64) = 2147483647"
    by (simp add: unat_of_int_u64 INT_MAX_def)
  define r where "r = deadline_ms - now_ms"
  have r: "unat r = unat deadline_ms - unat now_ms" by (simp add: r_def unat_sub_u64 [OF le])
  have "monitor_deadline_timeout_ms now_ms deadline_ms =
      (if 2147483647 < unat r then INT_MAX else int (unat r))"
    using False by (simp only: monitor_deadline_timeout_ms_def Let_def word_less_nat_alt m
        r_def [symmetric] if_False)
  also have "\<dots> = min INT_MAX (int (unat r))" by (auto simp: INT_MAX_def)
  finally show ?thesis by (simp only: r)
qed

lemma monitor_timeout_min_eq [simp]: "monitor_timeout_min a b = min a b"
  by (simp add: monitor_timeout_min_def)

section \<open>The contract of a countdown\<close>

locale deadline_timer =
  fixes arm :: "'s \<Rightarrow> u64 \<Rightarrow> u64 \<Rightarrow> bool \<times> 's"
    and clear :: "'s \<Rightarrow> 's"
    and active :: "'s \<Rightarrow> bool"
    and elapsed :: "'s \<Rightarrow> u64 \<Rightarrow> bool"
    and deadline :: "'s \<Rightarrow> u64"
  assumes arm_ok: "arm s now d = (True, s') \<Longrightarrow>
      active s' \<and> unat (deadline s') = unat now + unat d \<and> deadline s' \<noteq> UINT64_MAX"
    and arm_fails: "arm s now d = (False, s') \<Longrightarrow>
      s' = s \<and> unat UINT64_MAX \<le> unat now + unat d"
    and clear_inactive: "\<not> active (clear s)"
    and elapsed_iff: "elapsed s t \<longleftrightarrow> active s \<and> deadline s \<le> t"
begin

lemma armed_elapses_exactly:
  assumes "arm s now d = (True, s')"
  shows "elapsed s' t \<longleftrightarrow> unat now + unat d \<le> unat t"
  using arm_ok [OF assms] by (simp add: elapsed_iff word_le_nat_alt)

lemma elapsed_stays: "elapsed s t \<Longrightarrow> t \<le> t' \<Longrightarrow> elapsed s t'"
  by (auto simp: elapsed_iff)

lemma cleared_never_elapses: "\<not> elapsed (clear s) t"
  by (simp add: elapsed_iff clear_inactive)

lemma arm_succeeds_iff: "fst (arm s now d) \<longleftrightarrow> unat now + unat d < unat UINT64_MAX"
proof (cases "arm s now d")
  case (Pair b s')
  then show ?thesis
    using arm_ok [of s now d s'] arm_fails [of s now d s'] unat_u64_bound [of "deadline s'"]
    by (cases b) (auto simp: u64_eq_max_iff)
qed

end

interpretation ping_timer: deadline_timer
  "\<lambda>s now d. monitor_ping_arm s now d q" monitor_ping_clear monitor_ping_waiting
  monitor_ping_deadline_elapsed "\<lambda>s. ps_deadline_ms (ping s)" for q
  by unfold_locales
    (auto simp: monitor_ping_arm_def monitor_defs Let_def monitor_deadline_add_ms_max_iff
      unat_monitor_deadline_add_ms split: if_splits)

interpretation shutdown_timer: deadline_timer
  monitor_shutdown_arm monitor_shutdown_clear monitor_shutdown_pending
  monitor_shutdown_deadline_elapsed "\<lambda>s. ss_deadline_ms (shutdown s)"
  by unfold_locales
    (auto simp: monitor_shutdown_arm_def monitor_defs Let_def monitor_deadline_add_ms_max_iff
      unat_monitor_deadline_add_ms split: if_splits)

section \<open>The probe schedule\<close>

lemma scheduler_advance_cases:
  assumes "monitor_scheduler_advance state now_ms = (ok, state')"
  obtains (advanced) nxt where "ok" "state' = state\<lparr>scheduler := (scheduler state)\<lparr>next_ping_ms := nxt\<rparr>\<rparr>"
      "now_ms \<le> nxt" "nxt \<noteq> UINT64_MAX"
      "unat nxt = unat (next_ping_ms (scheduler state)) + unat (sc_interval_ms (scheduler state)) \<or>
       unat nxt = unat now_ms + unat (sc_interval_ms (scheduler state))"
  | (overflow) "\<not> ok" "state' = state"
      "unat UINT64_MAX \<le> unat now_ms + unat (sc_interval_ms (scheduler state))"
proof -
  define sc where "sc = scheduler state"
  define c0 where "c0 = monitor_deadline_add_ms (next_ping_ms sc) (sc_interval_ms sc)"
  define c1 where "c1 = monitor_deadline_add_ms now_ms (sc_interval_ms sc)"
  define c where "c = (if c0 = UINT64_MAX \<or> c0 < now_ms then c1 else c0)"
  have adv: "monitor_scheduler_advance state now_ms =
      (if c = UINT64_MAX then (False, state)
       else (True, state\<lparr>scheduler := sc\<lparr>next_ping_ms := c\<rparr>\<rparr>))"
    by (simp add: monitor_scheduler_advance_def Let_def sc_def c_def c0_def c1_def)
  have u0: "c0 \<noteq> UINT64_MAX \<Longrightarrow> unat c0 = unat (next_ping_ms sc) + unat (sc_interval_ms sc)"
    by (simp add: c0_def monitor_deadline_add_ms_max_iff unat_monitor_deadline_add_ms)
  have u1: "c1 \<noteq> UINT64_MAX \<Longrightarrow> unat c1 = unat now_ms + unat (sc_interval_ms sc)"
    by (simp add: c1_def monitor_deadline_add_ms_max_iff unat_monitor_deadline_add_ms)
  show thesis
  proof (cases "c = UINT64_MAX")
    case True
    then have "c1 = UINT64_MAX" by (auto simp: c_def split: if_splits)
    then have "unat UINT64_MAX \<le> unat now_ms + unat (sc_interval_ms sc)"
      by (simp add: c1_def monitor_deadline_add_ms_max_iff)
    then show thesis using True assms overflow unfolding adv sc_def by simp
  next
    case False
    have "now_ms \<le> c" and "unat c = unat (next_ping_ms sc) + unat (sc_interval_ms sc) \<or>
        unat c = unat now_ms + unat (sc_interval_ms sc)"
      using False u0 u1 by (auto simp: c_def word_le_nat_alt word_less_nat_alt split: if_splits)
    then show thesis using False assms advanced [of c] unfolding adv sc_def by auto
  qed
qed

section \<open>The watchdog clock\<close>

lemma watchdog_due_iff:
  assumes "last_sent_ms (watchdog state) \<le> now_ms"
  shows "monitor_watchdog_due state now_ms \<longleftrightarrow>
     0 < unat (wd_interval_ms (watchdog state)) \<and>
     unat (last_sent_ms (watchdog state)) + unat (wd_interval_ms (watchdog state)) \<le> unat now_ms"
  using assms by (auto simp: monitor_watchdog_due_def word_le_nat_alt word_less_nat_alt unat_sub_u64)

section \<open>The poll timeout\<close>

text \<open>
  The deadlines the loop waits for: the reply's or, without a probe, the next probe's; the
  shutdown's when one is pending; the watchdog's when it is on and its deadline is
  representable.
\<close>

definition active_deadlines :: "monitor_state_t \<Rightarrow> nat list" where
  "active_deadlines s =
     (if waiting (ping s) then unat (ps_deadline_ms (ping s))
      else unat (next_ping_ms (scheduler s))) #
     (if pending (shutdown s) then [unat (ss_deadline_ms (shutdown s))] else []) @
     (let d = unat (last_sent_ms (watchdog s)) + unat (wd_interval_ms (watchdog s))
      in if 0 < wd_interval_ms (watchdog s) \<and> d < unat UINT64_MAX then [d] else [])"

definition remaining :: "u64 \<Rightarrow> nat \<Rightarrow> int" where
  "remaining now_ms d = min INT_MAX (int (d - unat now_ms))"

lemma remaining_le_max: "remaining now_ms d \<le> INT_MAX"
  by (simp add: remaining_def)

lemma watchdog_remaining:
  fixes wd
  defines "d \<equiv> unat (last_sent_ms wd) + unat (wd_interval_ms wd)"
  defines "dl \<equiv> monitor_deadline_add_ms (last_sent_ms wd) (wd_interval_ms wd)"
  shows "(if dl = UINT64_MAX then INT_MAX else monitor_deadline_timeout_ms now_ms dl) =
     (if d < unat UINT64_MAX then remaining now_ms d else INT_MAX)"
  unfolding d_def dl_def
  by (auto simp: monitor_deadline_add_ms_max_iff monitor_deadline_timeout_ms_eq remaining_def
      unat_monitor_deadline_add_ms simp del: unat_UINT64_MAX)

lemma wait_timeout_is_minimum:
  "monitor_state_wait_timeout state now_ms =
     Min (set (map (remaining now_ms) (active_deadlines state)))"
proof -
  define h where "h = (if waiting (ping state) then unat (ps_deadline_ms (ping state))
    else unat (next_ping_ms (scheduler state)))"
  define p where "p = pending (shutdown state)"
  define sd where "sd = unat (ss_deadline_ms (shutdown state))"
  define d where "d = unat (last_sent_ms (watchdog state)) + unat (wd_interval_ms (watchdog state))"
  define on where "on \<longleftrightarrow> 0 < wd_interval_ms (watchdog state)"
  define t2 where "t2 = (if p then min (remaining now_ms h) (remaining now_ms sd)
    else remaining now_ms h)"
  have "t2 \<le> INT_MAX" by (simp add: t2_def min.coboundedI1 remaining_le_max)
  then have "min t2 INT_MAX = t2" by simp
  moreover have "monitor_state_wait_timeout state now_ms =
      (if on then min t2 (if d < unat UINT64_MAX then remaining now_ms d else INT_MAX) else t2)"
    unfolding monitor_state_wait_timeout_def Let_def t2_def h_def p_def sd_def d_def on_def
      monitor_timeout_min_eq monitor_ping_waiting_def monitor_shutdown_pending_def
    unfolding watchdog_remaining
    unfolding monitor_deadline_timeout_ms_eq remaining_def
    by simp
  moreover have "active_deadlines state =
      h # (if p then [sd] else []) @ (if on \<and> d < unat UINT64_MAX then [d] else [])"
    by (simp add: active_deadlines_def h_def p_def sd_def d_def on_def Let_def del: unat_UINT64_MAX)
  ultimately show ?thesis
    by (cases p; cases "on \<and> d < unat UINT64_MAX")
      (auto simp: t2_def min.assoc simp del: unat_UINT64_MAX)
qed

lemma active_deadlines_nonempty: "active_deadlines s \<noteq> []"
  by (simp add: active_deadlines_def)

lemma wait_timeout_bounds:
  "0 \<le> monitor_state_wait_timeout s now_ms" "monitor_state_wait_timeout s now_ms \<le> INT_MAX"
proof -
  have "monitor_state_wait_timeout s now_ms \<in> set (map (remaining now_ms) (active_deadlines s))"
    unfolding wait_timeout_is_minimum by (rule Min_in) (simp_all add: active_deadlines_nonempty)
  then show "0 \<le> monitor_state_wait_timeout s now_ms" "monitor_state_wait_timeout s now_ms \<le> INT_MAX"
    by (auto simp: remaining_def INT_MAX_def)
qed

lemma wait_timeout_le_deadline:
  assumes "d \<in> set (active_deadlines s)"
  shows "monitor_state_wait_timeout s now_ms \<le> int (d - unat now_ms)"
proof -
  have "monitor_state_wait_timeout s now_ms \<le> remaining now_ms d"
    unfolding wait_timeout_is_minimum using assms by (intro Min_le) simp_all
  also have "\<dots> \<le> int (d - unat now_ms)" by (simp add: remaining_def)
  finally show ?thesis .
qed

lemma wait_timeout_0_iff:
  "monitor_state_wait_timeout s now_ms = 0 \<longleftrightarrow> (\<exists>d\<in>set (active_deadlines s). d \<le> unat now_ms)"
proof
  assume "monitor_state_wait_timeout s now_ms = 0"
  moreover have "monitor_state_wait_timeout s now_ms \<in> set (map (remaining now_ms) (active_deadlines s))"
    unfolding wait_timeout_is_minimum by (rule Min_in) (simp_all add: active_deadlines_nonempty)
  ultimately show "\<exists>d\<in>set (active_deadlines s). d \<le> unat now_ms"
    by (auto simp: remaining_def INT_MAX_def min_def split: if_splits)
next
  assume "\<exists>d\<in>set (active_deadlines s). d \<le> unat now_ms"
  then obtain d where "d \<in> set (active_deadlines s)" "d \<le> unat now_ms" by blast
  then have "monitor_state_wait_timeout s now_ms \<le> 0"
    using wait_timeout_le_deadline [of d s now_ms] by simp
  then show "monitor_state_wait_timeout s now_ms = 0"
    using wait_timeout_bounds(1) [of s now_ms] by simp
qed

section \<open>Well-formed states\<close>

text \<open>
  Sequence number 0 marks the absence of a probe, and a cleared countdown holds no stale
  deadline.
\<close>

definition monitor_state_wf :: "monitor_state_t \<Rightarrow> bool" where
  "monitor_state_wf s \<longleftrightarrow>
     (waiting (ping s) \<longleftrightarrow> expected_sequence (ping s) \<noteq> 0) \<and>
     (\<not> waiting (ping s) \<longrightarrow> ps_deadline_ms (ping s) = 0 \<and> send_time_ms (ping s) = 0) \<and>
     (\<not> pending (shutdown s) \<longrightarrow> ss_deadline_ms (shutdown s) = 0)"

lemma monitor_state_wf_init: "monitor_state_wf (monitor_state_init now iv wd)"
  by (simp add: monitor_state_wf_def monitor_state_init_def)

lemma monitor_state_wf_steps:
  assumes "monitor_state_wf s"
  shows "monitor_state_wf (monitor_ping_clear s)" and "monitor_state_wf (monitor_shutdown_clear s)"
    and "monitor_state_wf (monitor_watchdog_mark_sent s now)"
    and "q \<noteq> 0 \<Longrightarrow> monitor_state_wf (snd (monitor_ping_arm s now d q))"
    and "monitor_state_wf (snd (monitor_shutdown_arm s now d))"
    and "monitor_state_wf (snd (monitor_scheduler_advance s now))"
  using assms
  by (auto simp: monitor_state_wf_def monitor_defs monitor_ping_arm_def monitor_shutdown_arm_def
      monitor_scheduler_advance_def Let_def)

section \<open>What the monitor state guarantees\<close>

text \<open>
  C32: arming a countdown (the reply's or the shutdown's) succeeds exactly
  when its end is below \<open>UINT64_MAX\<close>; it then elapses exactly at the start plus the delay, without
  wrap-around. A failure leaves the state as it was, and a cleared countdown never elapses.
\<close>

theorem countdown_elapses_exactly:
  assumes "monitor_ping_arm s now_ms d q = (ok, s')" and "monitor_shutdown_arm s now_ms d = (ok', s'')"
  shows "(ok \<longleftrightarrow> unat now_ms + unat d < 2 ^ 64 - 1) \<and> (ok' \<longleftrightarrow> unat now_ms + unat d < 2 ^ 64 - 1) \<and>
    (if ok
     then (monitor_ping_deadline_elapsed s' t \<longleftrightarrow> unat now_ms + unat d \<le> unat t) \<and>
       (monitor_shutdown_deadline_elapsed s'' t \<longleftrightarrow> unat now_ms + unat d \<le> unat t)
     else s' = s \<and> s'' = s) \<and>
    \<not> monitor_ping_deadline_elapsed (monitor_ping_clear s) t \<and>
    \<not> monitor_shutdown_deadline_elapsed (monitor_shutdown_clear s) t"
  using assms ping_timer.arm_succeeds_iff [of s now_ms d q] shutdown_timer.arm_succeeds_iff [of s now_ms d]
    ping_timer.armed_elapses_exactly [of s now_ms d q s' t]
    shutdown_timer.armed_elapses_exactly [of s now_ms d s'' t]
    ping_timer.arm_fails [of s now_ms d q s'] shutdown_timer.arm_fails [of s now_ms d s'']
    ping_timer.cleared_never_elapses [of s t] shutdown_timer.cleared_never_elapses [of s t]
  by (cases ok; cases ok') auto

theorem countdown_elapses_exactly_witness:
  "monitor_shutdown_deadline_elapsed
     (snd (monitor_shutdown_arm (monitor_state_init 5 1000 0) 5 60000)) 60005"
proof -
  obtain ok s' ok' s'' where
    a: "monitor_ping_arm (monitor_state_init 5 1000 0) 5 60000 1 = (ok, s')" and
    b: "monitor_shutdown_arm (monitor_state_init 5 1000 0) 5 60000 = (ok', s'')"
    by (metis prod.exhaust)
  from countdown_elapses_exactly [OF a b, of 60005] b show ?thesis by simp
qed

text \<open>
  C33: the timeout for \<open>poll\<close> is the time to the nearest active
  deadline (the reply's, or without an outstanding probe the next probe's; a pending shutdown's;
  the watchdog's, if it is representable), 0 for one that has passed, and at most \<open>INT_MAX\<close>.
\<close>

theorem poll_timeout_is_nearest_deadline:
  "monitor_state_wait_timeout s now_ms =
     Min ((\<lambda>d. min INT_MAX (int (d - unat now_ms))) ` set (active_deadlines s))"
  using wait_timeout_is_minimum [of s now_ms] by (simp add: remaining_def)


end
