(* ===== verification/Metrics.thy ===== *)
theory Metrics
  imports Logger
begin

text \<open>
  The statistics of \<open>src/src/monitor.c\<close>: counters that wrap at 64 bits and latencies in
  \<open>double\<close>, with -1 for a minimum or maximum not yet recorded. The reference is the list of
  the outcomes recorded so far: while the counters have not wrapped and the latencies are
  integers whose sum a \<open>double\<close> holds exactly, the record is the summary of that list.
\<close>

section \<open>Operations\<close>

definition metrics_init :: "world \<Rightarrow> metrics_t \<times> world" where
  "metrics_init w =
     (let (now_ms, w1) = get_monotonic_ms w
      in (\<lparr>total_pings = 0, successful_pings = 0, failed_pings = 0, total_latency = 0,
          min_latency = - 1, max_latency = - 1, start_time_ms = now_ms\<rparr>, w1))"

definition metrics_record_success :: "metrics_t \<Rightarrow> double \<Rightarrow> metrics_t" where
  "metrics_record_success m latency =
     (let l = (if latency < 0 then 0 else latency)
      in m\<lparr>total_pings := total_pings m + 1,
          successful_pings := successful_pings m + 1,
          total_latency := dbl_add (total_latency m) l,
          min_latency := (if min_latency m < 0 \<or> l < min_latency m then l else min_latency m),
          max_latency := (if max_latency m < 0 \<or> max_latency m < l then l else max_latency m)\<rparr>)"

definition metrics_record_failure :: "metrics_t \<Rightarrow> metrics_t" where
  "metrics_record_failure m =
     m\<lparr>total_pings := total_pings m + 1, failed_pings := failed_pings m + 1\<rparr>"

definition metrics_success_rate :: "metrics_t \<Rightarrow> double" where
  "metrics_success_rate m =
     (if total_pings m = 0 then 0
      else dbl_mul (dbl_div (dbl_of_u64 (successful_pings m)) (dbl_of_u64 (total_pings m))) 100)"

definition metrics_avg_latency :: "metrics_t \<Rightarrow> double" where
  "metrics_avg_latency m =
     (if successful_pings m = 0 then 0
      else dbl_div (total_latency m) (dbl_of_u64 (successful_pings m)))"

definition metrics_uptime_seconds :: "metrics_t \<Rightarrow> world \<Rightarrow> u64 \<times> world" where
  "metrics_uptime_seconds m w =
     (let (now_ms, w1) = get_monotonic_ms w
      in (if now_ms = UINT64_MAX \<or> start_time_ms m = UINT64_MAX \<or> now_ms < start_time_ms m then 0
          else (now_ms - start_time_ms m) div OPENUPS_MS_PER_SEC, w1))"

lemma metrics_init_later [frame]:
  "metrics_init w = (m, w') \<Longrightarrow> later K w0 w \<Longrightarrow> later K w0 w'"
  by (auto simp: metrics_init_def split: prod.splits dest: get_monotonic_ms_later [of _ _ _ K w0])

lemma metrics_uptime_seconds_later [frame]:
  "metrics_uptime_seconds m w = (s, w') \<Longrightarrow> later K w0 w \<Longrightarrow> later K w0 w'"
  by (auto simp: metrics_uptime_seconds_def split: prod.splits
      dest: get_monotonic_ms_later [of _ _ _ K w0])

section \<open>The record as the summary of a history\<close>

text \<open>An outcome is the latency of a reply in milliseconds, or \<open>None\<close> for a lost probe.\<close>

type_synonym outcome = "nat option"

definition metrics_step :: "outcome \<Rightarrow> metrics_t \<Rightarrow> metrics_t" where
  "metrics_step x m =
     (case x of None \<Rightarrow> metrics_record_failure m | Some l \<Rightarrow> metrics_record_success m (of_nat l))"

definition latencies :: "outcome list \<Rightarrow> nat list" where
  "latencies hs = List.map_filter id hs"

lemma latencies_simps [simp]:
  "latencies [] = []" "latencies (hs @ [None]) = latencies hs"
  "latencies (hs @ [Some l]) = latencies hs @ [l]"
  by (simp_all add: latencies_def List.map_filter_def)

lemma length_latencies: "length (latencies hs) \<le> length hs"
  by (simp add: latencies_def List.map_filter_def)

definition summarises :: "metrics_t \<Rightarrow> outcome list \<Rightarrow> bool" where
  "summarises m hs \<longleftrightarrow>
     unat (total_pings m) = length hs \<and>
     unat (successful_pings m) = length (latencies hs) \<and>
     unat (failed_pings m) = length hs - length (latencies hs) \<and>
     total_latency m = of_nat (sum_list (latencies hs)) \<and>
     min_latency m = (if latencies hs = [] then - 1 else of_nat (Min (set (latencies hs)))) \<and>
     max_latency m = (if latencies hs = [] then - 1 else of_nat (Max (set (latencies hs))))"

lemma unat_Suc_u64: "unat (x :: u64) + 1 < 2 ^ 64 \<Longrightarrow> unat (x + 1) = unat x + 1"
  by (simp add: unat_word_ariths)

lemma summarises_failure:
  assumes "summarises m hs" and "length hs + 1 < 2 ^ 64"
  shows "summarises (metrics_record_failure m) (hs @ [None])"
proof -
  have "length hs - length (latencies hs) + 1 < 2 ^ 64" using assms(2) by simp
  then show ?thesis
    using assms length_latencies [of hs]
    by (auto simp: summarises_def metrics_record_failure_def unat_Suc_u64)
qed

lemma summarises_success:
  assumes "summarises m hs" and "length hs + 1 < 2 ^ 64"
    and "sum_list (latencies hs) + l \<le> 2 ^ 53"
  shows "summarises (metrics_record_success m (of_nat l)) (hs @ [Some l])"
proof -
  have "length (latencies hs) + 1 < 2 ^ 64" using assms(2) length_latencies [of hs] by simp
  moreover have "dbl (of_nat (sum_list (latencies hs)) + of_nat l) =
      of_nat (sum_list (latencies hs) + l)"
    using dbl_of_nat [OF assms(3)] by simp
  moreover have "Min (set (latencies hs @ [l])) = (if latencies hs = [] then l
      else min l (Min (set (latencies hs))))"
    and "Max (set (latencies hs @ [l])) = (if latencies hs = [] then l
      else max l (Max (set (latencies hs))))"
    by simp_all
  moreover define mn mx where "mn = Min (set (latencies hs))" and "mx = Max (set (latencies hs))"
  ultimately show ?thesis
    using assms length_latencies [of hs]
    by (auto simp: summarises_def metrics_record_success_def unat_Suc_u64 dbl_add_def Let_def
        min_def max_def not_less mn_def [symmetric] mx_def [symmetric] simp del: set_append)
qed

lemma summarises_fold:
  assumes "summarises m []" and "length hs < 2 ^ 64" and "sum_list (latencies hs) \<le> 2 ^ 53"
  shows "summarises (fold metrics_step hs m) hs"
  using assms(2,3)
proof (induction hs rule: rev_induct)
  case Nil
  then show ?case using assms(1) by simp
next
  case (snoc x hs)
  have "summarises (fold metrics_step hs m) hs"
    using snoc by (cases x) (auto intro: snoc.IH)
  then have "summarises (metrics_step x (fold metrics_step hs m)) (hs @ [x])"
    using snoc.prems summarises_failure summarises_success
    by (cases x) (auto simp: metrics_step_def)
  then show ?case by simp
qed

lemma summarises_init: "summarises (fst (metrics_init w)) []"
  by (simp add: summarises_def metrics_init_def split: prod.splits)

section \<open>Rates and averages\<close>

lemma dbl_of_u64_nonneg [simp]: "0 \<le> dbl_of_u64 n"
  by (simp add: dbl_of_u64_def dbl_nonneg)

lemma dbl_of_u64_pos [simp]: "0 < dbl_of_u64 n \<longleftrightarrow> n \<noteq> 0"
  by (auto simp: dbl_of_u64_def dbl_pos_iff unat_gt_0)

lemma dbl_of_u64_mono: "a \<le> b \<Longrightarrow> dbl_of_u64 a \<le> dbl_of_u64 b"
  unfolding dbl_of_u64_def by (intro dbl_mono) (simp_all add: word_le_nat_alt)

lemma dbl_numerals [simp]: "dbl 1 = 1" "dbl 100 = 100"
  using dbl_of_nat [of 1] dbl_of_nat [of 100] by simp_all

lemma success_rate_range:
  assumes "successful_pings m \<le> total_pings m"
  shows "0 \<le> metrics_success_rate m" and "metrics_success_rate m \<le> 100"
proof -
  define s t where "s = dbl_of_u64 (successful_pings m)" and "t = dbl_of_u64 (total_pings m)"
  have st: "0 \<le> s" "s \<le> t" using assms by (simp_all add: s_def t_def dbl_of_u64_mono)
  have "0 \<le> dbl (s / t)" using st by (intro dbl_nonneg) simp
  moreover have "dbl (s / t) \<le> dbl 1"
    using st by (intro dbl_mono) (auto simp: divide_le_eq_1)
  ultimately have q: "0 \<le> dbl (s / t) * 100" "dbl (s / t) * 100 \<le> 100" by simp_all
  have "0 \<le> dbl (dbl (s / t) * 100)" using q(1) by (rule dbl_nonneg)
  moreover have "dbl (dbl (s / t) * 100) \<le> dbl 100" using q by (rule dbl_mono)
  ultimately show "0 \<le> metrics_success_rate m" "metrics_success_rate m \<le> 100"
    by (simp_all add: metrics_success_rate_def dbl_mul_def dbl_div_def s_def t_def)
qed

lemma sum_list_bounds:
  fixes xs :: "nat list"
  assumes "xs \<noteq> []"
  shows "length xs * Min (set xs) \<le> sum_list xs" and "sum_list xs \<le> length xs * Max (set xs)"
proof -
  have "length xs * m \<le> sum_list xs" if "\<forall>x\<in>set xs. m \<le> x" for m
    using that by (induction xs) auto
  moreover have "sum_list xs \<le> length xs * m" if "\<forall>x\<in>set xs. x \<le> m" for m
    using that by (induction xs) auto
  ultimately show "length xs * Min (set xs) \<le> sum_list xs" "sum_list xs \<le> length xs * Max (set xs)"
    by simp_all
qed

lemma member_le_sum_list_nat: "(x :: nat) \<in> set xs \<Longrightarrow> x \<le> sum_list xs"
  by (induction xs) auto

lemma avg_latency_range:
  assumes "summarises m hs" and "latencies hs \<noteq> []" and "sum_list (latencies hs) \<le> 2 ^ 53"
    and "length hs \<le> 2 ^ 53"
  shows "min_latency m \<le> metrics_avg_latency m" and "metrics_avg_latency m \<le> max_latency m"
proof -
  define ls where "ls = latencies hs"
  define n where "n = length ls"
  have n: "0 < n" "n \<le> 2 ^ 53"
    using assms(2,4) length_latencies [of hs] by (auto simp: n_def ls_def)
  have avg: "metrics_avg_latency m = dbl (of_nat (sum_list ls) / of_nat n)"
    using assms(1) n by (auto simp: metrics_avg_latency_def summarises_def dbl_div_def
        dbl_of_u64_def n_def ls_def)
  have ls: "ls \<noteq> []" using assms(2) by (simp add: ls_def)
  have mem: "Min (set ls) \<in> set ls" "Max (set ls) \<in> set ls" using ls by auto
  then have ex: "Min (set ls) \<le> 2 ^ 53" "Max (set ls) \<le> 2 ^ 53"
    using assms(3) member_le_sum_list_nat unfolding ls_def by (meson order_trans)+
  have "real n * real (Min (set ls)) \<le> real (sum_list ls)"
    "real (sum_list ls) \<le> real n * real (Max (set ls))"
    using sum_list_bounds [OF ls] unfolding n_def of_nat_mult [symmetric] of_nat_le_iff by auto
  then have "of_nat (Min (set ls)) \<le> real (sum_list ls) / of_nat n"
    "real (sum_list ls) / of_nat n \<le> of_nat (Max (set ls))"
    using n by (simp_all add: field_simps)
  then have "dbl (of_nat (Min (set ls))) \<le> metrics_avg_latency m"
    "metrics_avg_latency m \<le> dbl (of_nat (Max (set ls)))"
    unfolding avg by (auto intro!: dbl_mono)
  then show "min_latency m \<le> metrics_avg_latency m" "metrics_avg_latency m \<le> max_latency m"
    using assms(1) ls ex by (simp_all add: summarises_def ls_def)
qed

section \<open>What the statistics guarantee\<close>

text \<open>
  C35: after any sequence of outcomes, fewer than 2 to the 64 and with
  latencies that sum to at most 2 to the 53 ms, the record started by \<open>metrics_init\<close> holds
  exactly the number of probes, of replies and of losses, and the sum, minimum and maximum of the
  latencies; neither the counters nor the floating-point sum has lost anything.
\<close>

theorem metrics_summarise_history:
  assumes "length hs < 2 ^ 64" and "sum_list (latencies hs) \<le> 2 ^ 53"
  shows "summarises (fold metrics_step hs (fst (metrics_init w))) hs"
  by (rule summarises_fold [OF summarises_init assms])

theorem metrics_summarise_history_witness:
  "\<forall>w. summarises (fold metrics_step [Some 12, None, Some 3] (fst (metrics_init w)))
     [Some 12, None, Some 3]"
  by (rule allI, rule metrics_summarise_history) (simp_all add: latencies_def List.map_filter_def)

text \<open>
  C36: for a record that summarises a history of at most 2 to the 53 probes
  with a reply, the printed success rate lies between 0 and 100 and the printed average latency
  between the minimum and the maximum, rounding included.
\<close>

theorem metrics_rates_bounded:
  assumes "summarises m hs" and "latencies hs \<noteq> []" and "sum_list (latencies hs) \<le> 2 ^ 53"
    and "length hs \<le> 2 ^ 53"
  shows "0 \<le> metrics_success_rate m \<and> metrics_success_rate m \<le> 100 \<and>
    min_latency m \<le> metrics_avg_latency m \<and> metrics_avg_latency m \<le> max_latency m"
proof -
  have "successful_pings m \<le> total_pings m"
    using assms(1) length_latencies [of hs] by (simp add: summarises_def word_le_nat_alt)
  then show ?thesis using success_rate_range avg_latency_range [OF assms] by blast
qed

theorem metrics_rates_bounded_witness:
  "\<forall>w. metrics_success_rate (fold metrics_step [Some 12, None, Some 3] (fst (metrics_init w))) \<le> 100"
proof
  fix w
  have "summarises (fold metrics_step [Some 12, None, Some 3] (fst (metrics_init w)))
      [Some 12, None, Some 3]"
    by (rule summarises_fold [OF summarises_init]) (simp_all add: latencies_def List.map_filter_def)
  from metrics_rates_bounded [OF this]
  show "metrics_success_rate (fold metrics_step [Some 12, None, Some 3] (fst (metrics_init w))) \<le> 100"
    by (simp add: latencies_def List.map_filter_def)
qed

end
