(* ===== verification/Icmp.thy ===== *)
theory Icmp
  imports Samples
begin

text \<open>
  \<open>src/src/icmp.c\<close>: the checksum, the echo request, the parsers of the replies, the kernel
  filters and the raw socket. The headers are lists of bytes; a read outside the bytes that were
  received is \<open>None\<close>, and the parsers are proved to make none.
\<close>

section \<open>Bytes and 16-bit words\<close>

definition hi8 :: "u16 \<Rightarrow> u8" where "hi8 x = word_of_nat (unat x div 256)"
definition lo8 :: "u16 \<Rightarrow> u8" where "lo8 x = word_of_nat (unat x mod 256)"
definition be16 :: "u8 \<Rightarrow> u8 \<Rightarrow> u16" where "be16 a b = 256 * ucast a + ucast b"

text \<open>A \<open>uint16_t\<close> in memory, in the byte order of the host, and in network order.\<close>

definition load16 :: "bool \<Rightarrow> u8 \<Rightarrow> u8 \<Rightarrow> u16" where
  "load16 le a b = (if le then be16 b a else be16 a b)"

definition store16 :: "bool \<Rightarrow> u16 \<Rightarrow> u8 list" where
  "store16 le x = (if le then [lo8 x, hi8 x] else [hi8 x, lo8 x])"

definition store16_be :: "u16 \<Rightarrow> u8 list" where
  "store16_be x = [hi8 x, lo8 x]"

lemma unat_u8_bound: "unat (x :: u8) < 256"
  using unsigned_less [of x] by simp

lemma unat_u16_bound: "unat (x :: u16) < 65536"
  using unsigned_less [of x] by simp

lemma unat_be16 [word_nat]: "unat (be16 a b) = 256 * unat a + unat b"
  using unat_u8_bound [of a] unat_u8_bound [of b]
  by (simp add: be16_def unat_word_ariths unsigned_ucast_eq take_bit_eq_mod)

lemma unat_hi8 [word_nat]: "unat (hi8 x) = unat x div 256"
  using less_mult_imp_div_less [of "unat x" 256 256] unat_u16_bound [of x]
  by (simp add: hi8_def unat_of_nat take_bit_eq_mod)

lemma unat_lo8 [word_nat]: "unat (lo8 x) = unat x mod 256"
  by (simp add: lo8_def unat_of_nat take_bit_eq_mod)

lemma be16_parts [simp]: "be16 (hi8 x) (lo8 x) = x"
  by (simp add: word_eq_iff_unsigned [where ?'a = nat] word_nat)

lemma parts_be16 [simp]: "hi8 (be16 a b) = a" "lo8 (be16 a b) = b"
  using unat_u8_bound [of b]
  by (simp_all add: word_eq_iff_unsigned [where ?'a = nat] word_nat)

lemma load16_store16: "store16 le x = [a, b] \<Longrightarrow> load16 le a b = x"
  by (auto simp: store16_def load16_def split: if_splits)

section \<open>The checksum\<close>

fun sum_words :: "bool \<Rightarrow> u8 list \<Rightarrow> u32 \<Rightarrow> u32" where
  "sum_words le (a # b # rest) acc = sum_words le rest (acc + ucast (load16 le a b))"
| "sum_words le [a] acc = acc + ucast a"
| "sum_words le [] acc = acc"

lemma unat_low_half: "unat (w AND 0xFFFF :: u32) = unat w mod 65536"
proof -
  have "w AND 0xFFFF = take_bit 16 w" by (simp add: take_bit_eq_mask mask_eq_exp_minus_1)
  then have "unat (w AND 0xFFFF) = unat (take_bit 16 w)" by simp
  also have "\<dots> = take_bit 16 (unat w)" by (simp only: unsigned_take_bit_eq)
  finally show ?thesis by (simp add: take_bit_eq_mod)
qed

lemma unat_high_half: "unat (drop_bit 16 w :: u32) = unat w div 65536"
  by (simp add: drop_bit_eq_div unat_div)

lemma unat_u32_bound: "unat (x :: u32) < 4294967296"
  using unsigned_less [of x] by simp

lemma unat_fold_step:
  "unat ((w AND 0xFFFF) + drop_bit 16 w :: u32) = unat w mod 65536 + unat w div 65536"
proof -
  have "unat w div 65536 < 65536" "unat w mod 65536 < 65536"
    using unat_u32_bound [of w] by (simp_all add: less_mult_imp_div_less)
  then show ?thesis by (simp add: unat_word_ariths unat_low_half unat_high_half)
qed

text \<open>\<open>while (sum >> 16) sum = (sum & 0xFFFF) + (sum >> 16)\<close>\<close>

function fold_carry :: "u32 \<Rightarrow> u32" where
  "fold_carry acc =
     (if drop_bit 16 acc \<noteq> 0 then fold_carry ((acc AND 0xFFFF) + drop_bit 16 acc) else acc)"
  by auto
termination
proof (relation "measure unat")
  fix acc :: u32
  assume "drop_bit 16 acc \<noteq> 0"
  then have "unat acc div 65536 \<noteq> 0"
    using unat_high_half [of acc] by (metis unat_eq_zero)
  then have "unat acc mod 65536 + unat acc div 65536 < unat acc"
    using mult_div_mod_eq [of 65536 "unat acc"] by linarith
  then show "((acc AND 0xFFFF) + drop_bit 16 acc, acc) \<in> measure unat"
    by (simp add: unat_fold_step)
qed simp

declare fold_carry.simps [simp del]

definition calculate_checksum :: "bool \<Rightarrow> u8 list \<Rightarrow> u16" where
  "calculate_checksum le data = ucast (NOT (fold_carry (sum_words le data 0)))"

section \<open>The echo request\<close>

definition SEND_BUF_SIZE :: nat where "SEND_BUF_SIZE = 256"
definition ICMP_HDR_LEN :: nat where "ICMP_HDR_LEN = 8"
definition IP_HDR_LEN :: nat where "IP_HDR_LEN = 20"
definition RECV_BUF_SIZE :: nat where "RECV_BUF_SIZE = 1500"
definition ICMP_ECHO :: u8 where "ICMP_ECHO = 8"
definition ICMP_ECHOREPLY :: u8 where "ICMP_ECHOREPLY = 0"
definition ICMP6_ECHO_REQUEST :: u8 where "ICMP6_ECHO_REQUEST = 128"
definition ICMP6_ECHO_REPLY :: u8 where "ICMP6_ECHO_REPLY = 129"

lemmas icmp_consts = SEND_BUF_SIZE_def ICMP_HDR_LEN_def IP_HDR_LEN_def RECV_BUF_SIZE_def
  ICMP_ECHO_def ICMP_ECHOREPLY_def ICMP6_ECHO_REQUEST_def ICMP6_ECHO_REPLY_def
  IPPROTO_ICMP_def IPPROTO_ICMPV6_def

text \<open>The error message, or \<open>None\<close> if the arguments are accepted.\<close>

definition icmp_validate_send_args :: "icmp_pinger_t \<Rightarrow> sockaddr_storage \<Rightarrow> string option" where
  "icmp_validate_send_args p dest =
     (if sockfd p < 0 then Some (snprintf_buf ERROR_MSG_SIZE ''ICMP socket is not initialized'')
      else if ss_family dest \<noteq> AF_INET \<and> ss_family dest \<noteq> AF_INET6 then
        Some (snprintf_buf ERROR_MSG_SIZE
          (''Unsupported address family: '' @ show_int (ss_family dest)))
      else None)"

definition next_sequence :: "icmp_pinger_t \<Rightarrow> u16 \<times> icmp_pinger_t" where
  "next_sequence p =
     (let s = sequence p + 1; s' = (if s = 0 then 1 else s) in (s', p\<lparr>sequence := s'\<rparr>))"

text \<open>The first bytes of the send buffer are overwritten by a header.\<close>

definition put_header :: "u8 list \<Rightarrow> u8 list \<Rightarrow> u8 list" where
  "put_header hdr buf = hdr @ drop (length hdr) buf"

definition echo_header :: "u8 \<Rightarrow> u8 list \<Rightarrow> u16 \<Rightarrow> u16 \<Rightarrow> u8 list" where
  "echo_header ty cksum ident seq = [ty, 0] @ cksum @ store16_be ident @ store16_be seq"

text \<open>The send buffer with the header that \<open>icmp_pinger_send_echo\<close> writes.\<close>

definition echo_buffer :: "bool \<Rightarrow> int \<Rightarrow> u16 \<Rightarrow> u16 \<Rightarrow> nat \<Rightarrow> u8 list \<Rightarrow> u8 list" where
  "echo_buffer le fam ident seq packet_len buf =
     (if fam = AF_INET6 then put_header (echo_header ICMP6_ECHO_REQUEST [0, 0] ident seq) buf
      else
        let blank = put_header (echo_header ICMP_ECHO [0, 0] ident seq) buf;
            checksum = calculate_checksum le (take packet_len blank)
        in put_header (echo_header ICMP_ECHO (store16 le checksum) ident seq) buf)"

definition icmp_pinger_send_echo ::
    "icmp_pinger_t \<Rightarrow> sockaddr_storage \<Rightarrow> nat \<Rightarrow> u16 \<Rightarrow> nat \<Rightarrow> world \<Rightarrow>
     string option \<times> icmp_pinger_t \<times> world" where
  "icmp_pinger_send_echo p dest dest_len identifier packet_len w =
     (case icmp_validate_send_args p dest of
        Some err \<Rightarrow> (Some err, p, w)
      | None \<Rightarrow>
          if packet_len = 0 \<or> SEND_BUF_SIZE < packet_len then
            (Some (snprintf_buf ERROR_MSG_SIZE
               (''Invalid ICMP packet size: '' @ show_nat packet_len)), p, w)
          else
            let (seq, p1) = next_sequence p;
                buf = echo_buffer (little_endian (host w)) (family p1) identifier seq packet_len
                        (send_buf p1);
                p2 = p1\<lparr>sequence := seq, send_buf := buf\<rparr>
            in case sys_sendto (sockfd p2) (take packet_len buf) dest dest_len w of
                 (Inl errno, w1) \<Rightarrow>
                   (Some (snprintf_buf ERROR_MSG_SIZE
                      (''Failed to send packet: '' @ strerror (host w1) errno)), p2, w1)
               | (Inr sent, w1) \<Rightarrow>
                   if sent \<noteq> packet_len then
                     (Some (snprintf_buf ERROR_MSG_SIZE (''Short ICMP send: '' @ show_nat sent)),
                      p2, w1)
                   else (None, p2, w1))"

section \<open>Replies\<close>

definition icmp_receive_source_matches :: "sockaddr_storage \<Rightarrow> sockaddr_storage \<Rightarrow> bool" where
  "icmp_receive_source_matches dest recv =
     (if ss_family recv \<noteq> ss_family dest then False
      else if ss_family dest = AF_INET then sin_addr dest = sin_addr recv
      else sin6_addr dest = sin6_addr recv)"

text \<open>Reading the received bytes; \<open>None\<close> is a read of bytes that were not received.\<close>

definition read8 :: "u8 list \<Rightarrow> nat \<Rightarrow> u8 option" where
  "read8 buf i = (if i < length buf then Some (buf ! i) else None)"

definition read_be16 :: "u8 list \<Rightarrow> nat \<Rightarrow> u16 option" where
  "read_be16 buf i = do { a \<leftarrow> read8 buf i; b \<leftarrow> read8 buf (i + 1); Some (be16 a b) }"

definition parse_ipv4_reply :: "u8 list \<Rightarrow> u16 \<Rightarrow> u16 \<Rightarrow> icmp_receive_status_t option" where
  "parse_ipv4_reply buf identifier expected_sequence =
     (let received = length buf
      in if received < IP_HDR_LEN then Some ICMP_RECEIVE_IGNORED
         else do {
           ip_p \<leftarrow> read8 buf 9;
           if uint ip_p \<noteq> IPPROTO_ICMP then Some ICMP_RECEIVE_IGNORED
           else do {
             b0 \<leftarrow> read8 buf 0;
             let ip_hdr_len = unat (b0 AND 15) * 4;
             if ip_hdr_len < IP_HDR_LEN \<or> received < ip_hdr_len \<or>
                received < ip_hdr_len + ICMP_HDR_LEN then Some ICMP_RECEIVE_IGNORED
             else do {
               ty \<leftarrow> read8 buf ip_hdr_len;
               if ty \<noteq> ICMP_ECHOREPLY then Some ICMP_RECEIVE_IGNORED
               else do {
                 ident \<leftarrow> read_be16 buf (ip_hdr_len + 4);
                 if ident \<noteq> identifier then Some ICMP_RECEIVE_IGNORED
                 else do {
                   seq \<leftarrow> read_be16 buf (ip_hdr_len + 6);
                   if seq \<noteq> expected_sequence then Some ICMP_RECEIVE_IGNORED
                   else Some ICMP_RECEIVE_MATCHED } } } } })"

definition parse_ipv6_reply :: "u8 list \<Rightarrow> u16 \<Rightarrow> u16 \<Rightarrow> icmp_receive_status_t option" where
  "parse_ipv6_reply buf identifier expected_sequence =
     (if length buf < ICMP_HDR_LEN then Some ICMP_RECEIVE_IGNORED
      else do {
        ty \<leftarrow> read8 buf 0;
        if ty \<noteq> ICMP6_ECHO_REPLY then Some ICMP_RECEIVE_IGNORED
        else do {
          ident \<leftarrow> read_be16 buf 4;
          if ident \<noteq> identifier then Some ICMP_RECEIVE_IGNORED
          else do {
            seq \<leftarrow> read_be16 buf 6;
            if seq \<noteq> expected_sequence then Some ICMP_RECEIVE_IGNORED
            else Some ICMP_RECEIVE_MATCHED } } })"

text \<open>The parser for the family of the destination; other families are ignored.\<close>

definition parse_reply ::
    "int \<Rightarrow> u8 list \<Rightarrow> u16 \<Rightarrow> u16 \<Rightarrow> icmp_receive_status_t option" where
  "parse_reply fam buf identifier expected_sequence =
     (if fam = AF_INET then parse_ipv4_reply buf identifier expected_sequence
      else if fam = AF_INET6 then parse_ipv6_reply buf identifier expected_sequence
      else Some ICMP_RECEIVE_IGNORED)"

definition icmp_pinger_receive_reply ::
    "icmp_pinger_t \<Rightarrow> sockaddr_storage \<Rightarrow> u16 \<Rightarrow> u16 \<Rightarrow> u64 \<Rightarrow> u64 \<Rightarrow> ping_result_t \<Rightarrow> world \<Rightarrow>
     (icmp_receive_status_t \<times> ping_result_t \<times> world) option" where
  "icmp_pinger_receive_reply p dest identifier expected_sequence sent_ms now_ms out w =
     (case sys_recvfrom RECV_BUF_SIZE w of
        (Inl errno, w1) \<Rightarrow>
          if errno = EAGAIN \<or> errno = EWOULDBLOCK \<or> errno = EINTR
          then Some (ICMP_RECEIVE_NO_MORE, out, w1)
          else Some (ICMP_RECEIVE_ERROR,
                 \<lparr>success = False, latency_ms = - 1,
                  error_msg = snprintf_buf ERROR_MSG_SIZE
                    (''recvfrom failed: '' @ strerror (host w1) errno)\<rparr>, w1)
      | (Inr (recv_buf, recv_addr), w1) \<Rightarrow>
          if recv_buf = [] \<or> \<not> icmp_receive_source_matches dest recv_addr
          then Some (ICMP_RECEIVE_IGNORED, out, w1)
          else do {
            status \<leftarrow> parse_reply (ss_family dest) recv_buf identifier expected_sequence;
            Some (status,
              if status = ICMP_RECEIVE_MATCHED then
                \<lparr>success = True,
                 latency_ms = (if sent_ms \<le> now_ms then dbl_of_u64 (now_ms - sent_ms) else 0),
                 error_msg = ''''\<rparr>
              else out, w1) })"

section \<open>The socket and its filter\<close>

definition ipv4_filter :: "sock_filter list" where
  "ipv4_filter =
     [BPF_LD_B_ABS 0, BPF_ALU_AND_K 0x0f, BPF_ALU_MUL_K 4, BPF_MISC_TAX, BPF_LD_B_IND 0,
      BPF_JMP_JEQ_K (ucast ICMP_ECHOREPLY) 0 1, BPF_RET_K 0xffff, BPF_RET_K 0]"

definition ipv6_filter :: "sock_filter list" where
  "ipv6_filter =
     [BPF_LD_B_ABS 0, BPF_JMP_JEQ_K (ucast ICMP6_ECHO_REPLY) 0 1, BPF_RET_K 0xffff, BPF_RET_K 0]"

text \<open>The filter is optional: the result of attaching it is not looked at.\<close>

definition icmp_pinger_init ::
    "icmp_pinger_t \<Rightarrow> int \<Rightarrow> world \<Rightarrow> string option \<times> icmp_pinger_t \<times> world" where
  "icmp_pinger_init p fam w =
     (let p1 = p\<lparr>sockfd := - 1, family := fam, sequence := 0\<rparr>;
          proto = (if fam = AF_INET6 then IPPROTO_ICMPV6 else IPPROTO_ICMP)
      in case sys_socket fam (SOCK_RAW OR SOCK_CLOEXEC OR SOCK_NONBLOCK) proto w of
           (Inl errno, w1) \<Rightarrow>
             (Some (snprintf_buf ERROR_MSG_SIZE
                (''Failed to create socket (family='' @ show_int fam @ ''): '' @
                 strerror (host w1) errno @ '' (require root or CAP_NET_RAW)'')), p1, w1)
         | (Inr fd, w1) \<Rightarrow>
             (None, p1\<lparr>sockfd := fd\<rparr>,
              if fam = AF_INET then sys_attach_filter fd ipv4_filter w1
              else if fam = AF_INET6 then sys_attach_filter fd ipv6_filter w1
              else w1))"

definition icmp_pinger_destroy :: "icmp_pinger_t \<Rightarrow> world \<Rightarrow> icmp_pinger_t \<times> world" where
  "icmp_pinger_destroy p w =
     (if 0 \<le> sockfd p then (p\<lparr>sockfd := - 1\<rparr>, sys_close (sockfd p) w) else (p, w))"

text \<open>The address and its length, or the error message.\<close>

definition resolve_target :: "host \<Rightarrow> string \<Rightarrow> string + sockaddr_storage \<times> nat" where
  "resolve_target h tgt =
     (let blank = \<lparr>ss_family = 0, sin_addr = replicate 4 0, sin6_addr = replicate 16 0\<rparr>
      in case inet_pton4 h tgt of
           Some a \<Rightarrow> Inr (blank\<lparr>ss_family := AF_INET, sin_addr := a\<rparr>, 16)
         | None \<Rightarrow>
             (case inet_pton6 h tgt of
                Some a \<Rightarrow> Inr (blank\<lparr>ss_family := AF_INET6, sin6_addr := a\<rparr>, 28)
              | None \<Rightarrow>
                  Inl (snprintf_buf ERROR_MSG_SIZE
                    (''Invalid IPv4/IPv6 address (DNS disabled): '' @ tgt))))"

section \<open>The checksum as one's-complement arithmetic\<close>

lemma unat_not_u16: "unat (NOT x :: u16) = 65535 - unat x"
proof -
  have u: "0 \<le> uint x" "uint x < 65536" using uint_bounded [of x] by simp_all
  have "uint (NOT x) = (- uint x - 1) mod 65536"
    by (simp add: not_eq_complement uint_word_ariths mod_simps)
  also have "\<dots> = (65535 - uint x) mod 65536"
    using mod_add_self2 [of "- uint x - 1" 65536] by (simp add: algebra_simps)
  also have "\<dots> = 65535 - uint x" by (rule mod_pos_pos_trivial) (use u in linarith)+
  finally show ?thesis
    using u unfolding nat_uint_eq [symmetric] by linarith
qed

text \<open>The sum of the words of a packet of even length, as a natural number.\<close>

fun word_sum :: "bool \<Rightarrow> u8 list \<Rightarrow> nat" where
  "word_sum le (a # b # rest) = unat (load16 le a b) + word_sum le rest"
| "word_sum le [a] = unat a"
| "word_sum le [] = 0"

lemma unat_load16_bound: "unat (load16 le a b) < 65536"
  by (rule unat_u16_bound)

lemma word_sum_bound: "word_sum le bs \<le> 65535 * length bs"
proof (induction le bs rule: word_sum.induct)
  case (1 le a b rest)
  then show ?case using unat_load16_bound [of le a b] by simp
next
  case (2 le a)
  then show ?case using unat_u8_bound [of a] by simp
qed simp

text \<open>No buffer of the program is long enough for the 32-bit sum to wrap.\<close>

lemma unat_sum_words:
  "unat acc + word_sum le bs < 4294967296 \<Longrightarrow>
   unat (sum_words le bs acc) = unat acc + word_sum le bs"
proof (induction le bs acc rule: sum_words.induct)
  case (1 le a b rest acc)
  have "unat (ucast (load16 le a b) :: u32) = unat (load16 le a b)"
    using unat_load16_bound [of le a b] by (simp add: unsigned_ucast_eq take_bit_eq_mod)
  then have "unat (acc + ucast (load16 le a b) :: u32) = unat acc + unat (load16 le a b)"
    using 1(2) by (simp add: unat_word_ariths)
  with 1 show ?case by simp
next
  case (2 le a acc)
  have "unat (ucast a :: u32) = unat a"
    using unat_u8_bound [of a] by (simp add: unsigned_ucast_eq take_bit_eq_mod)
  with 2 show ?case by (simp add: unat_word_ariths)
qed simp

text \<open>Folding the carries keeps the residue modulo 65535 and is zero only for zero.\<close>

definition fold_nat :: "nat \<Rightarrow> nat" where
  "fold_nat n = (if n = 0 then 0 else if n mod 65535 = 0 then 65535 else n mod 65535)"

lemma fold_nat_step: "fold_nat (n mod 65536 + n div 65536) = fold_nat n"
proof -
  have "n = 65536 * (n div 65536) + n mod 65536" by simp
  then have "n mod 65535 = (65536 * (n div 65536) + n mod 65536) mod 65535" by metis
  also have "\<dots> = (65535 * (n div 65536) + (n mod 65536 + n div 65536)) mod 65535"
    by (rule arg_cong [where f = "\<lambda>k. k mod 65535"]) simp
  also have "\<dots> = (n mod 65536 + n div 65536) mod 65535" by (rule mod_mult_self4)
  finally have "n mod 65535 = (n mod 65536 + n div 65536) mod 65535" .
  moreover have "n mod 65536 + n div 65536 = 0 \<longleftrightarrow> n = 0"
    using mult_div_mod_eq [of 65536 n] by auto
  ultimately show ?thesis by (simp add: fold_nat_def)
qed

lemma unat_fold_carry: "unat (fold_carry acc) = fold_nat (unat acc)"
proof (induction acc rule: fold_carry.induct)
  case (1 acc)
  show ?case
  proof (cases "drop_bit 16 acc = 0")
    case True
    then have "unat acc div 65536 = 0" using unat_high_half [of acc] by simp
    then have "unat acc < 65536" by simp
    then show ?thesis using True
      by (subst fold_carry.simps) (auto simp: fold_nat_def mod_if)
  next
    case False
    then have "unat (fold_carry acc) = fold_nat (unat ((acc AND 0xFFFF) + drop_bit 16 acc))"
      using 1 by (subst fold_carry.simps) simp
    then show ?thesis by (simp add: unat_fold_step fold_nat_step)
  qed
qed

lemma fold_nat_bound: "fold_nat n \<le> 65535"
  by (simp add: fold_nat_def)

lemma calculate_checksum_nat:
  assumes "length bs \<le> 65536"
  shows "unat (calculate_checksum le bs) = 65535 - fold_nat (word_sum le bs)"
proof -
  have "word_sum le bs < 4294967296" using word_sum_bound [of le bs] assms by simp
  then have "unat (fold_carry (sum_words le bs 0)) = fold_nat (word_sum le bs)" (is "unat ?f = _")
    by (simp add: unat_fold_carry unat_sum_words)
  then have f: "unat (ucast ?f :: u16) = fold_nat (word_sum le bs)"
    using fold_nat_bound [of "word_sum le bs"] by (simp add: unsigned_ucast_eq take_bit_eq_mod)
  have "ucast (NOT ?f) = (NOT (ucast ?f) :: u16)"
    by (rule bit_word_eqI) (simp add: bit_simps)
  then show ?thesis by (simp add: calculate_checksum_def unat_not_u16 f)
qed

lemma fold_nat_decomp: "\<exists>k. n = fold_nat n + 65535 * k"
proof (cases "n mod 65535 = 0 \<and> n \<noteq> 0")
  case True
  then obtain k where k: "n = 65535 * k" by (auto simp: mod_eq_0_iff_dvd elim: dvdE)
  with True have "n = 65535 + 65535 * (k - 1)" by (cases k) auto
  with True show ?thesis by (auto simp: fold_nat_def)
next
  case False
  then have "n = fold_nat n + 65535 * (n div 65535)"
    by (auto simp: fold_nat_def)
  then show ?thesis by blast
qed

lemma fold_nat_complement: "fold_nat (n + (65535 - fold_nat n)) = 65535"
proof -
  obtain k where k: "n = fold_nat n + 65535 * k" using fold_nat_decomp by blast
  then have "n + (65535 - fold_nat n) = 65535 * (k + 1)" using fold_nat_bound [of n] by simp
  then show ?thesis by (simp add: fold_nat_def)
qed

lemma load16_zero [simp]: "unat (load16 le 0 0) = 0"
  by (simp add: load16_def unat_be16)

text \<open>A packet with its checksum in the place of two zero bytes has checksum zero.\<close>

lemma checksum_verifies:
  assumes "length rest \<le> 65532"
  shows "calculate_checksum le (a # b # store16 le (calculate_checksum le (a # b # 0 # 0 # rest)) @ rest) = 0"
proof -
  define c where "c = calculate_checksum le (a # b # 0 # 0 # rest)"
  obtain x y where xy: "store16 le c = [x, y]" by (cases le) (auto simp: store16_def)
  have sum0: "word_sum le (a # b # 0 # 0 # rest) = unat (load16 le a b) + word_sum le rest" by simp
  have c: "unat c = 65535 - fold_nat (unat (load16 le a b) + word_sum le rest)"
    unfolding c_def sum0 [symmetric] using assms by (intro calculate_checksum_nat) simp
  have "word_sum le (a # b # x # y # rest) = unat (load16 le a b) + word_sum le rest + unat c"
    using load16_store16 [OF xy] by simp
  then have "fold_nat (word_sum le (a # b # x # y # rest)) = 65535"
    by (simp only: c fold_nat_complement)
  then have "unat (calculate_checksum le (a # b # x # y # rest)) = 0"
    using calculate_checksum_nat [of "a # b # x # y # rest" le] assms by simp
  then have "calculate_checksum le (a # b # x # y # rest) = 0"
    by (simp only: unat_eq_zero)
  then show ?thesis by (simp add: xy flip: c_def)
qed

section \<open>Byte order\<close>

definition swap16 :: "nat \<Rightarrow> nat" where
  "swap16 n = 256 * (n mod 256) + n div 256"

lemma mod_65535_256: "(256 * n) mod 65535 = swap16 n mod 65535"
proof -
  have "256 * n = 65535 * (n div 256) + swap16 n"
    unfolding swap16_def using mult_div_mod_eq [of 256 n] by linarith
  then show ?thesis by (metis mod_mult_self4)
qed

lemma word_sum_swap:
  "even (length bs) \<Longrightarrow> word_sum True bs mod 65535 = (256 * word_sum False bs) mod 65535 \<and>
     (word_sum True bs = 0 \<longleftrightarrow> word_sum False bs = 0)"
proof (induction True bs rule: word_sum.induct)
  case (1 a b rest)
  then have IH: "word_sum True rest mod 65535 = (256 * word_sum False rest) mod 65535"
    "word_sum True rest = 0 \<longleftrightarrow> word_sum False rest = 0" by auto
  have w: "word_sum True (a # b # rest) = 256 * unat b + unat a + word_sum True rest"
    "word_sum False (a # b # rest) = 256 * unat a + unat b + word_sum False rest"
    by (simp_all add: load16_def unat_be16)
  have "(256 * word_sum False (a # b # rest)) mod 65535 =
      (65535 * unat a + (unat a + 256 * unat b + 256 * word_sum False rest)) mod 65535"
    unfolding w by (rule arg_cong [where f = "\<lambda>k. k mod 65535"]) simp
  also have "\<dots> = (unat a + 256 * unat b + 256 * word_sum False rest) mod 65535"
    by (rule mod_mult_self4)
  also have "\<dots> = (unat a + 256 * unat b + word_sum True rest) mod 65535"
    using IH(1) by (metis mod_add_right_eq)
  also have "\<dots> = word_sum True (a # b # rest) mod 65535"
    unfolding w by (rule arg_cong [where f = "\<lambda>k. k mod 65535"]) simp
  finally show ?case using IH(2) w by auto
qed auto

lemma swap16_bound: "n \<le> 65535 \<Longrightarrow> swap16 n \<le> 65535"
  using less_mult_imp_div_less [of n 256 256] mod_less_divisor [of 256 n]
  unfolding swap16_def by linarith

lemma swap16_max:
  assumes "n \<le> 65535"
  shows "swap16 n = 65535 \<longleftrightarrow> n = 65535"
proof -
  have "n div 256 \<le> 255" "n mod 256 \<le> 255" "n = 256 * (n div 256) + n mod 256"
    using assms less_mult_imp_div_less [of n 256 256] mod_less_divisor [of 256 n] by simp_all
  then show ?thesis unfolding swap16_def by linarith
qed

lemma checksum_swap:
  assumes "even (length bs)" and "length bs \<le> 65536"
  shows "unat (calculate_checksum True bs) = swap16 (unat (calculate_checksum False bs))"
proof -
  define t where "t = word_sum True bs"
  define f where "f = word_sum False bs"
  define ct where "ct = 65535 - fold_nat t"
  define cf where "cf = 65535 - fold_nat f"
  obtain j k where j: "t = fold_nat t + 65535 * j" and k: "f = fold_nat f + 65535 * k"
    using fold_nat_decomp by metis
  have tf: "t mod 65535 = (256 * f) mod 65535" "t = 0 \<longleftrightarrow> f = 0"
    using word_sum_swap [OF assms(1)] by (simp_all add: t_def f_def)
  have "int ct mod 65535 = int (swap16 cf) mod 65535"
  proof -
    have ct: "int ct = 65535 * (1 + int j) - int t"
      using fold_nat_bound [of t] j unfolding ct_def by (simp add: of_nat_diff algebra_simps)
    have cf: "int cf = 65535 * (1 + int k) - int f"
      using fold_nat_bound [of f] k unfolding cf_def by (simp add: of_nat_diff algebra_simps)
    have tf_int: "int t mod 65535 = int (256 * f) mod 65535"
      using arg_cong [OF tf(1), of int] unfolding zmod_int by simp
    have "int ct mod 65535 = (- int t) mod 65535"
      unfolding ct using mod_mult_self4 [of 65535 "1 + int j" "- int t"] by simp
    also have "\<dots> = (- int (256 * f)) mod 65535"
      using mod_minus_eq [of "int t" 65535] mod_minus_eq [of "int (256 * f)" 65535] tf_int by simp
    also have "\<dots> = (65535 * (256 * (1 + int k)) + - int (256 * f)) mod 65535"
      by (simp only: mod_mult_self4)
    also have "\<dots> = int (256 * cf) mod 65535"
      by (rule arg_cong [where f = "\<lambda>k. k mod 65535"]) (simp add: cf algebra_simps)
    also have "\<dots> = int (swap16 cf) mod 65535"
      using arg_cong [OF mod_65535_256 [of cf], of int] unfolding zmod_int by simp
    finally show ?thesis .
  qed
  then have "int (ct mod 65535) = int (swap16 cf mod 65535)" unfolding zmod_int by simp
  then have "ct mod 65535 = swap16 cf mod 65535" by (simp only: of_nat_eq_iff)
  moreover have "ct \<le> 65535" "swap16 cf \<le> 65535"
    by (simp_all add: ct_def cf_def swap16_bound)
  moreover have "ct = 65535 \<longleftrightarrow> swap16 cf = 65535"
  proof -
    have z: "fold_nat n = 0 \<longleftrightarrow> n = 0" for n by (simp add: fold_nat_def)
    have "swap16 cf = 65535 \<longleftrightarrow> cf = 65535"
      by (rule swap16_max) (simp add: cf_def)
    moreover have "ct = 65535 \<longleftrightarrow> fold_nat t = 0" "cf = 65535 \<longleftrightarrow> fold_nat f = 0"
      using fold_nat_bound [of t] fold_nat_bound [of f] unfolding ct_def cf_def by arith+
    ultimately show ?thesis using tf(2) z by simp
  qed
  ultimately have "ct = swap16 cf" by (cases "ct = 65535"; cases "swap16 cf = 65535") auto
  then show ?thesis
    using calculate_checksum_nat [OF assms(2)] by (simp add: ct_def cf_def t_def f_def)
qed

text \<open>The bytes of the checksum in memory do not depend on the byte order of the host.\<close>

lemma checksum_bytes_endian:
  assumes "even (length bs)" and "length bs \<le> 65536"
  shows "store16 le (calculate_checksum le bs) = store16_be (calculate_checksum False bs)"
proof (cases le)
  case True
  define n where "n = unat (calculate_checksum False bs)"
  have n: "n div 256 < 256"
    using unat_u16_bound [of "calculate_checksum False bs"] unfolding n_def
    by (simp add: less_mult_imp_div_less)
  have "swap16 n mod 256 = n div 256" "swap16 n div 256 = n mod 256"
    using n by (simp_all add: swap16_def)
  then show ?thesis
    using True checksum_swap [OF assms]
    by (simp add: store16_def store16_be_def word_eq_iff_unsigned [where ?'a = nat] word_nat
        flip: n_def)
qed (simp add: store16_def store16_be_def)

section \<open>The echo request on the wire\<close>

lemma put_header_8:
  assumes "length hdr = 8"
  shows "take n (put_header hdr buf) = take n hdr @ take (n - 8) (drop 8 buf)"
  using assms by (simp add: put_header_def take_append)

lemma echo_header_length [simp]: "length ck = 2 \<Longrightarrow> length (echo_header ty ck ident seq) = 8"
  by (simp add: echo_header_def store16_be_def)

lemma store16_length [simp]: "length (store16 le x) = 2"
  by (simp add: store16_def)

text \<open>The checksum field of an echo request: zero for ICMPv6, whose checksum the kernel fills in.\<close>

definition echo_checksum :: "bool \<Rightarrow> int \<Rightarrow> u16 \<Rightarrow> u16 \<Rightarrow> nat \<Rightarrow> u8 list \<Rightarrow> u8 list" where
  "echo_checksum le fam ident seq n buf =
     (if fam = AF_INET6 then [0, 0]
      else store16 le (calculate_checksum le
             ([ICMP_ECHO, 0, 0, 0] @ store16_be ident @ store16_be seq @ take (n - 8) (drop 8 buf))))"

definition echo_type :: "int \<Rightarrow> u8" where
  "echo_type fam = (if fam = AF_INET6 then ICMP6_ECHO_REQUEST else ICMP_ECHO)"

lemma echo_packet:
  assumes "8 \<le> n"
  shows "take n (echo_buffer le fam ident seq n buf) =
     [echo_type fam, 0] @ echo_checksum le fam ident seq n buf @ store16_be ident @ store16_be seq @
     take (n - 8) (drop 8 buf)"
  using assms
  by (simp add: echo_buffer_def echo_type_def echo_checksum_def Let_def put_header_8)
    (simp add: echo_header_def)

lemma echo_packet_verifies:
  assumes "8 \<le> n" and "n \<le> 256" and "fam \<noteq> AF_INET6"
  shows "calculate_checksum le (take n (echo_buffer le fam ident seq n buf)) = 0"
proof -
  define rest where "rest = store16_be ident @ store16_be seq @ take (n - 8) (drop 8 buf)"
  have "length rest \<le> 65532" using assms(2) by (simp add: rest_def store16_be_def)
  from checksum_verifies [OF this, of le ICMP_ECHO 0] assms show ?thesis
    by (simp add: echo_packet echo_type_def echo_checksum_def rest_def)
qed

lemma echo_packet_endian:
  assumes "8 \<le> n" and "n \<le> length buf" and "length buf = 256" and "even n"
  shows "take n (echo_buffer le fam ident seq n buf) = take n (echo_buffer False fam ident seq n buf)"
proof -
  define data where "data = [ICMP_ECHO, 0, 0, 0] @ store16_be ident @ store16_be seq @
      take (n - 8) (drop 8 buf)"
  have "even (length data)" "length data \<le> 65536"
    using assms by (simp_all add: data_def store16_be_def)
  then have "store16 le (calculate_checksum le data) = store16 False (calculate_checksum False data)"
    using checksum_bytes_endian by metis
  with assms(1) show ?thesis by (simp add: echo_packet echo_checksum_def data_def)
qed

lemma next_sequence_effect:
  "next_sequence p = (s, p') \<Longrightarrow> p' = p\<lparr>sequence := s\<rparr> \<and> s \<noteq> 0 \<and> s \<noteq> sequence p"
proof -
  have "sequence p + 1 \<noteq> sequence p" "sequence p + 1 = 0 \<Longrightarrow> sequence p \<noteq> 1"
    by simp_all auto
  then show "next_sequence p = (s, p') \<Longrightarrow> ?thesis" by (auto simp: next_sequence_def Let_def split: if_splits)
qed

section \<open>The parsers read only what was received\<close>

definition ipv4_header_len :: "u8 list \<Rightarrow> nat" where
  "ipv4_header_len buf = unat (buf ! 0 AND 15) * 4"

definition ipv4_reply :: "u8 list \<Rightarrow> u16 \<Rightarrow> u16 \<Rightarrow> bool" where
  "ipv4_reply buf ident seq \<longleftrightarrow>
     20 \<le> length buf \<and> uint (buf ! 9) = 1 \<and>
     (let h = ipv4_header_len buf
      in 20 \<le> h \<and> h + 8 \<le> length buf \<and> buf ! h = 0 \<and>
         be16 (buf ! (h + 4)) (buf ! (h + 5)) = ident \<and>
         be16 (buf ! (h + 6)) (buf ! (h + 7)) = seq)"

definition ipv6_reply :: "u8 list \<Rightarrow> u16 \<Rightarrow> u16 \<Rightarrow> bool" where
  "ipv6_reply buf ident seq \<longleftrightarrow>
     8 \<le> length buf \<and> buf ! 0 = 129 \<and> be16 (buf ! 4) (buf ! 5) = ident \<and>
     be16 (buf ! 6) (buf ! 7) = seq"

definition matched_if :: "bool \<Rightarrow> icmp_receive_status_t" where
  "matched_if b = (if b then ICMP_RECEIVE_MATCHED else ICMP_RECEIVE_IGNORED)"

lemma parse_ipv4_reply_spec:
  "parse_ipv4_reply buf ident seq = Some (matched_if (ipv4_reply buf ident seq))"
proof (cases "20 \<le> length buf \<and> uint (buf ! 9) = 1 \<and> 20 \<le> ipv4_header_len buf \<and>
    ipv4_header_len buf + 8 \<le> length buf")
  case True
  define h where "h = ipv4_header_len buf"
  have len: "0 < length buf" "9 < length buf" "20 \<le> h" "h + 8 \<le> length buf"
    using True by (auto simp: h_def)
  have "\<not> unat (buf ! 0 AND 15) < 5" using len(3) by (simp add: h_def ipv4_header_len_def)
  note len = len this
  have r: "read_be16 buf (h + 4) = Some (be16 (buf ! (h + 4)) (buf ! (h + 5)))"
    "read_be16 buf (h + 6) = Some (be16 (buf ! (h + 6)) (buf ! (h + 7)))"
    using len by (auto simp: read_be16_def read8_def add.commute [of 5 h] add.commute [of 7 h])
  show ?thesis
    using True len
    by (simp add: parse_ipv4_reply_def ipv4_reply_def matched_if_def Let_def icmp_consts read8_def r
        flip: ipv4_header_len_def h_def)
next
  case False
  define h where "h = ipv4_header_len buf"
  have bad: "length buf < 20 \<or> uint (buf ! 9) \<noteq> 1 \<or>
      (h < 20 \<or> length buf < h \<or> length buf < h + 8)"
    using False by (auto simp: h_def)
  have h: "unat (buf ! 0 AND 15) * 4 = h" by (simp add: h_def ipv4_header_len_def)
  have five: "unat (buf ! 0 AND 15) < 5 \<longleftrightarrow> h < 20" using h by linarith
  have "\<not> ipv4_reply buf ident seq" using False by (auto simp: ipv4_reply_def Let_def)
  moreover have "parse_ipv4_reply buf ident seq = Some ICMP_RECEIVE_IGNORED"
    unfolding parse_ipv4_reply_def Let_def icmp_consts
    using bad by (cases "length buf < 20") (auto simp: read8_def h five)
  ultimately show ?thesis by (simp add: matched_if_def)
qed

lemma parse_ipv6_reply_spec:
  "parse_ipv6_reply buf ident seq = Some (matched_if (ipv6_reply buf ident seq))"
proof (cases "8 \<le> length buf")
  case True
  then have len: "0 < length buf" and r: "read_be16 buf 4 = Some (be16 (buf ! 4) (buf ! 5))"
    "read_be16 buf 6 = Some (be16 (buf ! 6) (buf ! 7))"
    by (auto simp: read_be16_def read8_def)
  with True show ?thesis
    by (simp add: parse_ipv6_reply_def ipv6_reply_def matched_if_def icmp_consts read8_def)
next
  case False
  then show ?thesis
    by (simp add: parse_ipv6_reply_def ipv6_reply_def matched_if_def icmp_consts)
qed

definition echo_reply :: "int \<Rightarrow> u8 list \<Rightarrow> u16 \<Rightarrow> u16 \<Rightarrow> bool" where
  "echo_reply fam buf ident seq \<longleftrightarrow>
     (if fam = AF_INET then ipv4_reply buf ident seq
      else fam = AF_INET6 \<and> ipv6_reply buf ident seq)"

lemma parse_reply_spec:
  "parse_reply fam buf ident seq = Some (matched_if (echo_reply fam buf ident seq))"
  by (simp add: parse_reply_def echo_reply_def parse_ipv4_reply_spec parse_ipv6_reply_spec
      matched_if_def)

section \<open>The filter machine\<close>

text \<open>
  Classic BPF: an accumulator and an index register; a load outside the packet rejects it, and
  the result is the number of bytes of the packet that are kept.
\<close>

fun bpf_run :: "sock_filter list \<Rightarrow> u8 list \<Rightarrow> u32 \<Rightarrow> u32 \<Rightarrow> nat" where
  "bpf_run [] pkt A X = 0"
| "bpf_run (BPF_LD_B_ABS k # prog) pkt A X =
     (if k < length pkt then bpf_run prog pkt (ucast (pkt ! k)) X else 0)"
| "bpf_run (BPF_LD_B_IND k # prog) pkt A X =
     (if unat X + k < length pkt then bpf_run prog pkt (ucast (pkt ! (unat X + k))) X else 0)"
| "bpf_run (BPF_ALU_AND_K k # prog) pkt A X = bpf_run prog pkt (A AND k) X"
| "bpf_run (BPF_ALU_MUL_K k # prog) pkt A X = bpf_run prog pkt (A * k) X"
| "bpf_run (BPF_MISC_TAX # prog) pkt A X = bpf_run prog pkt A A"
| "bpf_run (BPF_JMP_JEQ_K k jt jf # prog) pkt A X =
     bpf_run (drop (if A = k then jt else jf) prog) pkt A X"
| "bpf_run (BPF_RET_K k # prog) pkt A X = k"

lemma ucast_u8_u32_inject: "(ucast (a :: u8) :: u32) = ucast b \<longleftrightarrow> a = b"
proof
  assume "(ucast a :: u32) = ucast b"
  then have "unat (ucast a :: u32) = unat (ucast b :: u32)" by simp
  then show "a = b"
    using unat_u8_bound [of a] unat_u8_bound [of b]
    by (simp add: unsigned_ucast_eq take_bit_eq_mod word_eq_iff_unsigned [where ?'a = nat])
qed simp

lemma ipv6_filter_run:
  "bpf_run ipv6_filter pkt A X = (if pkt \<noteq> [] \<and> pkt ! 0 = 129 then 0xffff else 0)"
  using ucast_u8_u32_inject [of "pkt ! 0" 129] by (simp add: ipv6_filter_def icmp_consts)

lemma ipv4_filter_run:
  "bpf_run ipv4_filter pkt A X =
     (if pkt \<noteq> [] \<and> ipv4_header_len pkt < length pkt \<and> pkt ! ipv4_header_len pkt = 0
      then 0xffff else 0)"
proof (cases "pkt = []")
  case False
  have "unat (ucast (pkt ! 0 AND 15) :: u32) = unat (pkt ! 0 AND 15)"
    using unat_u8_bound [of "pkt ! 0 AND 15"] by (simp add: unsigned_ucast_eq take_bit_eq_mod)
  moreover have "(ucast (pkt ! 0) AND mask 4 :: u32) = ucast (pkt ! 0 AND mask 4)"
    by (rule bit_word_eqI) (auto simp: bit_simps)
  then have "(ucast (pkt ! 0) AND 15 :: u32) = ucast (pkt ! 0 AND 15)"
    by (simp add: mask_eq_exp_minus_1)
  ultimately have "unat ((ucast (pkt ! 0) AND 15) * 4 :: u32) = ipv4_header_len pkt"
    using unat_u8_bound [of "pkt ! 0 AND 15"] by (simp add: unat_word_ariths ipv4_header_len_def)
  then show ?thesis
    using False ucast_u8_u32_inject [of _ 0] by (simp add: ipv4_filter_def icmp_consts)
qed (simp add: ipv4_filter_def)

section \<open>Frame conditions\<close>

lemma send_echo_later [frame]:
  "icmp_pinger_send_echo p dest dl ident n w = (err, p', w') \<Longrightarrow> later K w0 w \<Longrightarrow> Cls_packet \<in> K \<Longrightarrow>
   later K w0 w'"
  by (auto simp: icmp_pinger_send_echo_def Let_def split: option.splits if_splits prod.splits
      sum.splits intro: sys_sendto_later)

lemma receive_reply_later [frame]:
  "icmp_pinger_receive_reply p dest ident seq s n out w = Some (st, out', w') \<Longrightarrow> later K w0 w \<Longrightarrow>
   later K w0 w'"
  by (auto simp: icmp_pinger_receive_reply_def split: if_splits prod.splits sum.splits bind_splits
      intro: sys_recvfrom_later)

lemma pinger_init_later [frame]:
  "icmp_pinger_init p fam w = (err, p', w') \<Longrightarrow> later K w0 w \<Longrightarrow> {Cls_fd, Cls_socket} \<subseteq> K \<Longrightarrow>
   later K w0 w'"
  by (auto simp: icmp_pinger_init_def Let_def split: if_splits prod.splits sum.splits
      intro: sys_socket_later sys_attach_filter_later)

lemma pinger_destroy_later [frame]:
  "icmp_pinger_destroy p w = (p', w') \<Longrightarrow> later K w0 w \<Longrightarrow> Cls_fd \<in> K \<Longrightarrow> later K w0 w'"
  by (auto simp: icmp_pinger_destroy_def intro: sys_close_later split: if_splits)

lemma icmp_fair [fairness]:
  "icmp_pinger_send_echo p dest dl ident n w = (err, p', w') \<Longrightarrow> fair w \<Longrightarrow> fair w'"
  "icmp_pinger_receive_reply p dest ident seq s t out w = Some (st, out', w') \<Longrightarrow> fair w \<Longrightarrow> fair w'"
  "icmp_pinger_init p fam w = (err, p', w') \<Longrightarrow> fair w \<Longrightarrow> fair w'"
  by (rule fair_later [where K = UNIV], assumption, erule frame, rule later_refl, simp?)+

lemma icmp_pinger_receive_reply_total [total]:
  "returns (icmp_pinger_receive_reply p dest ident seq s n out w)"
  by (auto simp: icmp_pinger_receive_reply_def parse_reply_spec split: sum.split prod.split)

text \<open>The socket is held exactly while the pinger has its descriptor.\<close>

lemma pinger_init_held:
  assumes "icmp_pinger_init p fam w = (err, p', w')"
  shows "held fd w' = held fd w + (if err = None \<and> sockfd p' = fd then 1 else 0) \<and>
    (if err = None then 0 \<le> sockfd p' else sockfd p' = - 1) \<and>
    family p' = fam \<and> sequence p' = 0 \<and> send_buf p' = send_buf p"
proof -
  obtain r w1 where s: "sys_socket fam (SOCK_RAW OR SOCK_CLOEXEC OR SOCK_NONBLOCK)
      (if fam = AF_INET6 then IPPROTO_ICMPV6 else IPPROTO_ICMP) w = (r, w1)" by fastforce
  show ?thesis
  proof (cases r)
    case (Inl e)
    with assms s held_sys_open(1) [OF s [unfolded Inl], of fd] show ?thesis
      by (auto simp: icmp_pinger_init_def Let_def)
  next
    case (Inr f)
    have "held fd (sys_attach_filter f prog w1) = held fd w1" for prog
      by (simp add: sys_attach_filter_def held_emit)
    with assms s Inr held_sys_open(3) [OF s [unfolded Inr], of fd] show ?thesis
      by (auto simp: icmp_pinger_init_def Let_def split: if_splits)
  qed
qed

lemma pinger_destroy_held:
  "icmp_pinger_destroy p w = (p', w') \<Longrightarrow>
   held fd w' = held fd w - (if 0 \<le> sockfd p \<and> sockfd p = fd then 1 else 0) \<and> sockfd p' < 0"
  by (auto simp: icmp_pinger_destroy_def split: if_splits)

section \<open>What the pinger guarantees\<close>

lemma send_echo_wire:
  assumes "0 \<le> sockfd p" and "ss_family dest \<in> {AF_INET, AF_INET6}" and "length (send_buf p) = 256"
    and "8 \<le> n" and "n \<le> 256"
    and "icmp_pinger_send_echo p dest dest_len ident n w = (err, p', w')"
  shows "\<exists>pkt. events Cls_packet w' = events Cls_packet w @ [Sent_packet (sockfd p) pkt dest dest_len] \<and>
     length pkt = n \<and>
     take 2 pkt = [if family p = AF_INET6 then 128 else 8, 0] \<and>
     be16 (pkt ! 4) (pkt ! 5) = ident \<and> be16 (pkt ! 6) (pkt ! 7) = sequence p' \<and>
     sequence p' \<noteq> 0 \<and> sequence p' \<noteq> sequence p \<and>
     drop 8 pkt = take (n - 8) (drop 8 (send_buf p)) \<and>
     (family p \<noteq> AF_INET6 \<longrightarrow> calculate_checksum (little_endian (host w)) pkt = 0) \<and>
     (err = None \<longleftrightarrow> shd (sendto_in w) = Inr n) \<and>
     sockfd p' = sockfd p \<and> family p' = family p \<and> length (send_buf p') = 256"
proof -
  obtain s p1 where ns: "next_sequence p = (s, p1)" by fastforce
  from next_sequence_effect [OF ns] have p1: "p1 = p\<lparr>sequence := s\<rparr>" "s \<noteq> 0" "s \<noteq> sequence p"
    by auto
  define le where "le = little_endian (host w)"
  define buf where "buf = echo_buffer le (family p) ident s n (send_buf p)"
  define pkt where "pkt = take n buf"
  have valid: "icmp_validate_send_args p dest = None"
    using assms(1,2) by (auto simp: icmp_validate_send_args_def)
  have buf_len: "length buf = 256"
    using assms(3) by (auto simp: buf_def echo_buffer_def put_header_def Let_def)
  have sent: "p' = p\<lparr>sequence := s, send_buf := buf\<rparr>" "(err = None \<longleftrightarrow> shd (sendto_in w) = Inr n)"
    "trace w' = trace w @ [Sent_packet (sockfd p) pkt dest dest_len]"
    using assms(4-6) valid ns p1
    by (auto simp: icmp_pinger_send_echo_def Let_def sys_sendto_def emit_def SEND_BUF_SIZE_def
        le_def buf_def pkt_def split: sum.splits if_splits)
  have pkt: "pkt = [echo_type (family p), 0] @ echo_checksum le (family p) ident s n (send_buf p) @
      store16_be ident @ store16_be s @ take (n - 8) (drop 8 (send_buf p))"
    unfolding pkt_def buf_def using assms(4) by (rule echo_packet)
  obtain x y where ck: "echo_checksum le (family p) ident s n (send_buf p) = [x, y]"
    by (cases "family p = AF_INET6"; cases le) (auto simp: echo_checksum_def store16_def)
  have "calculate_checksum le pkt = 0" if "family p \<noteq> AF_INET6"
    unfolding pkt_def buf_def using assms(4,5) that by (rule echo_packet_verifies)
  then show ?thesis
    using sent p1 pkt ck buf_len assms(3-5)
    by (intro exI [of _ pkt])
      (auto simp: events_def store16_be_def echo_type_def icmp_consts le_def pkt_def)
qed

text \<open>
  C25: sending an echo request with a valid socket, family and size hands the
  kernel exactly one packet of the requested size: type 8 or 128, code 0, the identifier and a
  fresh nonzero sequence number in network order, then the payload of the send buffer; for IPv4
  the receiver's checksum over the packet is 0. It succeeds exactly when the kernel takes all of
  it, and the pinger keeps its socket and the size of its buffer.
\<close>

theorem echo_request_on_wire:
  assumes "0 \<le> sockfd p" and "ss_family dest \<in> {AF_INET, AF_INET6}" and "length (send_buf p) = 256"
    and "8 \<le> n" and "n \<le> 256"
    and "icmp_pinger_send_echo p dest dest_len ident n w = (err, p', w')"
  shows "\<exists>pkt. events Cls_packet w' = events Cls_packet w @ [Sent_packet (sockfd p) pkt dest dest_len] \<and>
     length pkt = n \<and>
     take 2 pkt = [if family p = AF_INET6 then 128 else 8, 0] \<and>
     be16 (pkt ! 4) (pkt ! 5) = ident \<and> be16 (pkt ! 6) (pkt ! 7) = sequence p' \<and>
     sequence p' \<noteq> 0 \<and> sequence p' \<noteq> sequence p \<and>
     drop 8 pkt = take (n - 8) (drop 8 (send_buf p)) \<and>
     (family p \<noteq> AF_INET6 \<longrightarrow> calculate_checksum (little_endian (host w)) pkt = 0) \<and>
     (err = None \<longleftrightarrow> shd (sendto_in w) = Inr n) \<and>
     sockfd p' = sockfd p \<and> family p' = family p \<and> length (send_buf p') = 256"
  by (rule send_echo_wire [OF assms])

definition sample_pinger :: icmp_pinger_t where
  "sample_pinger = \<lparr>sockfd = 5, family = AF_INET, sequence = 65535, send_buf = replicate 256 0\<rparr>"

definition sample_dest :: sockaddr_storage where
  "sample_dest = \<lparr>ss_family = AF_INET, sin_addr = [1, 1, 1, 1], sin6_addr = replicate 16 0\<rparr>"

theorem echo_request_on_wire_witness:
  "\<exists>err p' w'. icmp_pinger_send_echo sample_pinger sample_dest 16 7 64 sample_world = (err, p', w') \<and>
     sequence p' \<noteq> 0 \<and> (err = None \<longleftrightarrow> shd (sendto_in sample_world) = Inr 64)"
proof -
  obtain err p' w' where
    s: "icmp_pinger_send_echo sample_pinger sample_dest 16 7 64 sample_world = (err, p', w')"
    by (metis prod_cases3)
  have "0 \<le> sockfd sample_pinger" "ss_family sample_dest \<in> {AF_INET, AF_INET6}"
    "length (send_buf sample_pinger) = 256" "8 \<le> (64 :: nat)" "(64 :: nat) \<le> 256"
    by (simp_all add: sample_pinger_def sample_dest_def)
  from echo_request_on_wire [OF this s] s show ?thesis by blast
qed

text \<open>
  C26: the reply parsers never read a byte that was not received, whatever was,
  and recognise exactly the echo replies with the expected identifier and sequence number.
\<close>

theorem reply_parsers_exact:
  "parse_ipv4_reply buf ident seq =
     Some (if 20 \<le> length buf \<and> uint (buf ! 9) = 1 \<and>
              (let h = unat (buf ! 0 AND 15) * 4
               in 20 \<le> h \<and> h + 8 \<le> length buf \<and> buf ! h = 0 \<and>
                  be16 (buf ! (h + 4)) (buf ! (h + 5)) = ident \<and>
                  be16 (buf ! (h + 6)) (buf ! (h + 7)) = seq)
           then ICMP_RECEIVE_MATCHED else ICMP_RECEIVE_IGNORED) \<and>
   parse_ipv6_reply buf ident seq =
     Some (if 8 \<le> length buf \<and> buf ! 0 = 129 \<and> be16 (buf ! 4) (buf ! 5) = ident \<and>
              be16 (buf ! 6) (buf ! 7) = seq
           then ICMP_RECEIVE_MATCHED else ICMP_RECEIVE_IGNORED)"
  unfolding parse_ipv4_reply_spec parse_ipv6_reply_spec matched_if_def
  by (simp only: ipv4_reply_def ipv6_reply_def ipv4_header_len_def)

text \<open>
  C27: a packet that a parser would accept passes the kernel filter of its
  family whole, so the filter never hides a reply from the program.
\<close>

theorem filter_keeps_replies:
  assumes "length pkt \<le> 0xffff"
  shows "(parse_ipv4_reply pkt ident seq = Some ICMP_RECEIVE_MATCHED \<longrightarrow>
       length pkt \<le> bpf_run ipv4_filter pkt A X) \<and>
     (parse_ipv6_reply pkt ident seq = Some ICMP_RECEIVE_MATCHED \<longrightarrow>
       length pkt \<le> bpf_run ipv6_filter pkt A X)"
  using assms
  by (auto simp: parse_ipv4_reply_spec parse_ipv6_reply_spec matched_if_def ipv4_filter_run
      ipv6_filter_run ipv4_reply_def ipv6_reply_def Let_def split: if_splits)

theorem filter_keeps_replies_witness:
  "length [129 :: u8, 0, 0, 0, 0, 7, 0, 9] \<le> bpf_run ipv6_filter [129, 0, 0, 0, 0, 7, 0, 9] 0 0"
proof -
  have "parse_ipv6_reply [129, 0, 0, 0, 0, 7, 0, 9] 7 9 = Some ICMP_RECEIVE_MATCHED"
    by (simp add: parse_ipv6_reply_spec matched_if_def ipv6_reply_def be16_def)
  then show ?thesis
    using filter_keeps_replies [of "[129, 0, 0, 0, 0, 7, 0, 9]" 7 9 0 0] by simp
qed

text \<open>
  C28: the answer that RFC 792 prescribes to a request of the program, the request
  with the type replaced and any checksum, behind any IPv4 header that names ICMP, is recognised
  with the identifier and the sequence number of the request; likewise for ICMPv6.
\<close>

theorem echo_round_trip:
  assumes "8 \<le> n"
    and "length hdr = 4 * h" and "5 \<le> h" and "h \<le> 15"
    and "hdr ! 0 = 64 + word_of_nat h" and "hdr ! 9 = 1"
  shows "parse_ipv4_reply
      (hdr @ [0, 0, x, y] @ drop 4 (take n (echo_buffer le AF_INET ident seq n buf))) ident seq =
        Some ICMP_RECEIVE_MATCHED \<and>
    parse_ipv6_reply
      ([129, 0, x, y] @ drop 4 (take n (echo_buffer le AF_INET6 ident seq n buf))) ident seq =
        Some ICMP_RECEIVE_MATCHED"
proof -
  have tail: "drop 4 (take n (echo_buffer le fam ident seq n buf)) =
      store16_be ident @ store16_be seq @ take (n - 8) (drop 8 buf)" for fam
    unfolding echo_packet [OF assms(1)]
    by (cases "fam = AF_INET6"; cases le) (simp_all add: echo_checksum_def store16_def)
  define pkt where "pkt = hdr @ [0, 0, x, y] @ store16_be ident @ store16_be seq @ take (n - 8) (drop 8 buf)"
  have "ipv4_header_len pkt = 4 * h"
  proof -
    have "pkt ! 0 = 64 + word_of_nat h" using assms(2,3,5) by (simp add: pkt_def nth_append)
    moreover have "h \<in> {5, 6, 7, 8, 9, 10, 11, 12, 13, 14, 15}"
      using assms(3,4) unfolding insert_iff empty_iff by presburger
    ultimately show ?thesis by (auto simp: ipv4_header_len_def)
  qed
  moreover have "pkt ! 9 = 1" using assms(2,3,6) by (simp add: pkt_def nth_append)
  ultimately have "ipv4_reply pkt ident seq"
    using assms(2,3) by (simp add: ipv4_reply_def pkt_def nth_append store16_be_def)
  then have "parse_ipv4_reply pkt ident seq = Some ICMP_RECEIVE_MATCHED"
    by (simp add: parse_ipv4_reply_spec matched_if_def)
  moreover have "parse_ipv6_reply ([129, 0, x, y] @ store16_be ident @ store16_be seq @
      take (n - 8) (drop 8 buf)) ident seq = Some ICMP_RECEIVE_MATCHED"
    by (simp add: parse_ipv6_reply_spec matched_if_def ipv6_reply_def store16_be_def)
  ultimately show ?thesis unfolding tail pkt_def by simp
qed

theorem echo_round_trip_witness:
  "parse_ipv4_reply
      (([69, 0, 0, 84, 0, 0, 0, 0, 64, 1] @ replicate 10 0) @ [0, 0, 3, 4] @
       drop 4 (take 64 (echo_buffer True AF_INET 7 9 64 (replicate 256 0)))) 7 9 =
     Some ICMP_RECEIVE_MATCHED"
  using echo_round_trip [of 64 "[69, 0, 0, 84, 0, 0, 0, 0, 64, 1] @ replicate 10 0" 5 3 4 True 7 9
      "replicate 256 0"] by simp

text \<open>
  C29: a request of even size has the same bytes on a little-endian
  and on a big-endian host, although the checksum is computed and stored in native order.
\<close>

theorem packet_independent_of_byte_order:
  assumes "8 \<le> n" and "n \<le> 256" and "even n" and "length buf = 256"
  shows "take n (echo_buffer True fam ident seq n buf) = take n (echo_buffer False fam ident seq n buf)"
  using assms by (intro echo_packet_endian) auto

theorem packet_independent_of_byte_order_witness:
  "take 64 (echo_buffer True AF_INET 7 9 64 (replicate 256 5)) =
     take 64 (echo_buffer False AF_INET 7 9 64 (replicate 256 5))"
  by (rule packet_independent_of_byte_order) simp_all

text \<open>
  One call of \<open>icmp_pinger_receive_reply\<close> consumes one answer of
  \<open>recvfrom\<close>, always has a defined outcome, and reports a reply only for a nonempty datagram of
  the destination that is an echo reply with the expected numbers; its latency is the clock
  difference, or 0 if the clock went back. No other outcome but an error touches the result.
\<close>

theorem receive_reply_outcomes:
  "\<exists>status out' w'. icmp_pinger_receive_reply p dest ident seq sent_ms now_ms out w = Some (status, out', w') \<and>
     recvfrom_in w' = stl (recvfrom_in w) \<and>
     (case shd (recvfrom_in w) of
        Inl e \<Rightarrow>
          if e \<in> {EAGAIN, EWOULDBLOCK, EINTR} then status = ICMP_RECEIVE_NO_MORE \<and> out' = out
          else status = ICMP_RECEIVE_ERROR \<and> \<not> success out'
      | Inr (bytes, from) \<Rightarrow>
          if take 1500 bytes \<noteq> [] \<and> icmp_receive_source_matches dest from \<and>
             echo_reply (ss_family dest) (take 1500 bytes) ident seq
          then status = ICMP_RECEIVE_MATCHED \<and> success out' \<and>
            latency_ms out' = (if sent_ms \<le> now_ms then dbl_of_u64 (now_ms - sent_ms) else 0)
          else status = ICMP_RECEIVE_IGNORED \<and> out' = out)"
  by (auto simp: icmp_pinger_receive_reply_def sys_recvfrom_def RECV_BUF_SIZE_def parse_reply_spec
      matched_if_def split: sum.split prod.split)

end
