(* ===== verification/Context.thy ===== *)
theory Context
  imports Config Outage Services Shutdown MonitorState Metrics Icmp
begin

text \<open>
  What the handlers of \<open>src/src/monitor.c\<close> share: they get the context \<open>openups_ctx_t\<close>, the
  monitor state and the world, and return an answer with all three updated (\<open>None\<close> for a call
  that does not return). Their common contract is the locale \<open>monitor_handler\<close>: a handler returns
  in a fair world, does nothing but log, notify, wait, send packets and start the shutdown command,
  leaves the fixed part of the context alone, never takes a stop request back, keeps the invariant
  of the monitor, and refines a run of the outage machine that justifies every process it starts.
\<close>

section \<open>The fixed part of the context\<close>

text \<open>What no handler changes; \<open>stop_flag\<close>, the counters and the buffers are the rest.\<close>

definition ctx_fixed ::
    "openups_ctx_t \<Rightarrow> (config_t \<times> logger_t \<times> u16 \<times> sockaddr_storage \<times> nat \<times> runtime_services_t) \<times>
       (int \<times> int \<times> bool \<times> int \<times> u64)" where
  "ctx_fixed c =
     ((config c, logger c, cached_pid c, dest_addr c, dest_addr_len c, services c),
      (sockfd (pinger c), family (pinger c), sn_enabled (systemd c), sn_sockfd (systemd c),
       watchdog_usec (systemd c)))"

lemma ctx_fixed_parts:
  assumes "ctx_fixed c' = ctx_fixed c"
  shows "config c' = config c" "logger c' = logger c" "cached_pid c' = cached_pid c"
    "dest_addr c' = dest_addr c" "dest_addr_len c' = dest_addr_len c" "services c' = services c"
    "sockfd (pinger c') = sockfd (pinger c)" "family (pinger c') = family (pinger c)"
    "sn_enabled (systemd c') = sn_enabled (systemd c)"
    "sn_sockfd (systemd c') = sn_sockfd (systemd c)"
    "watchdog_usec (systemd c') = watchdog_usec (systemd c)"
  using assms by (simp_all add: ctx_fixed_def)

lemma ctx_fixed_update [simp]:
  "ctx_fixed (c\<lparr>consecutive_fails := n\<rparr>) = ctx_fixed c"
  "ctx_fixed (c\<lparr>metrics := m\<rparr>) = ctx_fixed c"
  "ctx_fixed (c\<lparr>stop_flag := b\<rparr>) = ctx_fixed c"
  by (simp_all add: ctx_fixed_def)

text \<open>
  A context ready for the monitor: a configuration of C integers, a service table of one shape, a
  socket, a destination of one of the two families, and the pinger on that family.
\<close>

definition ctx_wf :: "openups_ctx_t \<Rightarrow> bool" where
  "ctx_wf c \<longleftrightarrow>
     int_fields_fit (config c) \<and> services_wf (services c) (systemd c) \<and> 0 \<le> sockfd (pinger c) \<and>
     ss_family (dest_addr c) \<in> {AF_INET, AF_INET6} \<and> family (pinger c) = ss_family (dest_addr c)"

lemma ctx_wf_fixed: "ctx_fixed c' = ctx_fixed c \<Longrightarrow> ctx_wf c' = ctx_wf c"
  by (auto simp: ctx_fixed_def ctx_wf_def services_wf_def)

section \<open>The invariant of the monitor\<close>

text \<open>
  A shutdown is pending only after enough consecutive failures and only in a configuration that
  counts down; the packet buffer keeps its size and its payload.
\<close>

definition countdown_configured :: "config_t \<Rightarrow> bool" where
  "countdown_configured cfg \<longleftrightarrow> shutdown_mode cfg \<noteq> SHUTDOWN_MODE_LOG_ONLY \<and> 0 < delay_minutes cfg"

definition payload :: "u8 list" where
  "payload = map word_of_nat [0..<56]"

definition buffer_ready :: "u8 list \<Rightarrow> bool" where
  "buffer_ready buf \<longleftrightarrow> length buf = 256 \<and> take 56 (drop 8 buf) = payload"

definition monitor_inv :: "openups_ctx_t \<Rightarrow> monitor_state_t \<Rightarrow> bool" where
  "monitor_inv c s \<longleftrightarrow>
     ctx_wf c \<and> monitor_state_wf s \<and> 0 \<le> consecutive_fails c \<and> buffer_ready (send_buf (pinger c)) \<and>
     (pending (shutdown s) \<longrightarrow>
        fail_threshold (config c) \<le> consecutive_fails c \<and> countdown_configured (config c))"

section \<open>The contract of a handler\<close>

definition handler_events :: "event_class set" where
  "handler_events = {Cls_text, Cls_notify, Cls_wait, Cls_spawn, Cls_packet}"

text \<open>The state of the outage machine that a context and a monitor state stand for.\<close>

definition outage_abs :: "openups_ctx_t \<Rightarrow> monitor_state_t \<Rightarrow> outage" where
  "outage_abs c s =
     (nat (consecutive_fails c),
      if pending (shutdown s) then Some (unat (ss_deadline_ms (shutdown s))) else None)"

text \<open>The numbers of processes started and of packets sent.\<close>

definition spawns :: "world \<Rightarrow> nat" where
  "spawns w = length (events Cls_spawn w)"

definition packets :: "world \<Rightarrow> nat" where
  "packets w = length (events Cls_packet w)"

lemma spawns_later: "later K w w' \<Longrightarrow> Cls_spawn \<notin> K \<Longrightarrow> spawns w' = spawns w"
  by (simp add: spawns_def later_events)

lemma packets_later: "later K w w' \<Longrightarrow> Cls_packet \<notin> K \<Longrightarrow> packets w' = packets w"
  by (simp add: packets_def later_events)

lemma packets_mono: "later K w w' \<Longrightarrow> packets w \<le> packets w'"
  by (auto simp: packets_def later_def events_def)

text \<open>What the events mean for the statistics, and how many of them are the outcome of a probe.\<close>

fun event_metrics :: "outage_event \<Rightarrow> metrics_t \<Rightarrow> metrics_t" where
  "event_metrics (Reply l) m = metrics_record_success m l"
| "event_metrics (Lost t) m = metrics_record_failure m"
| "event_metrics (Tick t) m = m"

definition outcomes :: "outage_event list \<Rightarrow> nat" where
  "outcomes es = length (filter (\<lambda>e. \<not> is_tick e) es)"

lemma outcomes_simps [simp]:
  "outcomes [] = 0" "outcomes (es @ fs) = outcomes es + outcomes fs"
  "outcomes (e # es) = of_bool (\<not> is_tick e) + outcomes es"
  by (simp_all add: outcomes_def)

text \<open>
  A step refines a run of the outage machine over some events: it ends in the machine's state,
  its statistics are those of the events, every outcome belongs to a probe that was sent (one may
  be outstanding before and after), and it starts at most as many processes as shutdowns became
  due, none outside the true-off mode.
\<close>

type_synonym monitor_config = "openups_ctx_t \<times> monitor_state_t \<times> world"

definition refines_outage :: "monitor_config \<Rightarrow> outage_event list \<Rightarrow> monitor_config \<Rightarrow> bool" where
  "refines_outage = (\<lambda>(c, s, w) es (c', s', w').
     \<exists>k. outage_run (config c) es (outage_abs c s) = (outage_abs c' s', k) \<and>
       spawns w' \<le> spawns w + (if shutdown_mode (config c) = SHUTDOWN_MODE_TRUE_OFF then k else 0) \<and>
       metrics c' = fold event_metrics es (metrics c) \<and>
       outcomes es + of_bool (waiting (ping s')) + packets w \<le> of_bool (waiting (ping s)) + packets w')"

text \<open>A step refines the machine when it does so over some events, at one of these times.\<close>

definition outage_refined :: "nat set \<Rightarrow> monitor_config \<Rightarrow> monitor_config \<Rightarrow> bool" where
  "outage_refined T a b \<longleftrightarrow> (\<exists>es. event_times es \<subseteq> T \<and> refines_outage a es b)"

lemma outage_refinedI: "refines_outage a es b \<Longrightarrow> event_times es \<subseteq> T \<Longrightarrow> outage_refined T a b"
  unfolding outage_refined_def by blast

lemma outage_refined_mono: "outage_refined S a b \<Longrightarrow> S \<subseteq> T \<Longrightarrow> outage_refined T a b"
  unfolding outage_refined_def by blast

lemma refines_outage_trans:
  "refines_outage (c, s, w) es (c1, s1, w1) \<Longrightarrow> config c1 = config c \<Longrightarrow>
   refines_outage (c1, s1, w1) fs (c2, s2, w2) \<Longrightarrow> refines_outage (c, s, w) (es @ fs) (c2, s2, w2)"
  by (fastforce simp: refines_outage_def outage_run_append)

lemma outage_refined_trans:
  assumes "outage_refined T (c, s, w) (c1, s1, w1)" and "config c1 = config c"
    and "outage_refined T (c1, s1, w1) (c2, s2, w2)"
  shows "outage_refined T (c, s, w) (c2, s2, w2)"
proof -
  from assms(1,3) obtain es fs where "event_times (es @ fs) \<subseteq> T"
    and es: "refines_outage (c, s, w) es (c1, s1, w1)" "refines_outage (c1, s1, w1) fs (c2, s2, w2)"
    by (auto simp: outage_refined_def)
  with refines_outage_trans [OF es(1) assms(2) es(2)] show ?thesis
    unfolding outage_refined_def by blast
qed

text \<open>
  The contract, for a handler that reports losses and looks at the clock only at the given times.
\<close>

locale monitor_handler =
  fixes T :: "nat set" and run :: "openups_ctx_t \<Rightarrow> monitor_state_t \<Rightarrow> world \<Rightarrow>
      ('r \<times> openups_ctx_t \<times> monitor_state_t \<times> world) option"
  assumes later: "run c s w = Some (r, c', s', w') \<Longrightarrow> later handler_events w w'"
    and returns: "fair w \<Longrightarrow> returns (run c s w)"
    and fixed: "run c s w = Some (r, c', s', w') \<Longrightarrow> ctx_fixed c' = ctx_fixed c"
    and stop: "run c s w = Some (r, c', s', w') \<Longrightarrow> stop_flag c \<Longrightarrow> stop_flag c'"
    and inv: "run c s w = Some (r, c', s', w') \<Longrightarrow> monitor_inv c s \<Longrightarrow> monitor_inv c' s'"
    and refines: "run c s w = Some (r, c', s', w') \<Longrightarrow> monitor_inv c s \<Longrightarrow>
      outage_refined T (c, s, w) (c', s', w')"
begin

lemma stays_fair: "run c s w = Some (r, c', s', w') \<Longrightarrow> fair w \<Longrightarrow> fair w'"
  by (rule fair_later, assumption, erule later)

lemma keeps_held: "run c s w = Some (r, c', s', w') \<Longrightarrow> held fd w' = held fd w"
  by (rule held_later, erule later) (simp add: handler_events_def)

lemma accumulates:
  "run c s w = Some (r, c', s', w') \<Longrightarrow> later K w0 w \<Longrightarrow> handler_events \<subseteq> K \<Longrightarrow> later K w0 w'"
  by (rule later_trans, assumption, rule later_mono, erule later, assumption)

end

text \<open>Handlers compose: the next one runs on what the first one left, and may look at its answer.\<close>

lemma monitor_handler_bind:
  assumes f: "monitor_handler T f" and g: "\<And>r. monitor_handler T (g r)"
  shows "monitor_handler T (\<lambda>c s w. do { (r, c1, s1, w1) \<leftarrow> f c s w; g r c1 s1 w1 })"
proof
  fix c s w r c' s' w'
  assume "do { (r, c1, s1, w1) \<leftarrow> f c s w; g r c1 s1 w1 } = Some (r, c', s', w')"
  then obtain r1 c1 s1 w1 where 1: "f c s w = Some (r1, c1, s1, w1)"
    and 2: "g r1 c1 s1 w1 = Some (r, c', s', w')"
    by (auto split: bind_splits)
  show "later handler_events w w'"
    using monitor_handler.later [OF f 1] monitor_handler.later [OF g 2] by (rule later_trans)
  have fixed: "ctx_fixed c1 = ctx_fixed c" by (rule monitor_handler.fixed [OF f 1])
  then show "ctx_fixed c' = ctx_fixed c"
    using monitor_handler.fixed [OF g 2] by simp
  show "stop_flag c \<Longrightarrow> stop_flag c'"
    using monitor_handler.stop [OF f 1] monitor_handler.stop [OF g 2] by blast
  assume inv: "monitor_inv c s"
  show "monitor_inv c' s'"
    using monitor_handler.inv [OF g 2 monitor_handler.inv [OF f 1 inv]] .
  show "outage_refined T (c, s, w) (c', s', w')"
    using monitor_handler.refines [OF f 1 inv] ctx_fixed_parts(1) [OF fixed]
      monitor_handler.refines [OF g 2 monitor_handler.inv [OF f 1 inv]]
    by (blast intro: outage_refined_trans)
next
  fix c s w
  assume "fair w"
  then show "returns (do { (r, c1, s1, w1) \<leftarrow> f c s w; g r c1 s1 w1 })"
    using monitor_handler.returns [OF f] monitor_handler.returns [OF g]
      monitor_handler.stays_fair [OF f] by auto
qed

text \<open>A handler keeps its contract when more times are allowed.\<close>

lemma monitor_handler_mono: "monitor_handler S f \<Longrightarrow> S \<subseteq> T \<Longrightarrow> monitor_handler T f"
  unfolding monitor_handler_def by (meson outage_refined_mono)

text \<open>
  A handler that leaves the outage alone: the same failures, the same pending shutdown, the same
  statistics, no process, and no probe outstanding that was not sent.
\<close>

lemma quiet_step:
  assumes "consecutive_fails c' = consecutive_fails c" and "metrics c' = metrics c"
    and "shutdown s' = shutdown s" and "spawns w' = spawns w"
    and "of_bool (waiting (ping s')) + packets w \<le> of_bool (waiting (ping s)) + packets w'"
  shows "outage_refined T (c, s, w) (c', s', w')"
  using assms unfolding outage_refined_def by (intro exI [of _ "[]"]) (simp add: refines_outage_def outage_abs_def)

lemma quiet_same:
  assumes "later K w w'" and "K \<inter> {Cls_spawn, Cls_packet} = {}"
  shows "outage_refined T (c, s, w) (c, s, w')"
  using assms by (intro quiet_step) (auto dest: spawns_later packets_later)

section \<open>Notifications from a handler\<close>

text \<open>\<open>(void)runtime_services_notify_statusf(&ctx->services, ...)\<close>\<close>

definition ctx_notify_status :: "string \<Rightarrow> openups_ctx_t \<Rightarrow> world \<Rightarrow> (openups_ctx_t \<times> world) option" where
  "ctx_notify_status text c w =
     do { (_, sd, w1) \<leftarrow> runtime_services_notify_statusf text (services c) (systemd c) w;
          Some (c\<lparr>systemd := sd\<rparr>, w1) }"

lemma ctx_notify_status_effect:
  assumes "ctx_notify_status text c w = Some (c', w')"
  obtains sd where "c' = c\<lparr>systemd := sd\<rparr>" "ctx_fixed c' = ctx_fixed c"
    "later {Cls_notify, Cls_wait} w w'"
proof -
  from assms obtain ok sd where n: "runtime_services_notify_statusf text (services c) (systemd c) w
      = Some (ok, sd, w')" and c': "c' = c\<lparr>systemd := sd\<rparr>"
    by (auto simp: ctx_notify_status_def split: bind_splits)
  from status_op.keeps [OF n] c' have "ctx_fixed c' = ctx_fixed c" by (simp add: ctx_fixed_def)
  with c' status_op.later [OF n] that show thesis by blast
qed

lemma ctx_notify_status_total [total]: "fair w \<Longrightarrow> returns (ctx_notify_status text c w)"
  by (auto simp: ctx_notify_status_def total)

lemma ctx_notify_status_later [frame]:
  "ctx_notify_status text c w = Some (c', w') \<Longrightarrow> later K w0 w \<Longrightarrow> {Cls_notify, Cls_wait} \<subseteq> K \<Longrightarrow>
   later K w0 w'"
  by (elim ctx_notify_status_effect) (auto intro: later_trans later_mono)

lemma ctx_notify_status_fair [fairness]:
  "ctx_notify_status text c w = Some (c', w') \<Longrightarrow> fair w \<Longrightarrow> fair w'"
  by (elim ctx_notify_status_effect) (rule fair_later)

lemma ctx_notify_status_keeps:
  assumes "ctx_notify_status text c w = Some (c', w')"
  shows "ctx_fixed c' = ctx_fixed c" "consecutive_fails c' = consecutive_fails c"
    "metrics c' = metrics c" "pinger c' = pinger c" "stop_flag c' = stop_flag c"
    "monitor_inv c' s = monitor_inv c s"
proof -
  obtain sd where c': "c' = c\<lparr>systemd := sd\<rparr>" and fixed: "ctx_fixed c' = ctx_fixed c"
    using assms by (rule ctx_notify_status_effect)
  then show "ctx_fixed c' = ctx_fixed c" "consecutive_fails c' = consecutive_fails c"
    "metrics c' = metrics c" "pinger c' = pinger c" "stop_flag c' = stop_flag c" by simp_all
  with c' ctx_wf_fixed [OF fixed] show "monitor_inv c' s = monitor_inv c s"
    by (simp add: monitor_inv_def)
qed

end
