(* ===== verification/ShutdownFsm.thy ===== *)
theory ShutdownFsm
  imports Context
begin

text \<open>
  The shutdown state machine of \<open>src/src/monitor.c\<close> (\<open>shutdown_fsm_*\<close>): counting failures,
  the countdown, its cancellation and the execution of the shutdown. The specification it
  implements is the machine \<open>outage_step\<close> over the failure count and the pending deadline.
\<close>

section \<open>Operations\<close>

definition shutdown_fsm_config_delay_ms :: "config_t \<Rightarrow> u64" where
  "shutdown_fsm_config_delay_ms cfg =
     (if delay_minutes cfg \<le> 0 then 0
      else case ckd_mul (word_of_int (delay_minutes cfg)) OPENUPS_MS_PER_MINUTE of
             None \<Rightarrow> UINT64_MAX
           | Some delay_ms \<Rightarrow> delay_ms)"

definition shutdown_fsm_reset_failures :: "openups_ctx_t \<Rightarrow> openups_ctx_t" where
  "shutdown_fsm_reset_failures ctx = ctx\<lparr>consecutive_fails := 0\<rparr>"

definition shutdown_fsm_execute :: "openups_ctx_t \<Rightarrow> world \<Rightarrow> (bool \<times> world) option" where
  "shutdown_fsm_execute ctx w =
     do { (result, w1) \<leftarrow> shutdown_trigger (config ctx) (logger ctx)
            (runtime_services_is_enabled (services ctx)) w;
          if shutdown_mode (config ctx) = SHUTDOWN_MODE_DRY_RUN then
            Some (True, logger_info (logger ctx) ''Shutdown triggered, exiting monitor loop'' w1)
          else if result \<noteq> SHUTDOWN_RESULT_TRIGGERED then
            Some (False, logger_error (logger ctx)
              (''Shutdown command failed; '' @
               ''continuing monitoring with failure count preserved'') w1)
          else
            Some (True, logger_info (logger ctx) ''Shutdown triggered, exiting monitor loop'' w1) }"

definition shutdown_fsm_cancel ::
    "openups_ctx_t \<Rightarrow> monitor_state_t \<Rightarrow> world \<Rightarrow>
     (bool \<times> openups_ctx_t \<times> monitor_state_t \<times> world) option" where
  "shutdown_fsm_cancel ctx state w =
     (if \<not> monitor_shutdown_pending state then Some (False, ctx, state, w)
      else
        let state1 = monitor_shutdown_clear state;
            w1 = logger_info (logger ctx)
                   ''Connectivity restored; cancelled pending shutdown countdown'' w
        in do { (ctx1, w2) \<leftarrow> ctx_notify_status
                  ''Recovery detected; shutdown countdown cancelled'' ctx w1;
                Some (True, ctx1, state1, w2) })"

definition shutdown_fsm_handle_threshold ::
    "u64 \<Rightarrow> openups_ctx_t \<Rightarrow> monitor_state_t \<Rightarrow> world \<Rightarrow>
     (bool \<times> openups_ctx_t \<times> monitor_state_t \<times> world) option" where
  "shutdown_fsm_handle_threshold now_ms ctx state w =
     (if consecutive_fails ctx < fail_threshold (config ctx) then Some (False, ctx, state, w)
      else if shutdown_mode (config ctx) = SHUTDOWN_MODE_LOG_ONLY then
        Some (False, shutdown_fsm_reset_failures ctx, state,
          logger_warn (logger ctx)
            (''Log-only mode: failure threshold reached, '' @
             ''continuing monitoring without shutdown'') w)
      else if delay_minutes (config ctx) \<le> 0 then
        do { (stop, w1) \<leftarrow> shutdown_fsm_execute ctx w; Some (stop, ctx, state, w1) }
      else if monitor_shutdown_pending state then Some (False, ctx, state, w)
      else
        let delay_ms = shutdown_fsm_config_delay_ms (config ctx)
        in if delay_ms = 0 \<or> delay_ms = UINT64_MAX then
             Some (False, shutdown_fsm_reset_failures ctx, state,
               logger_error (logger ctx) ''Failed to compute delayed shutdown countdown duration'' w)
           else
             let (armed, state1) = monitor_shutdown_arm state now_ms delay_ms
             in if \<not> armed then
                  Some (False, shutdown_fsm_reset_failures ctx, state1,
                    logger_error (logger ctx) ''Failed to compute shutdown countdown deadline'' w)
                else
                  let w1 = log_shutdown_countdown (logger ctx) (shutdown_mode (config ctx))
                             (delay_minutes (config ctx)) w
                  in do { (ctx1, w2) \<leftarrow> ctx_notify_status
                            (shutdown_mode_to_string (shutdown_mode (config ctx)) @
                             '' countdown started: '' @ show_int (delay_minutes (config ctx)) @
                             '' minutes'') ctx w1;
                          Some (False, ctx1, state1, w2) })"

definition shutdown_fsm_handle_tick ::
    "u64 \<Rightarrow> openups_ctx_t \<Rightarrow> monitor_state_t \<Rightarrow> world \<Rightarrow>
     (bool \<times> openups_ctx_t \<times> monitor_state_t \<times> world) option" where
  "shutdown_fsm_handle_tick now_ms ctx state w =
     (if \<not> monitor_shutdown_pending state \<or> \<not> monitor_shutdown_deadline_elapsed state now_ms
      then Some (False, ctx, state, w)
      else
        let state1 = monitor_shutdown_clear state;
            mode = shutdown_mode_to_string (shutdown_mode (config ctx));
            w1 = logger_warn (logger ctx) (mode @ '' countdown elapsed; executing shutdown now'') w
        in do { (ctx1, w2) \<leftarrow> ctx_notify_status
                  (mode @ '' countdown elapsed; executing shutdown'') ctx w1;
                (stop, w3) \<leftarrow> shutdown_fsm_execute ctx1 w2;
                Some (stop, ctx1, state1, w3) })"

section \<open>The delay\<close>

lemma shutdown_fsm_config_delay_ms_exact:
  assumes "0 \<le> delay_minutes cfg" and "delay_minutes cfg \<le> INT_MAX"
  shows "unat (shutdown_fsm_config_delay_ms cfg) = nat (delay_minutes cfg) * 60000"
proof (cases "delay_minutes cfg = 0")
  case True
  then show ?thesis by (simp add: shutdown_fsm_config_delay_ms_def)
next
  case False
  have u: "unat (word_of_int (delay_minutes cfg) :: u64) = nat (delay_minutes cfg)"
    using assms by (rule unat_of_int_u64_small)
  have "nat (delay_minutes cfg) * 60000 < 2 ^ 64"
    using assms by (simp add: INT_MAX_def)
  then obtain d where d: "ckd_mul (word_of_int (delay_minutes cfg)) OPENUPS_MS_PER_MINUTE = Some d"
    by (simp add: ckd_mul_def u openups_consts)
  then have "unat d = nat (delay_minutes cfg) * 60000" by (simp add: ckd_mul_Some_iff u openups_consts)
  with d False assms(1) show ?thesis by (simp add: shutdown_fsm_config_delay_ms_def)
qed

section \<open>Executing the shutdown\<close>

text \<open>The shutdown counts as executed: always in the dry-run mode, else when it was triggered.\<close>

definition executed :: "config_t \<Rightarrow> shutdown_result_t \<Rightarrow> bool" where
  "executed cfg r \<longleftrightarrow>
     shutdown_mode cfg = SHUTDOWN_MODE_DRY_RUN \<or> r = SHUTDOWN_RESULT_TRIGGERED"

lemma shutdown_fsm_execute_effect:
  assumes "shutdown_fsm_execute ctx w = Some (stop, w')"
  obtains r w1 where "shutdown_trigger (config ctx) (logger ctx)
      (runtime_services_is_enabled (services ctx)) w = Some (r, w1)"
    "stop \<longleftrightarrow> executed (config ctx) r" "later {Cls_text} w1 w'"
  using assms
  by (auto simp: shutdown_fsm_execute_def executed_def logger_later
      split: bind_splits if_splits)

lemma shutdown_fsm_execute_later [frame]:
  "shutdown_fsm_execute ctx w = Some (stop, w') \<Longrightarrow> later K w0 w \<Longrightarrow>
   {Cls_text, Cls_wait, Cls_spawn} \<subseteq> K \<Longrightarrow> later K w0 w'"
  by (elim shutdown_fsm_execute_effect)
    (rule later_trans, erule (1) shutdown_trigger_later, assumption, erule later_mono, simp)

lemma shutdown_fsm_execute_fair [fairness]:
  "shutdown_fsm_execute ctx w = Some (stop, w') \<Longrightarrow> fair w \<Longrightarrow> fair w'"
  by (rule fair_later [where K = UNIV], assumption, erule frame, rule later_refl, simp)

lemma shutdown_fsm_execute_total [total]: "fair w \<Longrightarrow> returns (shutdown_fsm_execute ctx w)"
  by (auto simp: shutdown_fsm_execute_def total)

text \<open>The handler can start one process, in the true-off mode, and only then is it stopped by a failure.\<close>

lemma shutdown_fsm_execute_spawns:
  assumes "shutdown_fsm_execute ctx w = Some (stop, w')"
  shows "spawns w' \<le> spawns w + (if shutdown_mode (config ctx) = SHUTDOWN_MODE_TRUE_OFF then 1 else 0)"
    and "shutdown_mode (config ctx) = SHUTDOWN_MODE_DRY_RUN \<Longrightarrow> stop"
    and "shutdown_mode (config ctx) = SHUTDOWN_MODE_LOG_ONLY \<Longrightarrow> \<not> stop"
proof -
  obtain r w1 where t: "shutdown_trigger (config ctx) (logger ctx)
      (runtime_services_is_enabled (services ctx)) w = Some (r, w1)"
    and stop: "stop \<longleftrightarrow> executed (config ctx) r" and l: "later {Cls_text} w1 w'"
    using assms by (rule shutdown_fsm_execute_effect)
  have "spawns w' = spawns w1" by (rule spawns_later [OF l]) simp
  with trigger_outcome [OF t] show
    "spawns w' \<le> spawns w + (if shutdown_mode (config ctx) = SHUTDOWN_MODE_TRUE_OFF then 1 else 0)"
    by (auto simp: spawns_def split: if_splits)
  show "shutdown_mode (config ctx) = SHUTDOWN_MODE_DRY_RUN \<Longrightarrow> stop"
    by (simp add: stop executed_def)
  show "shutdown_mode (config ctx) = SHUTDOWN_MODE_LOG_ONLY \<Longrightarrow> \<not> stop"
    using trigger_outcome [OF t] by (auto simp: stop executed_def)
qed

section \<open>Cancelling\<close>

lemma shutdown_fsm_cancel_effect:
  assumes "shutdown_fsm_cancel ctx state w = Some (r, ctx', state', w')"
  shows "ctx_fixed ctx' = ctx_fixed ctx" and "consecutive_fails ctx' = consecutive_fails ctx"
    and "metrics ctx' = metrics ctx" and "pinger ctx' = pinger ctx"
    and "state' = (if pending (shutdown state) then monitor_shutdown_clear state else state)"
    and "later {Cls_text, Cls_notify, Cls_wait} w w'" and "r = pending (shutdown state)"
    and "stop_flag ctx' = stop_flag ctx"
  using assms
  by (auto simp: shutdown_fsm_cancel_def monitor_shutdown_pending_def Let_def
      split: if_splits bind_splits dest: ctx_notify_status_keeps
      intro: ctx_notify_status_later logger_later)

lemma shutdown_fsm_cancel_total [total]: "fair w \<Longrightarrow> returns (shutdown_fsm_cancel ctx state w)"
  by (auto simp: shutdown_fsm_cancel_def Let_def total)

section \<open>Reaching the threshold\<close>

text \<open>The branches of the handler, one lemma each.\<close>

lemma threshold_below:
  "consecutive_fails ctx < fail_threshold (config ctx) \<Longrightarrow>
   shutdown_fsm_handle_threshold now ctx state w = Some (False, ctx, state, w)"
  by (simp add: shutdown_fsm_handle_threshold_def)

lemma threshold_log_only:
  assumes "\<not> consecutive_fails ctx < fail_threshold (config ctx)"
    and "shutdown_mode (config ctx) = SHUTDOWN_MODE_LOG_ONLY"
  shows "\<exists>w1. shutdown_fsm_handle_threshold now ctx state w =
      Some (False, ctx\<lparr>consecutive_fails := 0\<rparr>, state, w1) \<and> later {Cls_text} w w1"
  using assms
  by (simp add: shutdown_fsm_handle_threshold_def shutdown_fsm_reset_failures_def logger_later)

lemma threshold_immediate:
  assumes "\<not> consecutive_fails ctx < fail_threshold (config ctx)"
    and "shutdown_mode (config ctx) \<noteq> SHUTDOWN_MODE_LOG_ONLY" and "delay_minutes (config ctx) \<le> 0"
  shows "shutdown_fsm_handle_threshold now ctx state w =
      do { (stop, w1) \<leftarrow> shutdown_fsm_execute ctx w; Some (stop, ctx, state, w1) }"
  using assms by (simp add: shutdown_fsm_handle_threshold_def)

lemma threshold_counting:
  assumes "\<not> consecutive_fails ctx < fail_threshold (config ctx)"
    and "countdown_configured (config ctx)" and "pending (shutdown state)"
  shows "shutdown_fsm_handle_threshold now ctx state w = Some (False, ctx, state, w)"
  using assms
  by (simp add: shutdown_fsm_handle_threshold_def countdown_configured_def monitor_shutdown_pending_def)

lemma threshold_unarmed:
  assumes "\<not> consecutive_fails ctx < fail_threshold (config ctx)"
    and "countdown_configured (config ctx)" and "\<not> pending (shutdown state)"
    and "shutdown_fsm_config_delay_ms (config ctx) \<in> {0, UINT64_MAX} \<or>
      monitor_shutdown_arm state now (shutdown_fsm_config_delay_ms (config ctx)) = (False, state)"
  shows "\<exists>w1. shutdown_fsm_handle_threshold now ctx state w =
      Some (False, ctx\<lparr>consecutive_fails := 0\<rparr>, state, w1) \<and> later {Cls_text} w w1"
  using assms
  by (auto simp: shutdown_fsm_handle_threshold_def shutdown_fsm_reset_failures_def Let_def
      countdown_configured_def monitor_shutdown_pending_def logger_later)

lemma threshold_armed:
  assumes "\<not> consecutive_fails ctx < fail_threshold (config ctx)"
    and "countdown_configured (config ctx)" and "\<not> pending (shutdown state)"
    and "shutdown_fsm_config_delay_ms (config ctx) \<notin> {0, UINT64_MAX}"
    and "monitor_shutdown_arm state now (shutdown_fsm_config_delay_ms (config ctx)) = (True, state1)"
  shows "\<exists>msg w1. shutdown_fsm_handle_threshold now ctx state w =
      do { (ctx1, w2) \<leftarrow> ctx_notify_status msg ctx w1; Some (False, ctx1, state1, w2) } \<and>
      later {Cls_text} w w1"
proof (intro exI conjI)
  show "shutdown_fsm_handle_threshold now ctx state w =
      do { (ctx1, w2) \<leftarrow> ctx_notify_status (shutdown_mode_to_string (shutdown_mode (config ctx)) @
             '' countdown started: '' @ show_int (delay_minutes (config ctx)) @ '' minutes'') ctx
             (log_shutdown_countdown (logger ctx) (shutdown_mode (config ctx))
               (delay_minutes (config ctx)) w);
           Some (False, ctx1, state1, w2) }"
    using assms
    by (simp add: shutdown_fsm_handle_threshold_def countdown_configured_def
        monitor_shutdown_pending_def)
qed (simp add: log_shutdown_countdown_later)

lemma threshold_cases:
  assumes "shutdown_fsm_handle_threshold now ctx state w = Some (stop, ctx', state', w')"
  obtains (below) "consecutive_fails ctx < fail_threshold (config ctx)" "\<not> stop"
      "ctx' = ctx" "state' = state" "w' = w"
  | (log_only) "fail_threshold (config ctx) \<le> consecutive_fails ctx"
      "shutdown_mode (config ctx) = SHUTDOWN_MODE_LOG_ONLY" "\<not> stop"
      "ctx' = ctx\<lparr>consecutive_fails := 0\<rparr>" "state' = state" "later {Cls_text} w w'"
  | (immediate) "fail_threshold (config ctx) \<le> consecutive_fails ctx"
      "shutdown_mode (config ctx) \<noteq> SHUTDOWN_MODE_LOG_ONLY" "delay_minutes (config ctx) \<le> 0"
      "shutdown_fsm_execute ctx w = Some (stop, w')" "ctx' = ctx" "state' = state"
  | (counting) "fail_threshold (config ctx) \<le> consecutive_fails ctx"
      "countdown_configured (config ctx)" "pending (shutdown state)" "\<not> stop"
      "ctx' = ctx" "state' = state" "w' = w"
  | (unarmed) "fail_threshold (config ctx) \<le> consecutive_fails ctx"
      "countdown_configured (config ctx)" "\<not> pending (shutdown state)" "\<not> stop"
      "shutdown_fsm_config_delay_ms (config ctx) \<in> {0, UINT64_MAX} \<or>
       monitor_shutdown_arm state now (shutdown_fsm_config_delay_ms (config ctx)) = (False, state)"
      "ctx' = ctx\<lparr>consecutive_fails := 0\<rparr>" "state' = state" "later {Cls_text} w w'"
  | (armed) "fail_threshold (config ctx) \<le> consecutive_fails ctx"
      "countdown_configured (config ctx)" "\<not> pending (shutdown state)" "\<not> stop"
      "monitor_shutdown_arm state now (shutdown_fsm_config_delay_ms (config ctx)) = (True, state')"
      "ctx_fixed ctx' = ctx_fixed ctx" "consecutive_fails ctx' = consecutive_fails ctx"
      "metrics ctx' = metrics ctx" "pinger ctx' = pinger ctx"
      "later {Cls_text, Cls_notify, Cls_wait} w w'" "stop_flag ctx' = stop_flag ctx"
proof -
  let ?delay = "shutdown_fsm_config_delay_ms (config ctx)"
  obtain ok state1 where arm: "monitor_shutdown_arm state now ?delay = (ok, state1)" by fastforce
  then have keep: "\<not> ok \<Longrightarrow> state1 = state" using shutdown_timer.arm_fails by (cases ok) auto
  have cfg: "shutdown_mode (config ctx) = SHUTDOWN_MODE_LOG_ONLY \<or> delay_minutes (config ctx) \<le> 0 \<or>
      countdown_configured (config ctx)" by (auto simp: countdown_configured_def)
  consider (less) "consecutive_fails ctx < fail_threshold (config ctx)"
    | (logs) "\<not> consecutive_fails ctx < fail_threshold (config ctx)"
        "shutdown_mode (config ctx) = SHUTDOWN_MODE_LOG_ONLY"
    | (now) "\<not> consecutive_fails ctx < fail_threshold (config ctx)"
        "shutdown_mode (config ctx) \<noteq> SHUTDOWN_MODE_LOG_ONLY" "delay_minutes (config ctx) \<le> 0"
    | (runs) "\<not> consecutive_fails ctx < fail_threshold (config ctx)"
        "countdown_configured (config ctx)" "pending (shutdown state)"
    | (bad) "\<not> consecutive_fails ctx < fail_threshold (config ctx)"
        "countdown_configured (config ctx)" "\<not> pending (shutdown state)"
        "?delay \<in> {0, UINT64_MAX} \<or> monitor_shutdown_arm state now ?delay = (False, state)"
    | (good) "\<not> consecutive_fails ctx < fail_threshold (config ctx)"
        "countdown_configured (config ctx)" "\<not> pending (shutdown state)"
        "?delay \<notin> {0, UINT64_MAX}" "monitor_shutdown_arm state now ?delay = (True, state1)"
    using arm keep cfg by (cases ok) auto
  then show thesis
  proof cases
    case less
    with assms threshold_below [OF less, of now state w] show thesis by (intro below) auto
  next
    case logs
    with assms threshold_log_only [OF logs, of now state w] show thesis by (intro log_only) auto
  next
    case now
    with assms threshold_immediate [OF now, of now state w] show thesis
      by (intro immediate) (auto split: bind_splits)
  next
    case runs
    with assms threshold_counting [OF runs, of now w] show thesis by (intro counting) auto
  next
    case bad
    with assms threshold_unarmed [OF bad, of w] show thesis by (intro unarmed) auto
  next
    case good
    from threshold_armed [OF good, of w] assms obtain msg w1
      where n: "ctx_notify_status msg ctx w1 = Some (ctx', w')" and r: "\<not> stop" "state' = state1"
        and l: "later {Cls_text} w w1"
      by (auto split: bind_splits)
    have "later {Cls_text, Cls_notify, Cls_wait} w w'"
      by (rule ctx_notify_status_later [OF n later_mono [OF l]]) simp_all
    with ctx_notify_status_keeps [OF n] r good show thesis by (intro armed) simp_all
  qed
qed

lemma threshold_total [total]:
  "fair w \<Longrightarrow> returns (shutdown_fsm_handle_threshold now ctx state w)"
  by (auto simp: shutdown_fsm_handle_threshold_def Let_def total split: prod.split)

lemma threshold_later [frame]:
  "shutdown_fsm_handle_threshold now ctx state w = Some (stop, ctx', state', w') \<Longrightarrow> later K w0 w \<Longrightarrow>
   {Cls_text, Cls_notify, Cls_wait, Cls_spawn} \<subseteq> K \<Longrightarrow> later K w0 w'"
  by (erule threshold_cases)
    (auto intro: later_trans later_mono shutdown_fsm_execute_later)

lemma threshold_keeps:
  assumes "shutdown_fsm_handle_threshold now ctx state w = Some (stop, ctx', state', w')"
  shows "ctx_fixed ctx' = ctx_fixed ctx" and "pinger ctx' = pinger ctx"
    and "ping state' = ping state" and "metrics ctx' = metrics ctx"
    and "stop_flag ctx' = stop_flag ctx"
  using assms
  by (cases rule: threshold_cases; force simp: monitor_shutdown_arm_def Let_def split: if_splits)+

lemma threshold_inv:
  assumes "shutdown_fsm_handle_threshold now ctx state w = Some (stop, ctx', state', w')"
    and "monitor_inv ctx state"
  shows "monitor_inv ctx' state'"
proof -
  note fixed = threshold_keeps [OF assms(1)]
  have wf: "ctx_wf ctx'" "config ctx' = config ctx" "buffer_ready (send_buf (pinger ctx'))"
    using assms(2) ctx_wf_fixed [OF fixed(1)] ctx_fixed_parts(1) [OF fixed(1)] fixed(2)
    by (simp_all add: monitor_inv_def)
  from assms(1) show ?thesis
  proof (cases rule: threshold_cases)
    case armed
    then have "monitor_state_wf state'"
      using monitor_state_wf_steps(5) [of state now] assms(2) by (metis monitor_inv_def snd_conv)
    with armed wf assms(2) show ?thesis by (simp add: monitor_inv_def)
  qed (use wf assms(2) in \<open>auto simp: monitor_inv_def countdown_configured_def\<close>)
qed

section \<open>The threshold refines the loss of a probe\<close>

text \<open>The failure that led here is already counted, so the machine's state before it has one less.\<close>

definition due_of :: "monitor_state_t \<Rightarrow> nat option" where
  "due_of s = (if pending (shutdown s) then Some (unat (ss_deadline_ms (shutdown s))) else None)"

lemma outage_abs_eq: "outage_abs c s = (nat (consecutive_fails c), due_of s)"
  by (simp add: outage_abs_def due_of_def)

lemma countdown_arms:
  assumes "int_fields_fit cfg" and "countdown_configured cfg"
  shows "unat (shutdown_fsm_config_delay_ms cfg) = delay_of cfg"
    and "shutdown_fsm_config_delay_ms cfg \<notin> {0, UINT64_MAX}"
proof -
  have m: "0 < delay_minutes cfg" "delay_minutes cfg \<le> INT_MAX"
    using assms by (auto simp: int_fields_fit_def countdown_configured_def)
  then show d: "unat (shutdown_fsm_config_delay_ms cfg) = delay_of cfg"
    using shutdown_fsm_config_delay_ms_exact [of cfg] by (simp add: delay_of_def)
  have "0 < delay_of cfg" "delay_of cfg < unat UINT64_MAX"
    using m by (simp_all add: delay_of_def INT_MAX_def)
  with d show "shutdown_fsm_config_delay_ms cfg \<notin> {0, UINT64_MAX}"
    by (auto simp del: unat_UINT64_MAX)
qed

lemma threshold_refines:
  assumes "shutdown_fsm_handle_threshold now ctx state w = Some (stop, ctx', state', w')"
    and "int_fields_fit (config ctx)" and "0 < consecutive_fails ctx"
  shows "\<exists>shut. outage_step (config ctx) (Lost (unat now)) (nat (consecutive_fails ctx) - 1, due_of state) =
      (outage_abs ctx' state', shut) \<and> (stop \<longrightarrow> shut) \<and>
    spawns w' \<le> spawns w + (if shutdown_mode (config ctx) = SHUTDOWN_MODE_TRUE_OFF then of_bool shut else 0)"
proof -
  define n where "n = nat (consecutive_fails ctx) - 1"
  have n: "nat (consecutive_fails ctx) = n + 1" "int (n + 1) = consecutive_fails ctx"
    using assms(3) by (simp_all add: n_def)
  have due: "due_of state' = due_of state" if "state' = state" using that by simp
  have quiet: "spawns w' = spawns w" if "later K w w'" "Cls_spawn \<notin> K" for K
    using that by (rule spawns_later)
  from assms(1) show ?thesis
  proof (cases rule: threshold_cases)
    case below
    then show ?thesis using n
      by (simp add: outage_abs_eq ex_bool_eq flip: n_def)
  next
    case log_only
    then show ?thesis using n quiet [OF log_only(6)] by (simp add: outage_abs_eq ex_bool_eq due_of_def flip: n_def)
  next
    case immediate
    then show ?thesis using n shutdown_fsm_execute_spawns(1) [OF immediate(4)]
      by (simp add: outage_abs_eq ex_bool_eq split: if_splits flip: n_def)
  next
    case counting
    then show ?thesis using n
      by (simp add: outage_abs_eq ex_bool_eq due_of_def countdown_configured_def flip: n_def)
  next
    case unarmed
    then have "unat UINT64_MAX \<le> unat now + delay_of (config ctx)"
      using countdown_arms [OF assms(2) unarmed(2)] shutdown_timer.arm_fails [of state now _ state]
      by fastforce
    then show ?thesis using n unarmed quiet [OF unarmed(8)]
      by (simp add: outage_abs_eq ex_bool_eq due_of_def countdown_configured_def outage_limit_def flip: n_def)
  next
    case armed
    note a = shutdown_timer.arm_ok [OF armed(5)]
    have "unat (ss_deadline_ms (shutdown state')) = unat now + delay_of (config ctx)"
      using a countdown_arms(1) [OF assms(2) armed(2)] by simp
    moreover have "unat (ss_deadline_ms (shutdown state')) < outage_limit"
      using a unat_u64_bound [of "ss_deadline_ms (shutdown state')"]
      by (auto simp: outage_limit_def u64_eq_max_iff)
    ultimately show ?thesis using n armed a quiet [OF armed(10)]
      by (simp add: outage_abs_eq ex_bool_eq due_of_def countdown_configured_def monitor_shutdown_pending_def
          flip: n_def)
  qed
qed

section \<open>The tick\<close>

lemma tick_fires:
  assumes "monitor_shutdown_deadline_elapsed state now"
  shows "\<exists>msg w0. shutdown_fsm_handle_tick now ctx state w =
      do { (ctx1, w1) \<leftarrow> ctx_notify_status msg ctx w0;
           (stop, w2) \<leftarrow> shutdown_fsm_execute ctx1 w1;
           Some (stop, ctx1, monitor_shutdown_clear state, w2) } \<and> later {Cls_text} w w0"
proof -
  have e: "(\<not> monitor_shutdown_pending state \<or> \<not> monitor_shutdown_deadline_elapsed state now) = False"
    using assms by (simp add: monitor_shutdown_deadline_elapsed_def monitor_shutdown_pending_def)
  show ?thesis
    unfolding shutdown_fsm_handle_tick_def e if_False Let_def
    by (intro exI conjI, rule refl) (simp add: logger_later)
qed

lemma tick_cases:
  assumes "shutdown_fsm_handle_tick now ctx state w = Some (stop, ctx', state', w')"
  obtains (idle) "\<not> monitor_shutdown_deadline_elapsed state now" "\<not> stop" "ctx' = ctx"
      "state' = state" "w' = w"
  | (fire) w1 where "monitor_shutdown_deadline_elapsed state now" "state' = monitor_shutdown_clear state"
      "ctx_fixed ctx' = ctx_fixed ctx" "consecutive_fails ctx' = consecutive_fails ctx"
      "metrics ctx' = metrics ctx" "pinger ctx' = pinger ctx"
      "later {Cls_text, Cls_notify, Cls_wait} w w1"
      "shutdown_fsm_execute ctx' w1 = Some (stop, w')" "stop_flag ctx' = stop_flag ctx"
proof (cases "monitor_shutdown_deadline_elapsed state now")
  case False
  then have "shutdown_fsm_handle_tick now ctx state w = Some (False, ctx, state, w)"
    by (simp add: shutdown_fsm_handle_tick_def)
  with assms False show thesis by (intro idle) simp_all
next
  case True
  from tick_fires [OF True, of ctx w] assms obtain msg w0 where
    "do { (ctx1, w1) \<leftarrow> ctx_notify_status msg ctx w0;
          (stop, w2) \<leftarrow> shutdown_fsm_execute ctx1 w1;
          Some (stop, ctx1, monitor_shutdown_clear state, w2) } = Some (stop, ctx', state', w')"
    and l: "later {Cls_text} w w0" by auto
  then obtain w1 where n: "ctx_notify_status msg ctx w0 = Some (ctx', w1)"
    and e: "shutdown_fsm_execute ctx' w1 = Some (stop, w')" "state' = monitor_shutdown_clear state"
    by (auto simp: Option.bind_eq_Some_conv)
  have "later {Cls_text, Cls_notify, Cls_wait} w w1"
    by (rule ctx_notify_status_later [OF n later_mono [OF l]]) simp_all
  with fire True e ctx_notify_status_keeps [OF n] show thesis by simp
qed

interpretation tick: monitor_handler "{unat now}" "shutdown_fsm_handle_tick now" for now
proof
  fix ctx state w stop ctx' state' w'
  assume t: "shutdown_fsm_handle_tick now ctx state w = Some (stop, ctx', state', w')"
  then show "later handler_events w w'"
    by (cases rule: tick_cases)
      (auto simp: handler_events_def intro: shutdown_fsm_execute_later later_mono)
  from t show fixed: "ctx_fixed ctx' = ctx_fixed ctx" by (cases rule: tick_cases) simp_all
  from t show "stop_flag ctx \<Longrightarrow> stop_flag ctx'" by (cases rule: tick_cases) simp_all
  assume inv: "monitor_inv ctx state"
  show "monitor_inv ctx' state'"
    using t
  proof (cases rule: tick_cases)
    case fire
    with inv ctx_wf_fixed [OF fixed] ctx_fixed_parts(1) [OF fixed] monitor_state_wf_steps(2) [of state]
    show ?thesis by (simp add: monitor_inv_def monitor_shutdown_clear_def)
  qed (use inv in simp)
  show "outage_refined {unat now} (ctx, state, w) (ctx', state', w')"
    using t
  proof (cases rule: tick_cases)
    case idle
    then show ?thesis by (intro quiet_step) simp_all
  next
    case (fire w1)
    have "spawns w1 = spawns w" by (rule spawns_later [OF fire(7)]) simp
    moreover have "later {Cls_text, Cls_notify, Cls_wait, Cls_spawn} w w'"
      by (rule shutdown_fsm_execute_later [OF fire(8)], rule later_mono [OF fire(7)]) auto
    then have "packets w' = packets w" by (rule packets_later) simp
    ultimately have "refines_outage (ctx, state, w) [Tick (unat now)] (ctx', state', w')"
      using fire shutdown_fsm_execute_spawns(1) [OF fire(8)] ctx_fixed_parts(1) [OF fixed]
      by (simp add: refines_outage_def outage_abs_def monitor_shutdown_deadline_elapsed_def
          monitor_shutdown_clear_def word_le_nat_alt split: if_splits)
    then show ?thesis by (rule outage_refinedI) simp
  qed
next
  fix ctx state w
  assume "fair w"
  then show "returns (shutdown_fsm_handle_tick now ctx state w)"
    by (auto simp: shutdown_fsm_handle_tick_def Let_def total dest: fairness)
qed

section \<open>What the state machine guarantees\<close>

lemma execute_trigger:
  assumes "shutdown_fsm_execute ctx w = Some (stop, w')"
  shows "\<exists>r w1. shutdown_trigger (config ctx) (logger ctx) (runtime_services_is_enabled (services ctx)) w
      = Some (r, w1) \<and>
    (stop \<longleftrightarrow> shutdown_mode (config ctx) = SHUTDOWN_MODE_DRY_RUN \<or> r = SHUTDOWN_RESULT_TRIGGERED)"
  using assms by (elim shutdown_fsm_execute_effect) (auto simp: executed_def)

text \<open>
  C7: what the loss of a probe leads to. Below the threshold nothing happens. At it,
  the log-only mode starts counting anew; without a delay the shutdown is triggered at once, and
  the loop stops exactly in the dry-run mode or when the command was triggered; a countdown that
  is running goes on; otherwise one is armed that ends exactly the configured minutes from now,
  unless this time does not fit 64 bits, when counting starts anew. Only the trigger starts
  processes.
\<close>

theorem threshold_decides:
  assumes "shutdown_fsm_handle_threshold now ctx state w = Some (stop, ctx', state', w')"
    and "int_fields_fit (config ctx)"
  shows "if consecutive_fails ctx < fail_threshold (config ctx)
    then (stop, ctx', state', w') = (False, ctx, state, w)
    else if shutdown_mode (config ctx) = SHUTDOWN_MODE_LOG_ONLY
    then \<not> stop \<and> ctx' = ctx\<lparr>consecutive_fails := 0\<rparr> \<and> state' = state \<and> spawns w' = spawns w
    else if delay_minutes (config ctx) \<le> 0
    then ctx' = ctx \<and> state' = state \<and>
      (\<exists>r w1. shutdown_trigger (config ctx) (logger ctx) (runtime_services_is_enabled (services ctx)) w
           = Some (r, w1) \<and>
         (stop \<longleftrightarrow> shutdown_mode (config ctx) = SHUTDOWN_MODE_DRY_RUN \<or> r = SHUTDOWN_RESULT_TRIGGERED))
    else if pending (shutdown state) then (stop, ctx', state', w') = (False, ctx, state, w)
    else \<not> stop \<and> spawns w' = spawns w \<and>
      (if unat now + nat (delay_minutes (config ctx)) * 60000 < 2 ^ 64 - 1
       then pending (shutdown state') \<and> consecutive_fails ctx' = consecutive_fails ctx \<and>
         unat (ss_deadline_ms (shutdown state')) = unat now + nat (delay_minutes (config ctx)) * 60000
       else state' = state \<and> ctx' = ctx\<lparr>consecutive_fails := 0\<rparr>)"
  using assms(1)
proof (cases rule: threshold_cases)
  case log_only
  then show ?thesis using spawns_later [OF log_only(6)] by simp
next
  case immediate
  then show ?thesis using execute_trigger [OF immediate(4)] by simp
next
  case unarmed
  note d = countdown_arms [OF assms(2) unarmed(2)]
  then have "unat UINT64_MAX \<le> unat now + nat (delay_minutes (config ctx)) * 60000"
    using unarmed shutdown_timer.arm_fails [of state now _ state] by (fastforce simp: delay_of_def)
  then show ?thesis
    using unarmed spawns_later [OF unarmed(8)] by (simp add: countdown_configured_def)
next
  case armed
  note d = countdown_arms [OF assms(2) armed(2)] and a = shutdown_timer.arm_ok [OF armed(5)]
  then have e: "unat (ss_deadline_ms (shutdown state')) = unat now + nat (delay_minutes (config ctx)) * 60000"
    by (simp add: delay_of_def)
  moreover have "unat (ss_deadline_ms (shutdown state')) < 2 ^ 64 - 1"
    using a unat_u64_bound [of "ss_deadline_ms (shutdown state')"] by (auto simp: u64_eq_max_iff)
  ultimately show ?thesis
    using armed a spawns_later [OF armed(10)]
    by (simp add: countdown_configured_def monitor_shutdown_pending_def)
qed (simp_all add: countdown_configured_def)

definition sample_ctx :: openups_ctx_t where
  "sample_ctx =
     \<lparr>stop_flag = False, consecutive_fails = 5, cached_pid = 7,
      config = sample_config\<lparr>delay_minutes := 1\<rparr>, dest_addr = sample_dest, dest_addr_len = 16,
      logger = sample_logger,
      metrics = \<lparr>total_pings = 5, successful_pings = 0, failed_pings = 5, total_latency = 0,
        min_latency = 0, max_latency = 0, start_time_ms = 0\<rparr>,
      pinger = sample_pinger,
      systemd = \<lparr>sn_enabled = False, sn_sockfd = - 1, watchdog_usec = 0, last_status_ms = 0,
        last_status = []\<rparr>,
      services = runtime_services_set_null\<rparr>"

theorem threshold_decides_witness:
  "\<exists>ctx' state' w'.
     shutdown_fsm_handle_threshold 1000 sample_ctx (monitor_state_init 0 10000 0) sample_world
       = Some (False, ctx', state', w') \<and>
     unat (ss_deadline_ms (shutdown state')) = 61000"
proof -
  obtain stop ctx' state' w' where
    t: "shutdown_fsm_handle_threshold 1000 sample_ctx (monitor_state_init 0 10000 0) sample_world
      = Some (stop, ctx', state', w')"
    using threshold_total [OF sample_world_fair] by (metis not_Some_eq prod_cases4 returns_def)
  have "int_fields_fit (config sample_ctx)"
    by (simp add: sample_ctx_def sample_config_def int_fields_fit_def INT_MAX_def)
  from threshold_decides [OF t this] t show ?thesis
    by (simp add: sample_ctx_def sample_config_def monitor_state_init_def)
qed

text \<open>
  C8: a countdown that has not ended, or none, leaves everything as it is. One that has
  ended is cleared before the shutdown is triggered, so it is triggered once, and the loop stops
  exactly in the dry-run mode or when the command was triggered; a failed command leaves the
  failures counted.
\<close>

theorem countdown_executes:
  assumes "shutdown_fsm_handle_tick now ctx state w = Some (stop, ctx', state', w')"
  shows "if pending (shutdown state) \<and> ss_deadline_ms (shutdown state) \<le> now
    then state' = monitor_shutdown_clear state \<and> consecutive_fails ctx' = consecutive_fails ctx \<and>
      ctx_fixed ctx' = ctx_fixed ctx \<and>
      (\<exists>w1 r w2. later {Cls_text, Cls_notify, Cls_wait} w w1 \<and>
         shutdown_trigger (config ctx) (logger ctx) (runtime_services_is_enabled (services ctx)) w1
           = Some (r, w2) \<and>
         (stop \<longleftrightarrow> shutdown_mode (config ctx) = SHUTDOWN_MODE_DRY_RUN \<or> r = SHUTDOWN_RESULT_TRIGGERED))
    else (stop, ctx', state', w') = (False, ctx, state, w)"
  using assms
proof (cases rule: tick_cases)
  case (fire w1)
  then show ?thesis
    using execute_trigger [OF fire(8)] ctx_fixed_parts [OF fire(3)]
    by (auto simp: monitor_shutdown_deadline_elapsed_def)
qed (auto simp: monitor_shutdown_deadline_elapsed_def)

theorem countdown_executes_witness:
  "\<exists>stop ctx' state' w'.
     shutdown_fsm_handle_tick 70000 sample_ctx
       (snd (monitor_shutdown_arm (monitor_state_init 0 10000 0) 1000 60000)) sample_world
       = Some (stop, ctx', state', w') \<and>
     \<not> pending (shutdown state') \<and> consecutive_fails ctx' = 5"
proof -
  let ?s = "snd (monitor_shutdown_arm (monitor_state_init 0 10000 0) 1000 60000)"
  obtain stop ctx' state' w' where
    t: "shutdown_fsm_handle_tick 70000 sample_ctx ?s sample_world = Some (stop, ctx', state', w')"
    using tick.returns [OF sample_world_fair] by (metis not_Some_eq prod_cases4 returns_def)
  have d: "pending (shutdown ?s) \<and> ss_deadline_ms (shutdown ?s) \<le> 70000"
    by (simp add: monitor_shutdown_arm_def Let_def monitor_deadline_add_ms_def ckd_add_def
        monitor_state_init_def UINT64_MAX_def)
  from countdown_executes [OF t] d t show ?thesis
    by (simp add: sample_ctx_def monitor_shutdown_clear_def)
qed

end
