(* ===== verification/Runtime.thy ===== *)
theory Runtime
  imports ShutdownFsm
begin

text \<open>
  The runtime helpers of \<open>src/src/monitor.c\<close>: what a reply, a lost probe and an error do to the
  context, the payload of the packets, the statistics line, the expired reply deadline, the sending
  of a probe and the draining of the socket. A reason or text built with a format is its formatted
  text.
\<close>

section \<open>Operations\<close>

definition OPENUPS_PACKET_SIZE :: nat where "OPENUPS_PACKET_SIZE = 64"
definition OPENUPS_MAX_REPLY_DRAIN_PER_TICK :: nat where "OPENUPS_MAX_REPLY_DRAIN_PER_TICK = 32"
definition ICMP6_HDR_LEN :: nat where "ICMP6_HDR_LEN = 8"

definition success_text :: "metrics_t \<Rightarrow> double \<Rightarrow> string" where
  "success_text m latency =
     ''OK: '' @ show_nat (unat (successful_pings m)) @ ''/'' @ show_nat (unat (total_pings m)) @
     '' pings ('' @ show_fixed 1 (metrics_success_rate m) @ ''%), latency '' @
     show_fixed 2 latency @ ''ms''"

definition handle_ping_success ::
    "ping_result_t \<Rightarrow> openups_ctx_t \<Rightarrow> monitor_state_t \<Rightarrow> world \<Rightarrow>
     (openups_ctx_t \<times> monitor_state_t \<times> world) option" where
  "handle_ping_success result ctx state w =
     do { (_, ctx1, state1, w1) \<leftarrow> shutdown_fsm_cancel (ctx\<lparr>consecutive_fails := 0\<rparr>) state w;
          let ctx2 = ctx1\<lparr>metrics := metrics_record_success (metrics ctx1) (latency_ms result)\<rparr>;
          let w2 = logger_debug (logger ctx2)
                     (''Ping successful to '' @ target (config ctx2) @ '', latency: '' @
                      show_fixed 2 (latency_ms result) @ ''ms'') w1;
          (ctx3, w3) \<leftarrow> ctx_notify_status (success_text (metrics ctx2) (latency_ms result)) ctx2 w2;
          Some (ctx3, state1, w3) }"

definition handle_ping_failure ::
    "ping_result_t \<Rightarrow> openups_ctx_t \<Rightarrow> world \<Rightarrow> (openups_ctx_t \<times> world) option" where
  "handle_ping_failure result ctx w =
     (let ctx1 = ctx\<lparr>consecutive_fails := consecutive_fails ctx + 1,
                     metrics := metrics_record_failure (metrics ctx)\<rparr>;
          w1 = logger_warn (logger ctx1)
                 (''Ping failed to '' @ target (config ctx1) @ '': '' @ error_msg result @
                  '' (consecutive failures: '' @ show_int (consecutive_fails ctx1) @ '')'') w
      in ctx_notify_status
           (''WARNING: '' @ show_int (consecutive_fails ctx1) @
            '' consecutive failures, threshold is '' @ show_int (fail_threshold (config ctx1))) ctx1 w1)"

definition monitor_runtime_error ::
    "string \<Rightarrow> openups_ctx_t \<Rightarrow> world \<Rightarrow> (monitor_step_result_t \<times> openups_ctx_t \<times> world) option" where
  "monitor_runtime_error msg ctx w =
     (let error = snprintf_buf OPENUPS_LOG_BUFFER_SIZE msg;
          w1 = logger_error (logger ctx) error w
      in do { (ctx1, w2) \<leftarrow> ctx_notify_status (''ERROR: '' @ error) ctx w1;
              Some (MONITOR_STEP_ERROR, ctx1, w2) })"

text \<open>The result, the context with its buffer filled, and the packet length.\<close>

definition monitor_prepare_packet :: "openups_ctx_t \<Rightarrow> bool \<times> openups_ctx_t \<times> nat" where
  "monitor_prepare_packet ctx =
     (let header_len = (if family (pinger ctx) = AF_INET6 then ICMP6_HDR_LEN else ICMP_HDR_LEN);
          packet_len = OPENUPS_PACKET_SIZE;
          buf = send_buf (pinger ctx)
      in if SEND_BUF_SIZE < packet_len \<or> packet_len < header_len then (False, ctx, packet_len)
         else
           (True,
            ctx\<lparr>pinger := (pinger ctx)\<lparr>send_buf := take header_len buf @
              map (\<lambda>i. word_of_nat (i AND 255)) [0..<packet_len - header_len] @
              drop packet_len buf\<rparr>\<rparr>,
            packet_len))"

text \<open>The uptime is read, and the clock with it, whether or not the line is written.\<close>

definition stats_text :: "metrics_t \<Rightarrow> u64 \<Rightarrow> string" where
  "stats_text m uptime =
     (if 0 < successful_pings m then
        ''Statistics: '' @ show_nat (unat (total_pings m)) @ '' total pings, '' @
        show_nat (unat (successful_pings m)) @ '' successful, '' @
        show_nat (unat (failed_pings m)) @ '' failed ('' @
        show_fixed 2 (metrics_success_rate m) @ ''% success rate), latency min '' @
        show_fixed 2 (min_latency m) @ ''ms / max '' @ show_fixed 2 (max_latency m) @
        ''ms / avg '' @ show_fixed 2 (metrics_avg_latency m) @ ''ms, uptime '' @
        show_nat (unat uptime) @ '' seconds''
      else
        ''Statistics: '' @ show_nat (unat (total_pings m)) @ '' total pings, 0 successful, '' @
        show_nat (unat (failed_pings m)) @
        '' failed (0.00% success rate), latency N/A, uptime '' @ show_nat (unat uptime) @ '' seconds'')"

definition monitor_log_stats :: "openups_ctx_t \<Rightarrow> world \<Rightarrow> world" where
  "monitor_log_stats ctx w =
     (let m = metrics ctx;
          (uptime, w1) = metrics_uptime_seconds m w
      in logger_info (logger ctx) (stats_text m uptime) w1)"

definition timeout_result :: ping_result_t where
  "timeout_result =
     \<lparr>success = False, latency_ms = 0, error_msg = ''ICMP reply deadline exceeded''\<rparr>"

definition monitor_handle_ping_timeout ::
    "u64 \<Rightarrow> openups_ctx_t \<Rightarrow> monitor_state_t \<Rightarrow> world \<Rightarrow>
     (monitor_step_result_t \<times> openups_ctx_t \<times> monitor_state_t \<times> world) option" where
  "monitor_handle_ping_timeout now_ms ctx state w =
     (if \<not> monitor_ping_deadline_elapsed state now_ms
      then Some (MONITOR_STEP_CONTINUE, ctx, state, w)
      else do { (ctx1, w1) \<leftarrow> handle_ping_failure timeout_result ctx w;
                let state1 = monitor_ping_clear state;
                (stop, ctx2, state2, w2) \<leftarrow> shutdown_fsm_handle_threshold now_ms ctx1 state1 w1;
                Some (if stop then MONITOR_STEP_STOP else MONITOR_STEP_CONTINUE,
                  ctx2, state2, w2) })"

definition monitor_send_ping ::
    "u64 \<Rightarrow> nat \<Rightarrow> openups_ctx_t \<Rightarrow> monitor_state_t \<Rightarrow> world \<Rightarrow>
     (monitor_step_result_t \<times> openups_ctx_t \<times> monitor_state_t \<times> world) option" where
  "monitor_send_ping now_ms packet_len ctx state w =
     (case icmp_pinger_send_echo (pinger ctx) (dest_addr ctx) (dest_addr_len ctx) (cached_pid ctx)
             packet_len w of
        (Some err, p, w1) \<Rightarrow>
          do { (r, ctx1, w2) \<leftarrow> monitor_runtime_error (''Failed to send ICMP echo: '' @ err)
                 (ctx\<lparr>pinger := p\<rparr>) w1;
               Some (r, ctx1, state, w2) }
      | (None, p, w1) \<Rightarrow>
          let ctx1 = ctx\<lparr>pinger := p\<rparr>;
              (armed, state1) = monitor_ping_arm state now_ms (word_of_int (timeout_ms (config ctx1)))
                                  (sequence (pinger ctx1))
          in if \<not> armed then
               do { (r, ctx2, w2) \<leftarrow> monitor_runtime_error ''Failed to compute reply deadline'' ctx1 w1;
                    Some (r, ctx2, state1, w2) }
             else Some (MONITOR_STEP_CONTINUE, ctx1, state1, w1))"

text \<open>The loop over the answers of the socket; \<open>reply\<close> outlives an iteration.\<close>

fun drain_loop ::
    "nat \<Rightarrow> u64 \<Rightarrow> ping_result_t \<Rightarrow> openups_ctx_t \<Rightarrow> monitor_state_t \<Rightarrow> world \<Rightarrow>
     (monitor_step_result_t \<times> openups_ctx_t \<times> monitor_state_t \<times> world) option" where
  "drain_loop 0 now_ms reply ctx state w = Some (MONITOR_STEP_CONTINUE, ctx, state, w)"
| "drain_loop (Suc n) now_ms reply ctx state w =
     do { (status, reply1, w1) \<leftarrow> icmp_pinger_receive_reply (pinger ctx) (dest_addr ctx)
            (cached_pid ctx) (monitor_ping_expected_sequence state)
            (monitor_ping_send_time_ms state) now_ms reply w;
          if status = ICMP_RECEIVE_NO_MORE then Some (MONITOR_STEP_CONTINUE, ctx, state, w1)
          else if status = ICMP_RECEIVE_ERROR then
            do { (r, ctx1, w2) \<leftarrow> monitor_runtime_error
                   (''ICMP receive failed: '' @ error_msg reply1) ctx w1;
                 Some (r, ctx1, monitor_ping_clear state, w2) }
          else if status = ICMP_RECEIVE_MATCHED \<and> monitor_ping_waiting state then
            do { (ctx1, state1, w2) \<leftarrow> handle_ping_success reply1 ctx state w1;
                 Some (MONITOR_STEP_CONTINUE, ctx1, monitor_ping_clear state1, w2) }
          else drain_loop n now_ms reply1 ctx state w1 }"

definition monitor_drain_icmp_replies ::
    "u64 \<Rightarrow> openups_ctx_t \<Rightarrow> monitor_state_t \<Rightarrow> world \<Rightarrow>
     (monitor_step_result_t \<times> openups_ctx_t \<times> monitor_state_t \<times> world) option" where
  "monitor_drain_icmp_replies now_ms ctx state w =
     drain_loop OPENUPS_MAX_REPLY_DRAIN_PER_TICK now_ms
       \<lparr>success = False, latency_ms = 0, error_msg = []\<rparr> ctx state w"

section \<open>Replies and losses\<close>

lemma ctx_fixed_pinger:
  "sockfd p = sockfd (pinger c) \<Longrightarrow> family p = family (pinger c) \<Longrightarrow>
   ctx_fixed (c\<lparr>pinger := p\<rparr>) = ctx_fixed c"
  by (simp add: ctx_fixed_def)

lemma handle_ping_failure_effect:
  assumes "handle_ping_failure result ctx w = Some (ctx', w')"
  shows "ctx_fixed ctx' = ctx_fixed ctx" and "consecutive_fails ctx' = consecutive_fails ctx + 1"
    and "metrics ctx' = metrics_record_failure (metrics ctx)" and "pinger ctx' = pinger ctx"
    and "stop_flag ctx' = stop_flag ctx" and "later {Cls_text, Cls_notify, Cls_wait} w w'"
proof -
  from assms obtain msg w1 where
    n: "ctx_notify_status msg (ctx\<lparr>consecutive_fails := consecutive_fails ctx + 1,
          metrics := metrics_record_failure (metrics ctx)\<rparr>) w1 = Some (ctx', w')"
    and l: "later {Cls_text} w w1"
    unfolding handle_ping_failure_def Let_def by (rule that) (simp add: logger_later)
  from ctx_notify_status_keeps [OF n] show "ctx_fixed ctx' = ctx_fixed ctx"
    "consecutive_fails ctx' = consecutive_fails ctx + 1"
    "metrics ctx' = metrics_record_failure (metrics ctx)" "pinger ctx' = pinger ctx"
    "stop_flag ctx' = stop_flag ctx"
    by (simp_all add: ctx_fixed_def)
  show "later {Cls_text, Cls_notify, Cls_wait} w w'"
    by (rule ctx_notify_status_later [OF n later_mono [OF l]]) simp_all
qed

lemma handle_ping_failure_total [total]: "fair w \<Longrightarrow> returns (handle_ping_failure result ctx w)"
  by (simp add: handle_ping_failure_def Let_def total)

lemma handle_ping_success_effect:
  assumes "handle_ping_success result ctx state w = Some (ctx', state', w')"
  shows "ctx_fixed ctx' = ctx_fixed ctx" and "consecutive_fails ctx' = 0"
    and "metrics ctx' = metrics_record_success (metrics ctx) (latency_ms result)"
    and "pinger ctx' = pinger ctx"
    and "state' = (if pending (shutdown state) then monitor_shutdown_clear state else state)"
    and "later {Cls_text, Cls_notify, Cls_wait} w w'" and "stop_flag ctx' = stop_flag ctx"
proof -
  from assms obtain r ctx1 w1 where
    c: "shutdown_fsm_cancel (ctx\<lparr>consecutive_fails := 0\<rparr>) state w = Some (r, ctx1, state', w1)"
    and n: "\<exists>msg w2. ctx_notify_status msg
        (ctx1\<lparr>metrics := metrics_record_success (metrics ctx1) (latency_ms result)\<rparr>) w2 = Some (ctx', w') \<and>
        later {Cls_text} w1 w2"
    unfolding handle_ping_success_def Let_def
    by (fastforce simp: Option.bind_eq_Some_conv intro: logger_later)
  then obtain msg w2 where n: "ctx_notify_status msg
        (ctx1\<lparr>metrics := metrics_record_success (metrics ctx1) (latency_ms result)\<rparr>) w2 = Some (ctx', w')"
    and l: "later {Cls_text} w1 w2" by blast
  note c = shutdown_fsm_cancel_effect [OF c]
  from ctx_notify_status_keeps [OF n] c show "ctx_fixed ctx' = ctx_fixed ctx" "consecutive_fails ctx' = 0"
    "metrics ctx' = metrics_record_success (metrics ctx) (latency_ms result)"
    "pinger ctx' = pinger ctx"
    "state' = (if pending (shutdown state) then monitor_shutdown_clear state else state)"
    "stop_flag ctx' = stop_flag ctx"
    by simp_all
  show "later {Cls_text, Cls_notify, Cls_wait} w w'"
    using l by (intro ctx_notify_status_later [OF n] later_trans [OF c(6)]) (auto intro: later_mono)
qed

lemma handle_ping_success_total [total]:
  "fair w \<Longrightarrow> returns (handle_ping_success result ctx state w)"
proof -
  assume f: "fair w"
  show ?thesis
    unfolding handle_ping_success_def Let_def
    using f by (auto simp: total intro!: ctx_notify_status_total
        dest: fair_later [OF f shutdown_fsm_cancel_effect(6)])
qed

text \<open>A reply takes the outage machine back to its start.\<close>

lemma handle_ping_success_inv:
  assumes "handle_ping_success result ctx state w = Some (ctx', state', w')" and "monitor_inv ctx state"
  shows "monitor_inv ctx' state'"
    and "waiting (ping state) \<Longrightarrow>
      refines_outage (ctx, state, w) [Reply (latency_ms result)] (ctx', monitor_ping_clear state', w')"
proof -
  note e = handle_ping_success_effect [OF assms(1)]
  show "monitor_inv ctx' state'"
    using e assms(2) ctx_wf_fixed [OF e(1)] monitor_state_wf_steps(2) [of state]
    by (auto simp: monitor_inv_def monitor_shutdown_clear_def)
  have "spawns w' = spawns w" "packets w' = packets w"
    by (rule spawns_later [OF e(6)] packets_later [OF e(6)], simp)+
  moreover have "outage_abs ctx' (monitor_ping_clear state') = (0, None)"
    using e by (simp add: outage_abs_def monitor_shutdown_clear_def monitor_ping_clear_def)
  ultimately show "waiting (ping state) \<Longrightarrow>
      refines_outage (ctx, state, w) [Reply (latency_ms result)] (ctx', monitor_ping_clear state', w')"
    using e by (simp add: refines_outage_def outage_abs_def monitor_ping_clear_def)
qed

lemma monitor_runtime_error_effect:
  assumes "monitor_runtime_error msg ctx w = Some (r, ctx', w')"
  shows "r = MONITOR_STEP_ERROR" and "ctx_fixed ctx' = ctx_fixed ctx"
    and "consecutive_fails ctx' = consecutive_fails ctx" and "metrics ctx' = metrics ctx"
    and "pinger ctx' = pinger ctx" and "stop_flag ctx' = stop_flag ctx"
    and "\<And>s. monitor_inv ctx' s = monitor_inv ctx s" and "later {Cls_text, Cls_notify, Cls_wait} w w'"
proof -
  from assms obtain m w1 where n: "ctx_notify_status m ctx w1 = Some (ctx', w')"
    and l: "later {Cls_text} w w1" and r: "r = MONITOR_STEP_ERROR"
    unfolding monitor_runtime_error_def Let_def
    by (fastforce simp: Option.bind_eq_Some_conv intro: logger_later)
  from r ctx_notify_status_keeps [OF n] show "r = MONITOR_STEP_ERROR" "ctx_fixed ctx' = ctx_fixed ctx"
    "consecutive_fails ctx' = consecutive_fails ctx" "metrics ctx' = metrics ctx"
    "pinger ctx' = pinger ctx" "stop_flag ctx' = stop_flag ctx" "\<And>s. monitor_inv ctx' s = monitor_inv ctx s"
    by simp_all
  show "later {Cls_text, Cls_notify, Cls_wait} w w'"
    by (rule ctx_notify_status_later [OF n later_mono [OF l]]) simp_all
qed

lemma monitor_runtime_error_total [total]: "fair w \<Longrightarrow> returns (monitor_runtime_error msg ctx w)"
  by (simp add: monitor_runtime_error_def Let_def total case_prod_unfold)

section \<open>The payload\<close>

lemma monitor_prepare_packet_effect:
  assumes "length (send_buf (pinger ctx)) = 256"
  obtains buf where
    "monitor_prepare_packet ctx = (True, ctx\<lparr>pinger := (pinger ctx)\<lparr>send_buf := buf\<rparr>\<rparr>, 64)"
    "buffer_ready buf"
proof -
  let ?buf = "take 8 (send_buf (pinger ctx)) @ payload @ drop 64 (send_buf (pinger ctx))"
  have "map (\<lambda>i. word_of_nat (i AND 255) :: u8) [0..<56] = payload"
    unfolding payload_def
  proof (rule map_cong [OF refl])
    fix i
    assume "i \<in> set [0..<56 :: nat]"
    then have "i < 2 ^ 8" by simp
    then have "i AND mask 8 = i" by (simp add: take_bit_nat_eq_self flip: take_bit_eq_mask)
    then show "(word_of_nat (i AND 255) :: u8) = word_of_nat i" by (simp add: mask_eq_exp_minus_1)
  qed
  then have "monitor_prepare_packet ctx =
      (True, ctx\<lparr>pinger := (pinger ctx)\<lparr>send_buf := ?buf\<rparr>\<rparr>, 64)"
    by (simp add: monitor_prepare_packet_def Let_def OPENUPS_PACKET_SIZE_def ICMP6_HDR_LEN_def
        icmp_consts)
  moreover have "buffer_ready ?buf" using assms by (simp add: buffer_ready_def payload_def)
  ultimately show thesis by (rule that)
qed

section \<open>The expired reply\<close>

lemma ping_timeout_cases:
  assumes "monitor_handle_ping_timeout now ctx state w = Some (r, ctx', state', w')"
  obtains (idle) "\<not> monitor_ping_deadline_elapsed state now" "r = MONITOR_STEP_CONTINUE" "ctx' = ctx"
      "state' = state" "w' = w"
  | (lost) ctx1 w1 stop where "monitor_ping_deadline_elapsed state now"
      "handle_ping_failure timeout_result ctx w = Some (ctx1, w1)"
      "shutdown_fsm_handle_threshold now ctx1 (monitor_ping_clear state) w1 =
         Some (stop, ctx', state', w')"
      "r = (if stop then MONITOR_STEP_STOP else MONITOR_STEP_CONTINUE)"
proof (cases "monitor_ping_deadline_elapsed state now")
  case False
  then have "monitor_handle_ping_timeout now ctx state w = Some (MONITOR_STEP_CONTINUE, ctx, state, w)"
    by (simp add: monitor_handle_ping_timeout_def)
  with assms False show thesis by (intro idle) simp_all
next
  case True
  with assms obtain ctx1 w1 stop where "handle_ping_failure timeout_result ctx w = Some (ctx1, w1)"
    "shutdown_fsm_handle_threshold now ctx1 (monitor_ping_clear state) w1 = Some (stop, ctx', state', w')"
    "r = (if stop then MONITOR_STEP_STOP else MONITOR_STEP_CONTINUE)"
    unfolding monitor_handle_ping_timeout_def Let_def by (auto simp: Option.bind_eq_Some_conv)
  with True show thesis by (rule lost)
qed

lemma ping_timeout_inv:
  assumes "handle_ping_failure timeout_result ctx w = Some (ctx1, w1)" and "monitor_inv ctx state"
  shows "monitor_inv ctx1 (monitor_ping_clear state)"
proof -
  note e = handle_ping_failure_effect [OF assms(1)]
  show ?thesis
    using e assms(2) ctx_wf_fixed [OF e(1)] ctx_fixed_parts(1) [OF e(1)] monitor_state_wf_steps(1) [of state]
    by (auto simp: monitor_inv_def monitor_ping_clear_def)
qed

text \<open>The expired reply is the loss of a probe.\<close>

lemma ping_timeout_lost:
  assumes t: "monitor_handle_ping_timeout now ctx state w = Some (r, ctx', state', w')"
    and due: "monitor_ping_deadline_elapsed state now" and inv: "monitor_inv ctx state"
  shows "refines_outage (ctx, state, w) [Lost (unat now)] (ctx', state', w')"
    and "\<not> waiting (ping state')" and "metrics ctx' = metrics_record_failure (metrics ctx)"
proof -
  from t due obtain ctx1 w1 stop where lost:
    "handle_ping_failure timeout_result ctx w = Some (ctx1, w1)"
    "shutdown_fsm_handle_threshold now ctx1 (monitor_ping_clear state) w1 = Some (stop, ctx', state', w')"
    by (auto elim: ping_timeout_cases)
  note e = handle_ping_failure_effect [OF lost(1)] and k = threshold_keeps [OF lost(2)]
  have cfg: "config ctx1 = config ctx" "int_fields_fit (config ctx1)" "0 < consecutive_fails ctx1"
    and before: "(nat (consecutive_fails ctx1) - 1, due_of (monitor_ping_clear state)) = outage_abs ctx state"
    and sp: "spawns w1 = spawns w"
    using e inv ctx_fixed_parts(1) [OF e(1)] spawns_later [OF e(6)]
    by (simp_all add: monitor_inv_def ctx_wf_def outage_abs_eq due_of_def monitor_ping_clear_def
        nat_add_distrib)
  have "later {Cls_text, Cls_notify, Cls_wait, Cls_spawn} w w'"
    by (rule threshold_later [OF lost(2)], rule later_mono [OF e(6)]) auto
  then have "packets w' = packets w" by (rule packets_later) simp
  moreover have "waiting (ping state)"
    using due by (simp add: monitor_ping_deadline_elapsed_def)
  moreover show "\<not> waiting (ping state')" using k(3) by (simp add: monitor_ping_clear_def)
  moreover show "metrics ctx' = metrics_record_failure (metrics ctx)" using e(3) k(4) by simp
  ultimately show "refines_outage (ctx, state, w) [Lost (unat now)] (ctx', state', w')"
    using threshold_refines [OF lost(2) cfg(2,3)] unfolding before cfg(1) sp
    by (auto simp: refines_outage_def split: if_splits)
qed

interpretation ping_timeout: monitor_handler "{unat now}" "monitor_handle_ping_timeout now" for now
proof
  fix ctx state w r ctx' state' w'
  assume t: "monitor_handle_ping_timeout now ctx state w = Some (r, ctx', state', w')"
  then show "later handler_events w w'"
  proof (cases rule: ping_timeout_cases)
    case (lost ctx1 w1 stop)
    show ?thesis
      by (rule threshold_later [OF lost(3)], rule later_mono,
          rule handle_ping_failure_effect(6) [OF lost(2)]) (simp_all add: handler_events_def)
  qed simp
  from t show fixed: "ctx_fixed ctx' = ctx_fixed ctx"
    by (cases rule: ping_timeout_cases)
      (simp_all add: threshold_keeps(1) handle_ping_failure_effect(1))
  from t show "stop_flag ctx \<Longrightarrow> stop_flag ctx'"
    by (cases rule: ping_timeout_cases)
      (simp_all add: threshold_keeps(5) handle_ping_failure_effect(5))
  assume inv: "monitor_inv ctx state"
  show "monitor_inv ctx' state'"
    using t by (cases rule: ping_timeout_cases) (auto simp: inv intro: threshold_inv [OF _ ping_timeout_inv [OF _ inv]])
  show "outage_refined {unat now} (ctx, state, w) (ctx', state', w')"
    using t
  proof (cases rule: ping_timeout_cases)
    case idle
    then show ?thesis by (intro quiet_step) simp_all
  next
    case lost
    then show ?thesis
      by (intro outage_refinedI [OF ping_timeout_lost(1) [OF t _ inv]]) simp_all
  qed
next
  fix ctx state w
  assume "fair w"
  then show "returns (monitor_handle_ping_timeout now ctx state w)"
    by (auto simp: monitor_handle_ping_timeout_def Let_def total
        dest: fair_later [OF _ handle_ping_failure_effect(6)])
qed

section \<open>Sending a probe\<close>

lemma put_header_keeps:
  "length hdr = 8 \<Longrightarrow> 8 \<le> length buf \<Longrightarrow> length (put_header hdr buf) = length buf \<and>
   drop 8 (put_header hdr buf) = drop 8 buf"
  by (simp add: put_header_def)

lemma echo_buffer_keeps:
  assumes "length buf = 256"
  shows "length (echo_buffer le fam ident seq n buf) = 256 \<and>
    drop 8 (echo_buffer le fam ident seq n buf) = drop 8 buf"
  using put_header_keeps [of "echo_header _ _ ident seq" buf] assms
  by (simp add: echo_buffer_def Let_def)

lemma send_echo_keeps:
  assumes "icmp_pinger_send_echo p dest dest_len ident n w = (err, p', w')"
  shows "sockfd p' = sockfd p" and "family p' = family p"
    and "buffer_ready (send_buf p) \<Longrightarrow> buffer_ready (send_buf p')"
    and "err = None \<Longrightarrow> sequence p' \<noteq> 0"
proof -
  obtain seq p1 where ns: "next_sequence p = (seq, p1)" by fastforce
  note seq = next_sequence_effect [OF ns]
  have "p' = p \<or> (\<exists>le fam. p' = p1\<lparr>sequence := seq, send_buf := echo_buffer le fam ident seq n (send_buf p1)\<rparr>) \<and>
      seq \<noteq> 0"
    and "err = None \<Longrightarrow> p' \<noteq> p"
    using assms seq
    by (auto simp: icmp_pinger_send_echo_def ns Let_def split: option.splits if_splits prod.splits
        sum.splits) (metis icmp_pinger_t.select_convs(3) icmp_pinger_t.surjective icmp_pinger_t.update_convs(3,4))+
  with seq echo_buffer_keeps [of "send_buf p"]
  show "sockfd p' = sockfd p" "family p' = family p"
    "buffer_ready (send_buf p) \<Longrightarrow> buffer_ready (send_buf p')" "err = None \<Longrightarrow> sequence p' \<noteq> 0"
    by (auto simp: buffer_ready_def)
qed

text \<open>A successful send put exactly one packet on the wire.\<close>

lemma send_echo_packet:
  "icmp_pinger_send_echo p dest dest_len ident n w = (None, p', w') \<Longrightarrow> packets w' = packets w + 1"
  by (auto simp: icmp_pinger_send_echo_def Let_def packets_def sys_sendto_def events_emit
      split: option.splits if_splits prod.splits sum.splits)
    (simp add: events_def)

lemma send_ping_cases:
  assumes "monitor_send_ping now n ctx state w = Some (r, ctx', state', w')"
  obtains (failed) err p w1 msg where
      "icmp_pinger_send_echo (pinger ctx) (dest_addr ctx) (dest_addr_len ctx) (cached_pid ctx) n w
         = (err, p, w1)"
      "monitor_runtime_error msg (ctx\<lparr>pinger := p\<rparr>) w1 = Some (r, ctx', w')" "state' = state"
  | (sent) p where
      "icmp_pinger_send_echo (pinger ctx) (dest_addr ctx) (dest_addr_len ctx) (cached_pid ctx) n w
         = (None, p, w')"
      "monitor_ping_arm state now (word_of_int (timeout_ms (config ctx))) (sequence p) = (True, state')"
      "ctx' = ctx\<lparr>pinger := p\<rparr>" "r = MONITOR_STEP_CONTINUE"
proof -
  obtain err p w1 where e: "icmp_pinger_send_echo (pinger ctx) (dest_addr ctx) (dest_addr_len ctx)
      (cached_pid ctx) n w = (err, p, w1)" by (metis prod_cases3)
  obtain ok state1 where a: "monitor_ping_arm state now (word_of_int (timeout_ms (config ctx)))
      (sequence p) = (ok, state1)" by fastforce
  show thesis
  proof (cases err)
    case (Some msg)
    with assms e have "monitor_runtime_error (''Failed to send ICMP echo: '' @ msg)
        (ctx\<lparr>pinger := p\<rparr>) w1 = Some (r, ctx', w')" "state' = state"
      unfolding monitor_send_ping_def by (auto simp: Option.bind_eq_Some_conv)
    with e show thesis by (rule failed)
  next
    case None
    show thesis
    proof (cases ok)
      case True
      with assms e None a show thesis
        by (intro sent [of p]) (simp_all add: monitor_send_ping_def)
    next
      case False
      then have "state1 = state" using ping_timer.arm_fails a by (cases ok) auto
      with False assms e None a have "monitor_runtime_error ''Failed to compute reply deadline''
          (ctx\<lparr>pinger := p\<rparr>) w1 = Some (r, ctx', w')" "state' = state"
        unfolding monitor_send_ping_def by (auto simp: Option.bind_eq_Some_conv)
      with e show thesis by (rule failed)
    qed
  qed
qed

lemma pinger_update_inv:
  assumes "icmp_pinger_send_echo (pinger ctx) dest dl ident n w = (err, p, w1)" and "monitor_inv ctx state"
  shows "monitor_inv (ctx\<lparr>pinger := p\<rparr>) state" and "ctx_fixed (ctx\<lparr>pinger := p\<rparr>) = ctx_fixed ctx"
proof -
  note k = send_echo_keeps [OF assms(1)]
  show fixed: "ctx_fixed (ctx\<lparr>pinger := p\<rparr>) = ctx_fixed ctx" by (rule ctx_fixed_pinger [OF k(1,2)])
  show "monitor_inv (ctx\<lparr>pinger := p\<rparr>) state"
    using assms(2) ctx_wf_fixed [OF fixed] k(3) by (simp add: monitor_inv_def)
qed

lemma monitor_send_ping_later:
  assumes "monitor_send_ping now n ctx state w = Some (r, ctx', state', w')"
  shows "later handler_events w w'"
  using assms
proof (cases rule: send_ping_cases)
  case (failed err p w1 msg)
  have "later handler_events w w1"
    by (rule send_echo_later [OF failed(1)]) (simp_all add: handler_events_def)
  also have "later handler_events w1 w'"
    by (rule later_mono [OF monitor_runtime_error_effect(8) [OF failed(2)]]) (simp add: handler_events_def)
  finally show ?thesis .
next
  case (sent p)
  show ?thesis by (rule send_echo_later [OF sent(1)]) (simp_all add: handler_events_def)
qed

lemma monitor_send_ping_inv:
  assumes "monitor_send_ping now n ctx state w = Some (r, ctx', state', w')"
    and inv: "monitor_inv ctx state"
  shows "monitor_inv ctx' state'"
  using assms(1)
proof (cases rule: send_ping_cases)
  case (failed err p w1 msg)
  then show ?thesis
    using monitor_runtime_error_effect(7) [OF failed(2)] pinger_update_inv(1) [OF failed(1) inv] by simp
next
  case (sent p)
  have "monitor_state_wf state'"
    using monitor_state_wf_steps(4) [of state "sequence p" now] inv send_echo_keeps(4) [OF sent(1)] sent(2)
    by (metis monitor_inv_def snd_conv)
  moreover have "shutdown state' = shutdown state"
    using sent(2) by (auto simp: monitor_ping_arm_def Let_def split: if_splits)
  ultimately show ?thesis
    using sent pinger_update_inv(1) [OF sent(1) inv] by (simp add: monitor_inv_def)
qed

text \<open>To the outage machine sending a probe is a quiet step, whether it succeeds or not.\<close>

lemma monitor_send_ping_quiet:
  assumes "monitor_send_ping now n ctx state w = Some (r, ctx', state', w')"
  shows "outage_refined {} (ctx, state, w) (ctx', state', w')"
  using assms
proof (cases rule: send_ping_cases)
  case (failed err p w1 msg)
  note e = monitor_runtime_error_effect [OF failed(2)]
  have l: "later {Cls_packet} w w1" by (rule send_echo_later [OF failed(1)]) simp_all
  show ?thesis
    using spawns_later [OF e(8)] packets_later [OF e(8)] spawns_later [OF l] packets_mono [OF l]
      e(3,4) failed(3)
    by (intro quiet_step) simp_all
next
  case (sent p)
  have l: "later {Cls_packet} w w'" by (rule send_echo_later [OF sent(1)]) simp_all
  have "packets w' = packets w + 1" by (rule send_echo_packet [OF sent(1)])
  then show ?thesis
    using sent spawns_later [OF l]
    by (intro quiet_step) (auto simp: monitor_ping_arm_def Let_def split: if_splits)
qed

interpretation send_ping: monitor_handler "{}" "monitor_send_ping now n" for now n
proof
  fix ctx state w r ctx' state' w'
  assume t: "monitor_send_ping now n ctx state w = Some (r, ctx', state', w')"
  show "later handler_events w w'" "outage_refined {} (ctx, state, w) (ctx', state', w')"
    by (rule monitor_send_ping_later [OF t] monitor_send_ping_quiet [OF t])+
  show "monitor_inv ctx state \<Longrightarrow> monitor_inv ctx' state'" by (rule monitor_send_ping_inv [OF t])
  show "ctx_fixed ctx' = ctx_fixed ctx"
    using t
    by (cases rule: send_ping_cases)
      (simp_all add: monitor_runtime_error_effect(2) ctx_fixed_pinger send_echo_keeps(1,2))
  from t show "stop_flag ctx \<Longrightarrow> stop_flag ctx'"
    by (cases rule: send_ping_cases) (simp_all add: monitor_runtime_error_effect(6))
next
  fix ctx state w
  assume "fair w"
  then show "returns (monitor_send_ping now n ctx state w)"
    by (auto simp: monitor_send_ping_def Let_def total dest!: icmp_fair(1)
        split: prod.split option.split)
qed

section \<open>Draining the socket\<close>

lemma ping_clear_inv: "monitor_inv ctx state \<Longrightarrow> monitor_inv ctx (monitor_ping_clear state)"
  using monitor_state_wf_steps(1) [of state] by (auto simp: monitor_inv_def monitor_ping_clear_def)

text \<open>The loop is composed of handlers; \<open>monitor_handler\<close> is closed under the composition.\<close>

lemma monitor_handler_return: "monitor_handler T (\<lambda>c s w. Some (r, c, s, w))"
  by unfold_locales (auto intro: quiet_step)

text \<open>In a branch, the handler's contract is needed only where the branch is taken.\<close>

lemma monitor_handler_if:
  assumes f: "monitor_handler T (\<lambda>c s w. if P c s then f c s w else Some (r0, c, s, w))"
    and g: "monitor_handler T g"
  shows "monitor_handler T (\<lambda>c s w. if P c s then f c s w else g c s w)"
proof
  fix c s w r c' s' w'
  let ?f = "\<lambda>c s w. if P c s then f c s w else Some (r0, c, s, w)"
  assume run: "(if P c s then f c s w else g c s w) = Some (r, c', s', w')"
  have both: "R c s w r c' s' w'"
    if "?f c s w = Some (r, c', s', w') \<Longrightarrow> R c s w r c' s' w'"
      and "g c s w = Some (r, c', s', w') \<Longrightarrow> R c s w r c' s' w'" for R
    using run that by (cases "P c s") simp_all
  show "later handler_events w w'"
    using monitor_handler.later [OF f] monitor_handler.later [OF g] by (rule both)
  show "ctx_fixed c' = ctx_fixed c"
    using monitor_handler.fixed [OF f] monitor_handler.fixed [OF g] by (rule both)
  show "stop_flag c \<Longrightarrow> stop_flag c'"
    using monitor_handler.stop [OF f] monitor_handler.stop [OF g] by (rule both)
  assume inv: "monitor_inv c s"
  show "monitor_inv c' s'"
    using monitor_handler.inv [OF f _ inv] monitor_handler.inv [OF g _ inv] by (rule both)
  show "outage_refined T (c, s, w) (c', s', w')"
    using monitor_handler.refines [OF f _ inv] monitor_handler.refines [OF g _ inv] by (rule both)
next
  fix c s w
  assume "fair w"
  then show "returns (if P c s then f c s w else g c s w)"
    using monitor_handler.returns [OF f, of w c s] monitor_handler.returns [OF g] by (simp split: if_splits)
qed

lemma receive_handler:
  "monitor_handler T (\<lambda>c s w. do {
     (status, reply1, w1) \<leftarrow> icmp_pinger_receive_reply (pinger c) (dest_addr c) (cached_pid c)
       (monitor_ping_expected_sequence s) (monitor_ping_send_time_ms s) now reply w;
     Some ((status, reply1), c, s, w1) })"
proof
  fix c c' :: openups_ctx_t and s w r s' w'
  assume "do { (status, reply1, w1) \<leftarrow> icmp_pinger_receive_reply (pinger c) (dest_addr c) (cached_pid c)
       (monitor_ping_expected_sequence s) (monitor_ping_send_time_ms s) now reply w;
     Some ((status, reply1), c, s, w1) } = Some (r, c', s', w')"
  then have l: "later {} w w'" and same: "c' = c" "s' = s"
    by (auto simp: Option.bind_eq_Some_conv dest: receive_reply_later [OF _ later_refl])
  from l show "later handler_events w w'" by (rule later_mono) simp
  show "ctx_fixed c' = ctx_fixed c" "stop_flag c \<Longrightarrow> stop_flag c'"
    "monitor_inv c s \<Longrightarrow> monitor_inv c' s'" by (simp_all add: same)
  show "outage_refined T (c, s, w) (c', s', w')"
    unfolding same by (rule quiet_same [OF l]) simp
qed (auto simp: total)

lemma error_handler:
  "monitor_handler T (\<lambda>c s w. do { (r, c1, w1) \<leftarrow> monitor_runtime_error msg c w;
     Some (r, c1, monitor_ping_clear s, w1) })"
proof
  fix c s w r c' s' w'
  assume "do { (r, c1, w1) \<leftarrow> monitor_runtime_error msg c w; Some (r, c1, monitor_ping_clear s, w1) }
    = Some (r, c', s', w')"
  then have e: "monitor_runtime_error msg c w = Some (r, c', w')" and s: "s' = monitor_ping_clear s"
    by (auto simp: Option.bind_eq_Some_conv)
  show "later handler_events w w'"
    by (rule later_mono [OF monitor_runtime_error_effect(8) [OF e]]) (simp add: handler_events_def)
  show "ctx_fixed c' = ctx_fixed c" "stop_flag c \<Longrightarrow> stop_flag c'"
    by (simp_all add: monitor_runtime_error_effect(2,6) [OF e])
  show "monitor_inv c s \<Longrightarrow> monitor_inv c' s'"
    by (simp add: s monitor_runtime_error_effect(7) [OF e] ping_clear_inv)
  show "outage_refined T (c, s, w) (c', s', w')"
    using monitor_runtime_error_effect(3,4) [OF e] spawns_later [OF monitor_runtime_error_effect(8) [OF e]]
      packets_later [OF monitor_runtime_error_effect(8) [OF e]]
    by (intro quiet_step) (simp_all add: s monitor_ping_clear_def)
qed (auto simp: total)

lemma success_handler:
  "monitor_handler T (\<lambda>c s w. if monitor_ping_waiting s
     then do { (c1, s1, w1) \<leftarrow> handle_ping_success reply c s w;
               Some (MONITOR_STEP_CONTINUE, c1, monitor_ping_clear s1, w1) }
     else Some (MONITOR_STEP_CONTINUE, c, s, w))"
proof
  fix c s w r c' s' w'
  assume run: "(if monitor_ping_waiting s
     then do { (c1, s1, w1) \<leftarrow> handle_ping_success reply c s w;
               Some (MONITOR_STEP_CONTINUE, c1, monitor_ping_clear s1, w1) }
     else Some (MONITOR_STEP_CONTINUE, c, s, w)) = Some (r, c', s', w')"
  have "later handler_events w w' \<and> ctx_fixed c' = ctx_fixed c \<and> (stop_flag c \<longrightarrow> stop_flag c') \<and>
      (monitor_inv c s \<longrightarrow> monitor_inv c' s') \<and>
      (monitor_inv c s \<longrightarrow> outage_refined T (c, s, w) (c', s', w'))"
  proof (cases "monitor_ping_waiting s")
    case True
    with run obtain s1 where e: "handle_ping_success reply c s w = Some (c', s1, w')"
      and s: "s' = monitor_ping_clear s1"
      by (auto simp: Option.bind_eq_Some_conv)
    have "later handler_events w w'"
      by (rule later_mono [OF handle_ping_success_effect(6) [OF e]]) (simp add: handler_events_def)
    then show ?thesis
      using handle_ping_success_effect(1,7) [OF e] handle_ping_success_inv [OF e] True ping_clear_inv
      by (auto simp: s monitor_ping_waiting_def intro: outage_refinedI)
  next
    case False
    with run show ?thesis by (auto intro: quiet_step)
  qed
  then show "later handler_events w w'" "ctx_fixed c' = ctx_fixed c" "stop_flag c \<Longrightarrow> stop_flag c'"
    "monitor_inv c s \<Longrightarrow> monitor_inv c' s'"
    "monitor_inv c s \<Longrightarrow> outage_refined T (c, s, w) (c', s', w')" by blast+
qed (auto simp: total)

lemma drain_loop_handler: "monitor_handler T (drain_loop n now reply)"
proof (induction n arbitrary: reply)
  case 0
  have "drain_loop 0 now reply = (\<lambda>c s w. Some (MONITOR_STEP_CONTINUE, c, s, w))"
    by (intro ext) simp
  then show ?case by (simp add: monitor_handler_return)
next
  case (Suc n)
  have eq: "drain_loop (Suc n) now reply = (\<lambda>c s w. do {
      (r, c1, s1, w1) \<leftarrow> do {
        (status, reply1, w1) \<leftarrow> icmp_pinger_receive_reply (pinger c) (dest_addr c) (cached_pid c)
          (monitor_ping_expected_sequence s) (monitor_ping_send_time_ms s) now reply w;
        Some ((status, reply1), c, s, w1) };
      (if fst r = ICMP_RECEIVE_NO_MORE then (\<lambda>c s w. Some (MONITOR_STEP_CONTINUE, c, s, w))
       else if fst r = ICMP_RECEIVE_ERROR then
         (\<lambda>c s w. do { (r, c1, w1) \<leftarrow> monitor_runtime_error (''ICMP receive failed: '' @ error_msg (snd r)) c w;
            Some (r, c1, monitor_ping_clear s, w1) })
       else (\<lambda>c s w. if fst r = ICMP_RECEIVE_MATCHED \<and> monitor_ping_waiting s then
           do { (c1, s1, w1) \<leftarrow> handle_ping_success (snd r) c s w;
                Some (MONITOR_STEP_CONTINUE, c1, monitor_ping_clear s1, w1) }
         else drain_loop n now (snd r) c s w)) c1 s1 w1 })" (is "?L = ?R")
  proof (intro ext)
    fix c :: openups_ctx_t and s w
    obtain st reply1 w1 where r: "icmp_pinger_receive_reply (pinger c) (dest_addr c) (cached_pid c)
        (monitor_ping_expected_sequence s) (monitor_ping_send_time_ms s) now reply w = Some (st, reply1, w1)"
      by (metis icmp_pinger_receive_reply_total not_Some_eq prod_cases3 returns_def)
    show "?L c s w = ?R c s w" by (cases st) (simp_all add: r)
  qed
  have answer: "monitor_handler T (\<lambda>c s w. if matched \<and> monitor_ping_waiting s
      then do { (c1, s1, w1) \<leftarrow> handle_ping_success reply1 c s w;
                Some (MONITOR_STEP_CONTINUE, c1, monitor_ping_clear s1, w1) }
      else drain_loop n now reply1 c s w)" for matched :: bool and reply1
    using monitor_handler_if [OF success_handler Suc.IH, of reply1 reply1] Suc.IH [of reply1]
    by (cases matched) simp_all
  show ?case
    unfolding eq
    by (rule monitor_handler_bind [OF receive_handler])
      (auto intro: monitor_handler_return error_handler answer)
qed

interpretation drain: monitor_handler "{}" "monitor_drain_icmp_replies now" for now
  unfolding monitor_drain_icmp_replies_def by (rule drain_loop_handler)

section \<open>What the helpers guarantee\<close>

text \<open>
  C9: without an expired reply deadline nothing happens. An expired one ends the probe,
  is recorded as exactly one failure, and takes the monitor exactly to the state that the outage
  machine reaches by the loss of a probe at this time, with no process started that the machine
  does not justify; the invariant of the monitor is kept.
\<close>

theorem lost_probe_counted:
  assumes "monitor_handle_ping_timeout now ctx state w = Some (r, ctx', state', w')"
    and "monitor_inv ctx state"
  shows "if waiting (ping state) \<and> ps_deadline_ms (ping state) \<le> now
    then refines_outage (ctx, state, w) [Lost (unat now)] (ctx', state', w') \<and>
      \<not> waiting (ping state') \<and> metrics ctx' = metrics_record_failure (metrics ctx) \<and>
      monitor_inv ctx' state'
    else (r, ctx', state', w') = (MONITOR_STEP_CONTINUE, ctx, state, w)"
proof (cases "monitor_ping_deadline_elapsed state now")
  case True
  with ping_timeout_lost [OF assms(1) True assms(2)] ping_timeout.inv [OF assms]
  show ?thesis by (simp add: monitor_ping_deadline_elapsed_def)
next
  case False
  with assms(1) show ?thesis
    by (auto simp: monitor_ping_deadline_elapsed_def elim: ping_timeout_cases)
qed

definition sample_waiting :: monitor_state_t where
  "sample_waiting = snd (monitor_ping_arm (monitor_state_init 0 10000 0) 0 2000 1)"

definition sample_monitor :: openups_ctx_t where
  "sample_monitor = sample_ctx\<lparr>pinger := sample_pinger\<lparr>send_buf := replicate 8 0 @ payload @ replicate 192 0\<rparr>\<rparr>"

lemma sample_monitor_inv: "monitor_inv sample_monitor sample_waiting"
  by (simp add: monitor_inv_def sample_monitor_def sample_ctx_def sample_config_def sample_waiting_def
      ctx_wf_def int_fields_fit_def INT_MAX_def services_wf_def sample_pinger_def sample_dest_def
      monitor_state_wf_def monitor_ping_arm_def Let_def monitor_deadline_add_ms_def ckd_add_def
      monitor_state_init_def UINT64_MAX_def buffer_ready_def payload_def)

theorem lost_probe_counted_witness:
  "\<exists>r ctx' state' w'.
     monitor_handle_ping_timeout 2000 sample_monitor sample_waiting sample_world = Some (r, ctx', state', w') \<and>
     failed_pings (metrics ctx') = 6 \<and> \<not> waiting (ping state')"
proof -
  obtain r ctx' state' w' where
    t: "monitor_handle_ping_timeout 2000 sample_monitor sample_waiting sample_world
      = Some (r, ctx', state', w')"
    using ping_timeout.returns [OF sample_world_fair] by (metis not_Some_eq prod_cases4 returns_def)
  have "waiting (ping sample_waiting) \<and> ps_deadline_ms (ping sample_waiting) \<le> 2000"
    by (simp add: sample_waiting_def monitor_ping_arm_def Let_def monitor_deadline_add_ms_def ckd_add_def
        monitor_state_init_def UINT64_MAX_def)
  with lost_probe_counted [OF t sample_monitor_inv] t show ?thesis
    by (simp add: metrics_record_failure_def sample_monitor_def sample_ctx_def)
qed

text \<open>
  C10: an accepted reply to the outstanding probe resets the failures, cancels a pending
  shutdown, is recorded as exactly one success with its latency, and starts no process; with the
  probe cleared, the monitor is where the outage machine is after a reply.
\<close>

theorem reply_ends_outage:
  assumes "handle_ping_success result ctx state w = Some (ctx', state', w')"
    and "waiting (ping state)" and "monitor_inv ctx state"
  shows "consecutive_fails ctx' = 0 \<and> \<not> pending (shutdown state') \<and>
    metrics ctx' = metrics_record_success (metrics ctx) (latency_ms result) \<and>
    spawns w' = spawns w \<and> ctx_fixed ctx' = ctx_fixed ctx \<and> monitor_inv ctx' state' \<and>
    refines_outage (ctx, state, w) [Reply (latency_ms result)] (ctx', monitor_ping_clear state', w')"
proof -
  note e = handle_ping_success_effect [OF assms(1)]
  have "spawns w' = spawns w" by (rule spawns_later [OF e(6)]) simp
  with e handle_ping_success_inv [OF assms(1,3)] assms(2) show ?thesis
    by (simp add: monitor_shutdown_clear_def)
qed

theorem reply_ends_outage_witness:
  "\<exists>ctx' state' w'.
     handle_ping_success \<lparr>success = True, latency_ms = 3, error_msg = []\<rparr> sample_monitor sample_waiting
       sample_world = Some (ctx', state', w') \<and> consecutive_fails ctx' = 0"
proof -
  let ?reply = "\<lparr>success = True, latency_ms = 3, error_msg = []\<rparr>"
  obtain ctx' state' w' where
    t: "handle_ping_success ?reply sample_monitor sample_waiting sample_world = Some (ctx', state', w')"
    using handle_ping_success_total [OF sample_world_fair] by (metis not_Some_eq prod_cases3 returns_def)
  have "waiting (ping sample_waiting)"
    by (simp add: sample_waiting_def monitor_ping_arm_def Let_def monitor_deadline_add_ms_def ckd_add_def
        monitor_state_init_def UINT64_MAX_def)
  from reply_ends_outage [OF t this sample_monitor_inv] t show ?thesis by blast
qed

end
