(* ===== verification/Reactor.thy ===== *)
theory Reactor
  imports Runtime
begin

text \<open>
  The reactor of \<open>src/src/monitor.c\<close>: the signal descriptor, the handlers of one iteration in the
  order of the loop (the shutdown tick, the watchdog, the expired reply, the schedule, then
  \<open>poll\<close> and what it reports), the loop itself, and the creation and destruction of the context.
\<close>

section \<open>State\<close>

text \<open>The saved signal mask is only restored, so the channel keeps whether there is one.\<close>

record signal_channel_t =
  sig_fd :: int
  previous_mask_valid :: bool

record pollfd =
  pf_fd :: int
  pf_events :: u16
  revents :: u16

record monitor_loop_t =
  signals :: signal_channel_t
  loop_state :: monitor_state_t
  fds0 :: pollfd
  fds1 :: pollfd
  packet_len :: nat
  now_ms :: u64

section \<open>Helpers\<close>

definition config_duration_ms :: "int \<Rightarrow> u64 \<Rightarrow> u64" where
  "config_duration_ms v scale_ms =
     (if v \<le> 0 then 0
      else case ckd_mul (word_of_int v) scale_ms of None \<Rightarrow> UINT64_MAX | Some d \<Rightarrow> d)"

definition config_interval_ms :: "config_t \<Rightarrow> u64" where
  "config_interval_ms cfg = config_duration_ms (interval_sec cfg) OPENUPS_MS_PER_SEC"

definition monitor_failure_exit_code :: int where
  "monitor_failure_exit_code = OPENUPS_EXIT_FAILURE"

definition pollfd_has_error :: "u16 \<Rightarrow> bool" where
  "pollfd_has_error re = (re AND (POLLERR OR POLLHUP OR POLLNVAL) \<noteq> 0)"

text \<open>A failed reading keeps the old time.\<close>

definition monitor_refresh_time :: "u64 \<Rightarrow> world \<Rightarrow> bool \<times> u64 \<times> world" where
  "monitor_refresh_time now w =
     (let (refreshed, w1) = get_monotonic_ms w
      in if refreshed = UINT64_MAX then (False, now, w1) else (True, refreshed, w1))"

section \<open>Signals\<close>

definition signal_channel_init :: "logger_t \<Rightarrow> world \<Rightarrow> bool \<times> signal_channel_t \<times> world" where
  "signal_channel_init lg w =
     (let channel = \<lparr>sig_fd = - 1, previous_mask_valid = False\<rparr>
      in case sys_sigprocmask (Signals_blocked [SIGINT, SIGTERM, SIGUSR1]) w of
           (Some e, w1) \<Rightarrow>
             (False, channel, logger_error lg (''sigprocmask failed: '' @ strerror (host w1) e) w1)
         | (None, w1) \<Rightarrow>
             (case sys_signalfd w1 of
                (Inl e, w2) \<Rightarrow>
                  (False, channel,
                   snd (sys_sigprocmask Signals_restored
                     (logger_error lg (''signalfd failed: '' @ strerror (host w2) e) w2)))
              | (Inr fd, w2) \<Rightarrow> (True, \<lparr>sig_fd = fd, previous_mask_valid = True\<rparr>, w2)))"

definition signal_channel_destroy ::
    "signal_channel_t \<Rightarrow> logger_t \<Rightarrow> world \<Rightarrow> signal_channel_t \<times> world" where
  "signal_channel_destroy channel lg w =
     (let w1 = (if 0 \<le> sig_fd channel then sys_close (sig_fd channel) w else w);
          fd = (if 0 \<le> sig_fd channel then - 1 else sig_fd channel);
          w2 = (if previous_mask_valid channel then
                  (case sys_sigprocmask Signals_restored w1 of
                     (None, w2) \<Rightarrow> w2
                   | (Some e, w2) \<Rightarrow>
                       logger_error lg (''sigprocmask restore failed: '' @ strerror (host w2) e) w2)
                else w1)
      in (\<lparr>sig_fd = fd, previous_mask_valid = False\<rparr>, w2))"

definition monitor_handle_signal ::
    "signal_channel_t \<Rightarrow> openups_ctx_t \<Rightarrow> world \<Rightarrow> openups_ctx_t \<times> world" where
  "monitor_handle_signal channel ctx w =
     (if sig_fd channel < 0 then (ctx, w)
      else (case sys_read_signal w of
              (None, w1) \<Rightarrow> (ctx, w1)
            | (Some signo, w1) \<Rightarrow>
                if signo = SIGINT \<or> signo = SIGTERM then (ctx\<lparr>stop_flag := True\<rparr>, w1)
                else if signo = SIGUSR1 then (ctx, monitor_log_stats ctx w1)
                else (ctx, w1)))"

section \<open>Handlers of one iteration\<close>

definition monitor_notify_ready :: "openups_ctx_t \<Rightarrow> world \<Rightarrow> (bool \<times> openups_ctx_t \<times> world) option"
  where
  "monitor_notify_ready ctx w =
     (if \<not> runtime_services_is_enabled (services ctx) then Some (True, ctx, w)
      else do { (ok, sd, w1) \<leftarrow> runtime_services_notify_ready (services ctx) (systemd ctx) w;
                let ctx1 = ctx\<lparr>systemd := sd\<rparr>;
                if ok then Some (True, ctx1, w1)
                else Some (False, ctx1,
                  logger_warn (logger ctx1) ''Failed to send systemd READY notification'' w1) })"

definition monitor_handle_watchdog ::
    "u64 \<Rightarrow> openups_ctx_t \<Rightarrow> monitor_state_t \<Rightarrow> world \<Rightarrow>
     (monitor_step_result_t \<times> openups_ctx_t \<times> monitor_state_t \<times> world) option" where
  "monitor_handle_watchdog now ctx state w =
     (if \<not> monitor_watchdog_due state now then Some (MONITOR_STEP_CONTINUE, ctx, state, w)
      else do { (ok, sd, w1) \<leftarrow> runtime_services_notify_watchdog (services ctx) (systemd ctx) w;
                let ctx1 = ctx\<lparr>systemd := sd\<rparr>;
                if ok then
                  Some (MONITOR_STEP_CONTINUE, ctx1, monitor_watchdog_mark_sent state now, w1)
                else
                  Some (MONITOR_STEP_CONTINUE, ctx1, state,
                    logger_warn (logger ctx1) ''Failed to send systemd WATCHDOG notification'' w1) })"

definition monitor_handle_scheduler ::
    "u64 \<Rightarrow> nat \<Rightarrow> openups_ctx_t \<Rightarrow> monitor_state_t \<Rightarrow> world \<Rightarrow>
     (monitor_step_result_t \<times> openups_ctx_t \<times> monitor_state_t \<times> world) option" where
  "monitor_handle_scheduler now len ctx state w =
     (if monitor_ping_waiting state \<or> \<not> monitor_scheduler_due state now
      then Some (MONITOR_STEP_CONTINUE, ctx, state, w)
      else do { (r, ctx1, state1, w1) \<leftarrow> monitor_send_ping now len ctx state w;
                if r \<noteq> MONITOR_STEP_CONTINUE then Some (r, ctx1, state1, w1)
                else
                  let (advanced, state2) = monitor_scheduler_advance state1 now
                  in if \<not> advanced then
                       Some (MONITOR_STEP_ERROR, ctx1, state2,
                         logger_error (logger ctx1) ''Failed to compute next ping deadline'' w1)
                     else Some (MONITOR_STEP_CONTINUE, ctx1, state2, w1) })"

text \<open>
  \<open>monitor_run_due_work\<close> reads the time and the packet length of the loop and updates its state.
\<close>

definition monitor_run_due_work ::
    "u64 \<Rightarrow> nat \<Rightarrow> openups_ctx_t \<Rightarrow> monitor_state_t \<Rightarrow> world \<Rightarrow>
     (monitor_step_result_t \<times> openups_ctx_t \<times> monitor_state_t \<times> world) option" where
  "monitor_run_due_work now len ctx state w =
     do { (stop, ctx1, state1, w1) \<leftarrow> shutdown_fsm_handle_tick now ctx state w;
          if stop then Some (MONITOR_STEP_STOP, ctx1, state1, w1)
          else do {
            (r, ctx2, state2, w2) \<leftarrow> monitor_handle_watchdog now ctx1 state1 w1;
            if r \<noteq> MONITOR_STEP_CONTINUE then Some (r, ctx2, state2, w2)
            else do {
              (r, ctx3, state3, w3) \<leftarrow> monitor_handle_ping_timeout now ctx2 state2 w2;
              if r \<noteq> MONITOR_STEP_CONTINUE then Some (r, ctx3, state3, w3)
              else monitor_handle_scheduler now len ctx3 state3 w3 } } }"

text \<open>A failed \<open>poll\<close> leaves the \<open>revents\<close> of before; otherwise the kernel writes both.\<close>

definition poll_fds :: "int \<Rightarrow> pollfd \<Rightarrow> pollfd \<Rightarrow> world \<Rightarrow> (int + nat) \<times> pollfd \<times> pollfd \<times> world" where
  "poll_fds timeout f0 f1 w =
     (case sys_poll timeout w of (a, w1) \<Rightarrow>
        case poll_ret a of
          Inl e \<Rightarrow> (Inl e, f0, f1, w1)
        | Inr n \<Rightarrow> (Inr n, f0\<lparr>revents := poll_signal_revents a\<rparr>,
                     f1\<lparr>revents := poll_icmp_revents a\<rparr>, w1))"

text \<open>The answer comes with the two \<open>pollfd\<close> and the time that it leaves in the loop.\<close>

definition monitor_handle_poll_events ::
    "signal_channel_t \<Rightarrow> pollfd \<Rightarrow> pollfd \<Rightarrow> u64 \<Rightarrow> openups_ctx_t \<Rightarrow> monitor_state_t \<Rightarrow> world \<Rightarrow>
     ((monitor_step_result_t \<times> pollfd \<times> pollfd \<times> u64) \<times> openups_ctx_t \<times> monitor_state_t \<times> world) option"
  where
  "monitor_handle_poll_events channel f0 f1 now ctx state w =
     (case poll_fds (monitor_state_wait_timeout state now) f0 f1 w of (res, f0, f1, w1) \<Rightarrow>
        if (case res of Inl e \<Rightarrow> e \<noteq> EINTR | Inr _ \<Rightarrow> False) then
          Some ((MONITOR_STEP_ERROR, f0, f1, now), ctx, state,
            logger_error (logger ctx)
              (''poll error: '' @ strerror (host w1) (case res of Inl e \<Rightarrow> e | Inr _ \<Rightarrow> 0)) w1)
        else
          (case monitor_refresh_time now w1 of (_, now, w2) \<Rightarrow>
             if pollfd_has_error (revents f0) then
               Some ((MONITOR_STEP_ERROR, f0, f1, now), ctx, state,
                 logger_error (logger ctx) ''Signal fd entered error state'' w2)
             else if pollfd_has_error (revents f1) then
               Some ((MONITOR_STEP_ERROR, f0, f1, now), ctx, state,
                 logger_error (logger ctx) ''ICMP socket entered error state'' w2)
             else
               (case (if revents f0 AND POLLIN \<noteq> 0 then monitor_handle_signal channel ctx w2
                      else (ctx, w2)) of (ctx1, w3) \<Rightarrow>
                  do { (r, ctx2, state1, w4) \<leftarrow>
                         (if revents f1 AND POLLIN \<noteq> 0 then monitor_drain_icmp_replies now ctx1 state w3
                          else Some (MONITOR_STEP_CONTINUE, ctx1, state, w3));
                       if r \<noteq> MONITOR_STEP_CONTINUE then Some ((r, f0, f1, now), ctx2, state1, w4)
                       else Some ((MONITOR_STEP_CONTINUE, f0\<lparr>revents := 0\<rparr>, f1\<lparr>revents := 0\<rparr>, now),
                              ctx2, state1, w4) })))"

section \<open>The loop\<close>

definition loop_zero :: monitor_loop_t where
  "loop_zero =
     \<lparr>signals = \<lparr>sig_fd = - 1, previous_mask_valid = False\<rparr>, loop_state = monitor_state_init 0 0 0,
      fds0 = \<lparr>pf_fd = 0, pf_events = 0, revents = 0\<rparr>,
      fds1 = \<lparr>pf_fd = 0, pf_events = 0, revents = 0\<rparr>, packet_len = 0, now_ms = 0\<rparr>"

definition monitor_loop_init ::
    "openups_ctx_t \<Rightarrow> world \<Rightarrow> bool \<times> openups_ctx_t \<times> monitor_loop_t \<times> world" where
  "monitor_loop_init ctx w =
     (case signal_channel_init (logger ctx) w of (ok, channel, w1) \<Rightarrow>
        let loop = loop_zero\<lparr>signals := channel\<rparr>
        in if \<not> ok then (False, ctx, loop, w1)
           else
             (case monitor_prepare_packet ctx of (ok, ctx1, len) \<Rightarrow>
                if \<not> ok then
                  (case signal_channel_destroy channel (logger ctx1)
                          (logger_error (logger ctx1) ''Failed to prepare ICMP packet buffer'' w1) of
                     (channel, w2) \<Rightarrow> (False, ctx1, loop\<lparr>signals := channel, packet_len := len\<rparr>, w2))
                else
                  let interval = config_interval_ms (config ctx1)
                  in case monitor_refresh_time 0 w1 of (ok, now, w2) \<Rightarrow>
                       if \<not> ok \<or> interval = 0 \<or> interval = UINT64_MAX then
                         (case signal_channel_destroy channel (logger ctx1)
                                 (logger_error (logger ctx1)
                                    ''Failed to initialize monotonic timing state'' w2) of
                            (channel, w3) \<Rightarrow>
                              (False, ctx1,
                               loop\<lparr>signals := channel, packet_len := len, now_ms := now\<rparr>, w3))
                       else
                         (True, ctx1,
                          loop\<lparr>packet_len := len, now_ms := now,
                            loop_state := monitor_state_init now interval
                              (runtime_services_watchdog_interval_ms (services ctx1) (systemd ctx1)),
                            fds0 := \<lparr>pf_fd = sig_fd channel, pf_events = POLLIN, revents = 0\<rparr>,
                            fds1 := \<lparr>pf_fd = sockfd (pinger ctx1), pf_events = POLLIN, revents = 0\<rparr>\<rparr>,
                          w2)))"

definition monitor_loop_destroy ::
    "openups_ctx_t \<Rightarrow> monitor_loop_t \<Rightarrow> world \<Rightarrow> monitor_loop_t \<times> world" where
  "monitor_loop_destroy ctx loop w =
     (let (channel, w1) = signal_channel_destroy (signals loop) (logger ctx) w
      in (loop\<lparr>signals := channel\<rparr>, w1))"

definition monitor_log_startup :: "openups_ctx_t \<Rightarrow> world \<Rightarrow> (openups_ctx_t \<times> world) option" where
  "monitor_log_startup ctx w =
     do { let w1 = logger_info (logger ctx)
            (''Starting OpenUPS for target '' @ target (config ctx) @ '', every '' @
             show_int (interval_sec (config ctx)) @ ''s'') w;
          (_, ctx1, w2) \<leftarrow> monitor_notify_ready ctx w1;
          ctx_notify_status (''Monitoring '' @ target (config ctx1)) ctx1 w2 }"

definition monitor_log_shutdown :: "int \<Rightarrow> openups_ctx_t \<Rightarrow> world \<Rightarrow> (openups_ctx_t \<times> world) option"
  where
  "monitor_log_shutdown exit_code ctx w =
     do { (ctx1, w1) \<leftarrow>
            (if stop_flag ctx then
               let w1 = logger_info (logger ctx) ''Received shutdown signal, stopping gracefully...'' w
               in if runtime_services_is_enabled (services ctx) then
                    do { (_, sd, w2) \<leftarrow> runtime_services_notify_stopping (services ctx) (systemd ctx) w1;
                         Some (ctx\<lparr>systemd := sd\<rparr>, w2) }
                  else Some (ctx, w1)
             else Some (ctx, w));
          let w2 = monitor_log_stats ctx1 w1;
          Some (ctx1, if exit_code = OPENUPS_EXIT_SUCCESS
                      then logger_info (logger ctx1) ''OpenUPS monitor stopped'' w2 else w2) }"

type_synonym reactor_state = "openups_ctx_t \<times> monitor_loop_t \<times> world"

text \<open>The body of the loop: \<open>Some code\<close> leaves the loop with an exit code.\<close>

definition reactor_body :: "reactor_state \<Rightarrow> (int option \<times> reactor_state) option" where
  "reactor_body = (\<lambda>(ctx, loop, w).
     if stop_flag ctx then Some (Some OPENUPS_EXIT_SUCCESS, ctx, loop, w)
     else
       (case monitor_refresh_time (now_ms loop) w of (_, now, w1) \<Rightarrow>
          do { (r, ctx1, state1, w2) \<leftarrow>
                 monitor_run_due_work now (packet_len loop) ctx (loop_state loop) w1;
               let loop1 = loop\<lparr>now_ms := now, loop_state := state1\<rparr>;
               if r = MONITOR_STEP_ERROR then Some (Some monitor_failure_exit_code, ctx1, loop1, w2)
               else if r = MONITOR_STEP_STOP then Some (Some OPENUPS_EXIT_SUCCESS, ctx1, loop1, w2)
               else do {
                 ((r, f0, f1, now), ctx2, state2, w3) \<leftarrow>
                   monitor_handle_poll_events (signals loop1) (fds0 loop1) (fds1 loop1) (now_ms loop1)
                     ctx1 (loop_state loop1) w2;
                 let loop2 = loop1\<lparr>loop_state := state2, fds0 := f0, fds1 := f1, now_ms := now\<rparr>;
                 if r = MONITOR_STEP_ERROR then Some (Some monitor_failure_exit_code, ctx2, loop2, w3)
                 else if r = MONITOR_STEP_STOP then Some (Some OPENUPS_EXIT_SUCCESS, ctx2, loop2, w3)
                 else Some (None, ctx2, loop2, w3) } }))"

definition openups_reactor_run :: "openups_ctx_t \<Rightarrow> world \<Rightarrow> (int \<times> openups_ctx_t \<times> world) option" where
  "openups_reactor_run ctx w =
     (case monitor_loop_init ctx w of (ok, ctx1, loop, w1) \<Rightarrow>
        if \<not> ok then Some (monitor_failure_exit_code, ctx1, w1)
        else do {
          (ctx2, w2) \<leftarrow> monitor_log_startup ctx1 w1;
          (exit_code, ctx3, loop3, w3) \<leftarrow> loop_until reactor_body (ctx2, loop, w2);
          (ctx4, w4) \<leftarrow> monitor_log_shutdown exit_code ctx3 w3;
          Some (exit_code, ctx4, snd (monitor_loop_destroy ctx4 loop3 w4)) })"

section \<open>The context\<close>

text \<open>
  The context that \<open>memset\<close> leaves; the function pointers of its service table, which nobody
  calls before \<open>runtime_services_init\<close>, are written as those of the null table.
\<close>

definition ctx_zero :: openups_ctx_t where
  "ctx_zero =
     \<lparr>stop_flag = False, consecutive_fails = 0, cached_pid = 0,
      config = \<lparr>target = [], interval_sec = 0, fail_threshold = 0, timeout_ms = 0,
        shutdown_mode = SHUTDOWN_MODE_DRY_RUN, delay_minutes = 0, log_level = LOG_LEVEL_ERROR,
        enable_systemd = False\<rparr>,
      dest_addr = \<lparr>ss_family = 0, sin_addr = replicate 4 0, sin6_addr = replicate 16 0\<rparr>,
      dest_addr_len = 0, logger = \<lparr>level = LOG_LEVEL_ERROR, enable_timestamp = False\<rparr>,
      metrics = \<lparr>total_pings = 0, successful_pings = 0, failed_pings = 0, total_latency = 0,
        min_latency = 0, max_latency = 0, start_time_ms = 0\<rparr>,
      pinger = \<lparr>sockfd = 0, family = 0, sequence = 0, send_buf = replicate SEND_BUF_SIZE 0\<rparr>,
      systemd = \<lparr>sn_enabled = False, sn_sockfd = 0, watchdog_usec = 0, last_status_ms = 0,
        last_status = []\<rparr>,
      services = runtime_services_set_null\<rparr>"

text \<open>The error message of a failure (\<open>None\<close> for success), the context and the world.\<close>

definition openups_ctx_init ::
    "config_t \<Rightarrow> world \<Rightarrow> (string option \<times> openups_ctx_t \<times> world) option" where
  "openups_ctx_init cfg w =
     (let pid = word_of_int (getpid (host w) AND 0xFFFF) :: u16;
          lg = logger_init (log_level cfg) (config_log_timestamps_enabled cfg);
          ctx = ctx_zero\<lparr>config := cfg, cached_pid := (if pid = 0 then 1 else pid), logger := lg,
            dest_addr_len := 128\<rparr>;
          w1 = (if log_level cfg = LOG_LEVEL_DEBUG then config_print cfg lg w else w)
      in case resolve_target (host w1) (target cfg) of
           Inl e \<Rightarrow> Some (Some e, ctx, w1)
         | Inr (addr, len) \<Rightarrow>
             let ctx1 = ctx\<lparr>dest_addr := addr, dest_addr_len := len\<rparr>
             in case icmp_pinger_init (pinger ctx1) (ss_family addr) w1 of
                  (Some e, p, w2) \<Rightarrow> Some (Some e, ctx1\<lparr>pinger := p\<rparr>, w2)
                | (None, p, w2) \<Rightarrow>
                    (case metrics_init w2 of (m, w3) \<Rightarrow>
                       do { (sv, sd, w4) \<leftarrow> runtime_services_init (systemd ctx1) (enable_systemd cfg) w3;
                            let ctx2 = ctx1\<lparr>pinger := p, metrics := m, services := sv, systemd := sd\<rparr>;
                            if \<not> runtime_services_is_enabled sv then
                              Some (None, ctx2,
                                logger_debug lg ''systemd not detected, integration disabled'' w4)
                            else
                              let interval = runtime_services_watchdog_interval_ms sv sd;
                                  w5 = logger_debug lg ''systemd integration enabled'' w4
                              in Some (None, ctx2,
                                   if 0 < interval
                                   then logger_debug lg
                                     (''watchdog interval: '' @ show_nat (unat interval) @ ''ms'') w5
                                   else w5) }))"

definition openups_ctx_destroy :: "openups_ctx_t \<Rightarrow> world \<Rightarrow> openups_ctx_t \<times> world" where
  "openups_ctx_destroy ctx w =
     (case runtime_services_destroy (services ctx) (systemd ctx) w of (sv, sd, w1) \<Rightarrow>
        case icmp_pinger_destroy (pinger ctx) w1 of (p, w2) \<Rightarrow> (ctx_zero, w2))"

end
