(* ===== verification/ReactorSteps.thy ===== *)
theory ReactorSteps
  imports Reactor
begin

text \<open>
  The handlers of one iteration of the reactor keep the contract \<open>monitor_handler\<close>: each is built
  from handlers that do, so \<open>monitor_run_due_work\<close> and \<open>monitor_handle_poll_events\<close> refine the
  outage machine as a whole.
\<close>

section \<open>Building handlers\<close>

text \<open>Handlers that leave the outage alone.\<close>

definition leaves_outage :: "monitor_config \<Rightarrow> monitor_config \<Rightarrow> bool" where
  "leaves_outage = (\<lambda>(c, s, w) (c', s', w').
     later {Cls_text, Cls_notify, Cls_wait} w w' \<and> ctx_fixed c' = ctx_fixed c \<and>
     consecutive_fails c' = consecutive_fails c \<and> metrics c' = metrics c \<and> pinger c' = pinger c \<and>
     (stop_flag c \<longrightarrow> stop_flag c') \<and> shutdown s' = shutdown s \<and> ping s' = ping s \<and>
     (monitor_state_wf s \<longrightarrow> monitor_state_wf s'))"

lemma monitor_handler_quiet:
  assumes total: "\<And>c s w. fair w \<Longrightarrow> returns (run c s w)"
    and effect: "\<And>c s w r c' s' w'. run c s w = Some (r, c', s', w') \<Longrightarrow>
      leaves_outage (c, s, w) (c', s', w')"
  shows "monitor_handler T run"
proof
  fix c s w r c' s' w'
  assume "run c s w = Some (r, c', s', w')"
  note e = effect [OF this, unfolded leaves_outage_def prod.case]
  then have l: "later {Cls_text, Cls_notify, Cls_wait} w w'" by blast
  then show "later handler_events w w'" by (rule later_mono) (auto simp: handler_events_def)
  from e show fixed: "ctx_fixed c' = ctx_fixed c" and "stop_flag c \<Longrightarrow> stop_flag c'" by blast+
  show "monitor_inv c s \<Longrightarrow> monitor_inv c' s'"
    using e ctx_wf_fixed [OF fixed] ctx_fixed_parts(1) [OF fixed] by (simp add: monitor_inv_def)
  show "outage_refined T (c, s, w) (c', s', w')"
    using e spawns_later [OF l] packets_later [OF l] by (intro quiet_step) simp_all
qed (rule total)

lemma monitor_handler_world:
  assumes "\<And>c s w. later {Cls_text, Cls_notify, Cls_wait} w (snd (f c s w))"
  shows "monitor_handler T (\<lambda>c s w. case f c s w of (r, w1) \<Rightarrow> Some (r, c, s, w1))"
proof (rule monitor_handler_quiet)
  fix c s w r c' s' w'
  assume "(case f c s w of (r, w1) \<Rightarrow> Some (r, c, s, w1)) = Some (r, c', s', w')"
  then have "f c s w = (r, w')" "c' = c" "s' = s" by (auto split: prod.splits)
  with assms [of w c s] show "leaves_outage (c, s, w) (c', s', w')" by (simp add: leaves_outage_def)
qed (simp split: prod.split)

text \<open>A handler may end the iteration with its own answer, or the next one goes on.\<close>

lemma monitor_handler_then:
  assumes f: "monitor_handler T f" and g: "\<And>r. monitor_handler T (g r)"
  shows "monitor_handler T (\<lambda>c s w. do { (r, c1, s1, w1) \<leftarrow> f c s w;
      if P r then Some (h r, c1, s1, w1) else g r c1 s1 w1 })"
proof -
  have "monitor_handler T (if P r then (\<lambda>c s w. Some (h r, c, s, w)) else g r)" for r
    using g monitor_handler_return by auto
  note b = monitor_handler_bind [OF f this]
  have "(if P r then \<lambda>c s w. Some (h r, c, s, w) else g r) c s w =
      (if P r then Some (h r, c, s, w) else g r c s w)" for r c s w by simp
  with b show ?thesis by simp
qed

lemma monitor_handler_unless:
  assumes "monitor_handler T f"
  shows "monitor_handler T (\<lambda>c s w. if P c s then Some (r, c, s, w) else f c s w)"
proof -
  have "monitor_handler T (\<lambda>c s w. if P c s then Some (r, c, s, w) else Some (r, c, s, w))"
    by (simp add: monitor_handler_return)
  then show ?thesis using assms by (rule monitor_handler_if)
qed

lemma monitor_log_stats_later [frame]:
  "later K w0 w \<Longrightarrow> Cls_text \<in> K \<Longrightarrow> later K w0 (monitor_log_stats ctx w)"
  by (auto simp: monitor_log_stats_def Let_def split: prod.splits
      intro!: logger_later dest: metrics_uptime_seconds_later [of _ _ _ _ K w0])

lemma monitor_refresh_time_later [frame]:
  "monitor_refresh_time now w = (ok, now', w') \<Longrightarrow> later K w0 w \<Longrightarrow> later K w0 w'"
  by (auto simp: monitor_refresh_time_def Let_def split: prod.splits if_splits
      dest: get_monotonic_ms_later [of _ _ _ K w0])

section \<open>Signals\<close>

lemma monitor_handle_signal_effect:
  assumes "monitor_handle_signal channel ctx w = (ctx', w')"
  shows "later {Cls_text} w w'" and "ctx' = ctx \<or> ctx' = ctx\<lparr>stop_flag := True\<rparr>"
proof -
  obtain r w1 where r: "sys_read_signal w = (r, w1)" by fastforce
  then have l: "later {Cls_text} w w1" by (rule sys_read_signal_later) simp
  from assms r l show "later {Cls_text} w w'" "ctx' = ctx \<or> ctx' = ctx\<lparr>stop_flag := True\<rparr>"
    by (auto simp: monitor_handle_signal_def monitor_log_stats_later split: if_splits option.splits)
qed

text \<open>A stop signal sets the stop flag.\<close>

lemma monitor_handle_signal_stops:
  assumes "0 \<le> sig_fd channel" and "shd (sigread_in w) \<in> {Some SIGINT, Some SIGTERM}"
  shows "stop_flag (fst (monitor_handle_signal channel ctx w))"
  using assms by (auto simp: monitor_handle_signal_def sys_read_signal_def)

lemma signal_handler:
  "monitor_handler T (\<lambda>c s w. case (if P then monitor_handle_signal channel c w else (c, w)) of
     (c1, w1) \<Rightarrow> Some ((), c1, s, w1))"
proof (rule monitor_handler_quiet)
  fix c :: openups_ctx_t and s :: monitor_state_t and w r c' s' w'
  assume "(case (if P then monitor_handle_signal channel c w else (c, w)) of
     (c1, w1) \<Rightarrow> Some ((), c1, s, w1)) = Some (r, c', s', w')"
  then have "(c' = c \<or> c' = c\<lparr>stop_flag := True\<rparr>) \<and> s' = s \<and> later {Cls_text} w w'"
    using monitor_handle_signal_effect [of channel c w c' w'] by (auto split: if_splits prod.splits)
  then show "leaves_outage (c, s, w) (c', s', w')"
    by (auto simp: leaves_outage_def intro: later_mono)
qed (simp split: prod.split)

section \<open>The watchdog and the schedule\<close>

lemma watchdog_idle:
  "\<not> monitor_watchdog_due state now \<Longrightarrow>
   monitor_handle_watchdog now ctx state w = Some (MONITOR_STEP_CONTINUE, ctx, state, w)"
  by (simp add: monitor_handle_watchdog_def)

lemma watchdog_cases:
  assumes "monitor_handle_watchdog now ctx state w = Some (r, ctx', state', w')"
  obtains (idle) "\<not> monitor_watchdog_due state now" "r = MONITOR_STEP_CONTINUE" "ctx' = ctx"
      "state' = state" "w' = w"
  | (due) ok sd w1 where "monitor_watchdog_due state now" "r = MONITOR_STEP_CONTINUE"
      "runtime_services_notify_watchdog (services ctx) (systemd ctx) w = Some (ok, sd, w1)"
      "ctx' = ctx\<lparr>systemd := sd\<rparr>" "later {Cls_text} w1 w'"
      "state' = (if ok then monitor_watchdog_mark_sent state now else state)"
proof (cases "monitor_watchdog_due state now")
  case False
  with assms watchdog_idle [OF False, of ctx w] show thesis by (intro idle) simp_all
next
  case True
  from assms True obtain ok sd w1 where
    n: "runtime_services_notify_watchdog (services ctx) (systemd ctx) w = Some (ok, sd, w1)"
    and r: "(if ok then Some (MONITOR_STEP_CONTINUE, ctx\<lparr>systemd := sd\<rparr>,
               monitor_watchdog_mark_sent state now, w1)
             else Some (MONITOR_STEP_CONTINUE, ctx\<lparr>systemd := sd\<rparr>, state,
               logger_warn (logger (ctx\<lparr>systemd := sd\<rparr>))
                 ''Failed to send systemd WATCHDOG notification'' w1))
           = Some (r, ctx', state', w')"
    by (auto simp: monitor_handle_watchdog_def Let_def Option.bind_eq_Some_conv
        simp del: openups_ctx_t.simps)
  from r have "r = MONITOR_STEP_CONTINUE" "ctx' = ctx\<lparr>systemd := sd\<rparr>" "later {Cls_text} w1 w'"
    "state' = (if ok then monitor_watchdog_mark_sent state now else state)"
    by (auto simp: logger_later split: if_splits)
  with True n due show thesis by blast
qed

lemma mark_sent_keeps [simp]:
  "shutdown (monitor_watchdog_mark_sent s now) = shutdown s"
  "ping (monitor_watchdog_mark_sent s now) = ping s"
  by (simp_all add: monitor_watchdog_mark_sent_def)

interpretation watchdog_handler: monitor_handler "{}" "monitor_handle_watchdog now" for now
proof (rule monitor_handler_quiet)
  fix c :: openups_ctx_t and s w r c' s' w'
  assume t: "monitor_handle_watchdog now c s w = Some (r, c', s', w')"
  then show "leaves_outage (c, s, w) (c', s', w')"
  proof (cases rule: watchdog_cases)
    case (due ok sd w1)
    have "later {Cls_text, Cls_notify, Cls_wait} w w1"
      by (rule watchdog_op.accumulates [OF due(3)]) simp_all
    also have "later {Cls_text, Cls_notify, Cls_wait} w1 w'" by (rule later_mono [OF due(5)]) simp
    finally show ?thesis
      using due watchdog_op.keeps [OF due(3)] by (auto simp: leaves_outage_def ctx_fixed_def monitor_state_wf_steps)
  qed (simp add: leaves_outage_def)
qed (auto simp: monitor_handle_watchdog_def Let_def total)

lemma advance_keeps:
  assumes "monitor_scheduler_advance s now = (ok, s')"
  shows "shutdown s' = shutdown s" and "ping s' = ping s"
  using assms by (auto simp: monitor_scheduler_advance_def Let_def split: if_splits)

lemma advance_handler:
  "monitor_handler T (\<lambda>c s w. let (advanced, s2) = monitor_scheduler_advance s now
     in if \<not> advanced then Some (MONITOR_STEP_ERROR, c, s2, logger_error (logger c) msg w)
        else Some (MONITOR_STEP_CONTINUE, c, s2, w))"
proof (rule monitor_handler_quiet)
  fix c :: openups_ctx_t and s w r c' s' w'
  obtain ok s2 where a: "monitor_scheduler_advance s now = (ok, s2)" by fastforce
  assume "(let (advanced, s2) = monitor_scheduler_advance s now
     in if \<not> advanced then Some (MONITOR_STEP_ERROR, c, s2, logger_error (logger c) msg w)
        else Some (MONITOR_STEP_CONTINUE, c, s2, w)) = Some (r, c', s', w')"
  then show "leaves_outage (c, s, w) (c', s', w')"
    using advance_keeps [OF a] monitor_state_wf_steps(6) [of s now]
    by (auto simp: a leaves_outage_def logger_later split: if_splits)
qed (simp add: Let_def split: prod.split)

interpretation scheduler_handler: monitor_handler "{}" "monitor_handle_scheduler now n" for now n
proof -
  have "monitor_handler {} (\<lambda>c s w. if monitor_ping_waiting s \<or> \<not> monitor_scheduler_due s now
      then Some (MONITOR_STEP_CONTINUE, c, s, w)
      else do { (r, c1, s1, w1) \<leftarrow> monitor_send_ping now n c s w;
                if r \<noteq> MONITOR_STEP_CONTINUE then Some (r, c1, s1, w1)
                else let (advanced, s2) = monitor_scheduler_advance s1 now
                  in if \<not> advanced then Some (MONITOR_STEP_ERROR, c1, s2,
                       logger_error (logger c1) ''Failed to compute next ping deadline'' w1)
                     else Some (MONITOR_STEP_CONTINUE, c1, s2, w1) })"
    by (intro monitor_handler_unless monitor_handler_then [OF send_ping.monitor_handler_axioms]
        advance_handler)
  then show "monitor_handler {} (monitor_handle_scheduler now n)"
    by (simp add: monitor_handle_scheduler_def [abs_def])
qed

interpretation due_work: monitor_handler "{unat now}" "monitor_run_due_work now n" for now n
proof -
  have "monitor_handler {unat now} (\<lambda>c s w. do { (stop, c1, s1, w1) \<leftarrow> shutdown_fsm_handle_tick now c s w;
      if stop then Some (MONITOR_STEP_STOP, c1, s1, w1)
      else do { (r, c2, s2, w2) \<leftarrow> monitor_handle_watchdog now c1 s1 w1;
        if r \<noteq> MONITOR_STEP_CONTINUE then Some (r, c2, s2, w2)
        else do { (r, c3, s3, w3) \<leftarrow> monitor_handle_ping_timeout now c2 s2 w2;
          if r \<noteq> MONITOR_STEP_CONTINUE then Some (r, c3, s3, w3)
          else monitor_handle_scheduler now n c3 s3 w3 } } })"
    by (intro monitor_handler_then [OF tick.monitor_handler_axioms]
        monitor_handler_then [OF monitor_handler_mono [OF watchdog_handler.monitor_handler_axioms]]
        monitor_handler_then [OF ping_timeout.monitor_handler_axioms]
        monitor_handler_mono [OF scheduler_handler.monitor_handler_axioms]) simp_all
  then show "monitor_handler {unat now} (monitor_run_due_work now n)"
    by (simp add: monitor_run_due_work_def [abs_def])
qed

section \<open>What \<open>poll\<close> reports\<close>

lemma poll_fds_later:
  assumes "poll_fds t f0 f1 w = (r, f0', f1', w')"
  shows "later {Cls_wait} w w'"
proof -
  obtain a w1 where p: "sys_poll t w = (a, w1)" by fastforce
  then have "later {Cls_wait} w w1" by (rule sys_poll_later) simp_all
  with assms p show ?thesis by (auto simp: poll_fds_def split: sum.splits)
qed

text \<open>The pieces of \<open>monitor_handle_poll_events\<close>: the wait, a failure, the clock and the events.\<close>

definition poll_wait ::
    "pollfd \<Rightarrow> pollfd \<Rightarrow> u64 \<Rightarrow> monitor_state_t \<Rightarrow> world \<Rightarrow> ((int + nat) \<times> pollfd \<times> pollfd) \<times> world" where
  "poll_wait f0 f1 now s w =
     (case poll_fds (monitor_state_wait_timeout s now) f0 f1 w of (r, f0, f1, w1) \<Rightarrow> ((r, f0, f1), w1))"

definition poll_failure :: "'r \<Rightarrow> (world \<Rightarrow> string) \<Rightarrow> openups_ctx_t \<Rightarrow> monitor_state_t \<Rightarrow> world \<Rightarrow>
    ('r \<times> openups_ctx_t \<times> monitor_state_t \<times> world) option" where
  "poll_failure r msg c s w = Some (r, c, s, logger_error (logger c) (msg w) w)"

definition poll_dispatch :: "signal_channel_t \<Rightarrow> pollfd \<Rightarrow> pollfd \<Rightarrow> u64 \<Rightarrow>
    openups_ctx_t \<Rightarrow> monitor_state_t \<Rightarrow> world \<Rightarrow>
    ((monitor_step_result_t \<times> pollfd \<times> pollfd \<times> u64) \<times> openups_ctx_t \<times> monitor_state_t \<times> world) option"
  where
  "poll_dispatch channel f0 f1 now c s w =
     do { (_, c1, s1, w1) \<leftarrow> (case (if revents f0 AND POLLIN \<noteq> 0 then monitor_handle_signal channel c w
              else (c, w)) of (c1, w1) \<Rightarrow> Some ((), c1, s, w1));
          (r, c2, s2, w2) \<leftarrow> (if revents f1 AND POLLIN \<noteq> 0 then monitor_drain_icmp_replies now c1 s1 w1
              else Some (MONITOR_STEP_CONTINUE, c1, s1, w1));
          if r \<noteq> MONITOR_STEP_CONTINUE then Some ((r, f0, f1, now), c2, s2, w2)
          else Some ((MONITOR_STEP_CONTINUE, f0\<lparr>revents := 0\<rparr>, f1\<lparr>revents := 0\<rparr>, now), c2, s2, w2) }"

lemma monitor_handler_branch:
  "monitor_handler T f \<Longrightarrow> monitor_handler T g \<Longrightarrow> monitor_handler T (\<lambda>c s w. if P then f c s w else g c s w)"
  by (cases P) simp_all

lemma poll_failure_handler: "monitor_handler T (poll_failure r msg)"
  unfolding poll_failure_def
  by (rule monitor_handler_quiet) (auto simp: leaves_outage_def logger_later)

lemma poll_dispatch_handler: "monitor_handler {} (poll_dispatch channel f0 f1 now)"
  unfolding poll_dispatch_def [abs_def]
  by (intro monitor_handler_bind [OF signal_handler] monitor_handler_bind monitor_handler_branch
      monitor_handler_then [OF monitor_handler_branch] monitor_handler_return drain.monitor_handler_axioms)

lemma poll_events_composed:
  "monitor_handle_poll_events channel f0 f1 now = (\<lambda>c s w. do {
     (r, c, s, w) \<leftarrow> (case poll_wait f0 f1 now s w of (r, w1) \<Rightarrow> Some (r, c, s, w1));
     if case fst r of Inl e \<Rightarrow> e \<noteq> EINTR | Inr _ \<Rightarrow> False
     then poll_failure (MONITOR_STEP_ERROR, fst (snd r), snd (snd r), now)
            (\<lambda>w. ''poll error: '' @ strerror (host w) (case fst r of Inl e \<Rightarrow> e | Inr _ \<Rightarrow> 0)) c s w
     else do {
       (now, c, s, w) \<leftarrow> (case snd (monitor_refresh_time now w) of (now, w1) \<Rightarrow> Some (now, c, s, w1));
       if pollfd_has_error (revents (fst (snd r)))
       then poll_failure (MONITOR_STEP_ERROR, fst (snd r), snd (snd r), now)
              (\<lambda>w. ''Signal fd entered error state'') c s w
       else if pollfd_has_error (revents (snd (snd r)))
       then poll_failure (MONITOR_STEP_ERROR, fst (snd r), snd (snd r), now)
              (\<lambda>w. ''ICMP socket entered error state'') c s w
       else poll_dispatch channel (fst (snd r)) (snd (snd r)) now c s w } })" (is "_ = ?rhs")
proof (intro ext)
  fix c s w
  obtain r g0 g1 w1 where p: "poll_fds (monitor_state_wait_timeout s now) f0 f1 w = (r, g0, g1, w1)"
    by (metis prod_cases4)
  obtain ok t w2 where t: "monitor_refresh_time now w1 = (ok, t, w2)" by (metis prod_cases3)
  obtain c1 w3 where x: "(if revents g0 AND POLLIN \<noteq> 0 then monitor_handle_signal channel c w2
      else (c, w2)) = (c1, w3)" by fastforce
  show "monitor_handle_poll_events channel f0 f1 now c s w = ?rhs c s w"
    unfolding monitor_handle_poll_events_def poll_wait_def p prod.case bind.bind_lunit fst_conv snd_conv t
      poll_failure_def poll_dispatch_def x by (rule refl)
qed

interpretation poll_handler: monitor_handler "{}" "monitor_handle_poll_events channel f0 f1 now"
  for channel f0 f1 now
proof -
  have "monitor_handler {} (\<lambda>c s w. case poll_wait f0 f1 now s w of (r, w1) \<Rightarrow> Some (r, c, s, w1))"
    by (rule monitor_handler_world [where f = "\<lambda>c s. poll_wait f0 f1 now s"])
      (auto simp: poll_wait_def split: prod.split dest: poll_fds_later intro: later_mono)
  moreover have "monitor_handler {} (\<lambda>c s w. case snd (monitor_refresh_time now w) of
      (now, w1) \<Rightarrow> Some (now, c, s, w1))"
    by (rule monitor_handler_world [where f = "\<lambda>c s w. snd (monitor_refresh_time now w)"])
      (metis later_refl monitor_refresh_time_later prod.collapse)
  ultimately show "monitor_handler {} (monitor_handle_poll_events channel f0 f1 now)"
    unfolding poll_events_composed
    by (intro monitor_handler_bind monitor_handler_branch poll_failure_handler poll_dispatch_handler)
qed

section \<open>What the steps guarantee\<close>

lemma arm_effect:
  assumes "monitor_ping_arm s now d q = (True, s')"
  shows "waiting (ping s') \<and> expected_sequence (ping s') = q \<and>
    unat (ps_deadline_ms (ping s')) = unat now + unat d \<and> scheduler s' = scheduler s"
  using ping_timer.arm_ok [OF assms] assms
  by (auto simp: monitor_ping_arm_def Let_def split: if_splits)

text \<open>The ways through the scheduler: nothing is due, or a probe is sent and the next one planned.\<close>

lemma scheduler_cases:
  assumes "monitor_handle_scheduler now n ctx s w = Some (r, ctx', s', w')"
  obtains (nothing) "waiting (ping s) \<or> now < next_ping_ms (scheduler s)"
      "(r, ctx', s', w') = (MONITOR_STEP_CONTINUE, ctx, s, w)"
  | (unsent) "\<not> (waiting (ping s) \<or> now < next_ping_ms (scheduler s))"
      "monitor_send_ping now n ctx s w = Some (r, ctx', s', w')" "r \<noteq> MONITOR_STEP_CONTINUE"
  | (unplanned) s1 w1 where "\<not> (waiting (ping s) \<or> now < next_ping_ms (scheduler s))"
      "monitor_send_ping now n ctx s w = Some (MONITOR_STEP_CONTINUE, ctx', s1, w1)"
      "monitor_scheduler_advance s1 now = (False, s')" "r = MONITOR_STEP_ERROR"
      "w' = logger_error (logger ctx') ''Failed to compute next ping deadline'' w1"
  | (planned) s1 where "\<not> (waiting (ping s) \<or> now < next_ping_ms (scheduler s))"
      "monitor_send_ping now n ctx s w = Some (MONITOR_STEP_CONTINUE, ctx', s1, w')"
      "monitor_scheduler_advance s1 now = (True, s')" "r = MONITOR_STEP_CONTINUE"
proof (cases "monitor_ping_waiting s \<or> \<not> monitor_scheduler_due s now")
  case True
  then have "waiting (ping s) \<or> now < next_ping_ms (scheduler s)"
    by (auto simp: monitor_ping_waiting_def monitor_scheduler_due_def)
  moreover have "(r, ctx', s', w') = (MONITOR_STEP_CONTINUE, ctx, s, w)"
    using assms True by (simp add: monitor_handle_scheduler_def)
  ultimately show thesis by (rule nothing)
next
  case go: False
  then have idle: "\<not> (waiting (ping s) \<or> now < next_ping_ms (scheduler s))"
    by (auto simp: monitor_ping_waiting_def monitor_scheduler_due_def)
  obtain r1 ctx1 s1 w1 where p: "monitor_send_ping now n ctx s w = Some (r1, ctx1, s1, w1)"
    using assms go unfolding monitor_handle_scheduler_def by (auto simp: Option.bind_eq_Some_conv)
  obtain ok s2 where a: "monitor_scheduler_advance s1 now = (ok, s2)" by fastforce
  show thesis
  proof (cases "r1 = MONITOR_STEP_CONTINUE")
    case False
    with assms go p show thesis by (intro unsent [OF idle]) (auto simp: monitor_handle_scheduler_def)
  next
    case True
    with assms go p a show thesis
      by (cases ok; intro unplanned [OF idle] planned [OF idle])
        (auto simp: monitor_handle_scheduler_def)
  qed
qed

text \<open>The packet of a probe from a well-formed monitor.\<close>

lemma probe_on_wire:
  assumes "monitor_inv ctx s"
    and "icmp_pinger_send_echo (pinger ctx) (dest_addr ctx) (dest_addr_len ctx) (cached_pid ctx) 64 w
       = (err, p, w1)"
  shows "(\<exists>pkt. events Cls_packet w1 = events Cls_packet w @
           [Sent_packet (sockfd (pinger ctx)) pkt (dest_addr ctx) (dest_addr_len ctx)] \<and>
         length pkt = 64 \<and> be16 (pkt ! 4) (pkt ! 5) = cached_pid ctx \<and>
         be16 (pkt ! 6) (pkt ! 7) = sequence p \<and> drop 8 pkt = payload) \<and>
      (err = None \<longrightarrow> shd (sendto_in w) = Inr 64)"
proof -
  have "0 \<le> sockfd (pinger ctx)" "ss_family (dest_addr ctx) \<in> {AF_INET, AF_INET6}"
    "length (send_buf (pinger ctx)) = 256" "take 56 (drop 8 (send_buf (pinger ctx))) = payload"
    using assms(1) by (simp_all add: monitor_inv_def ctx_wf_def buffer_ready_def)
  then show ?thesis using send_echo_wire [OF _ _ _ _ _ assms(2)] by auto
qed

text \<open>
  C16: with a probe outstanding, or before its time, nothing is sent. Otherwise exactly one
  packet of 64 bytes goes out, with the process's identifier, the pinger's new sequence number and
  the fixed payload. If the kernel took it whole and the times fit 64 bits, the monitor waits for
  exactly this sequence number until the timeout, and the next probe is not in the past; if not,
  the iteration ends with an error.
\<close>

theorem scheduled_probe:
  assumes "monitor_handle_scheduler now 64 ctx s w = Some (r, ctx', s', w')"
    and "monitor_inv ctx s" and "0 \<le> timeout_ms (config ctx)"
  shows "if waiting (ping s) \<or> now < next_ping_ms (scheduler s)
    then (r, ctx', s', w') = (MONITOR_STEP_CONTINUE, ctx, s, w)
    else
      (\<exists>pkt. events Cls_packet w' = events Cls_packet w @
           [Sent_packet (sockfd (pinger ctx)) pkt (dest_addr ctx) (dest_addr_len ctx)] \<and>
         length pkt = 64 \<and> be16 (pkt ! 4) (pkt ! 5) = cached_pid ctx \<and>
         be16 (pkt ! 6) (pkt ! 7) = sequence (pinger ctx') \<and> drop 8 pkt = payload) \<and>
      (if r = MONITOR_STEP_CONTINUE
       then shd (sendto_in w) = Inr 64 \<and> waiting (ping s') \<and>
         expected_sequence (ping s') = sequence (pinger ctx') \<and>
         unat (ps_deadline_ms (ping s')) = unat now + nat (timeout_ms (config ctx)) \<and>
         now \<le> next_ping_ms (scheduler s')
       else r = MONITOR_STEP_ERROR)"
proof -
  have t: "unat (word_of_int (timeout_ms (config ctx)) :: u64) = nat (timeout_ms (config ctx))"
    using assms(2,3) by (simp add: unat_of_int_u64_small monitor_inv_def ctx_wf_def int_fields_fit_def)
  note wire = probe_on_wire [OF assms(2)]
  from assms(1) show ?thesis
  proof (cases rule: scheduler_cases)
    case nothing
    then show ?thesis by simp
  next
    case unsent
    from unsent(2) show ?thesis
    proof (cases rule: send_ping_cases)
      case (failed err q v msg)
      note e = monitor_runtime_error_effect [OF failed(2)]
      have "events Cls_packet w' = events Cls_packet v" by (rule later_events [OF e(8)]) simp
      with wire [OF failed(1)] e(1,5) unsent(1) show ?thesis by auto
    qed (use unsent(3) in simp)
  next
    case (unplanned s1 w1)
    have "events Cls_packet w' = events Cls_packet w1"
      unfolding unplanned(5) by (rule later_events [of "{Cls_text}"]) (simp_all add: logger_later)
    with unplanned(2) show ?thesis
      by (cases rule: send_ping_cases)
        (use unplanned(1,4) wire monitor_runtime_error_effect(1) in force)+
  next
    case (planned s1)
    have adv: "ping s' = ping s1 \<and> now \<le> next_ping_ms (scheduler s')"
      using advance_keeps(2) [OF planned(3)] planned(3) by (auto elim: scheduler_advance_cases)
    from planned(2) show ?thesis
    proof (cases rule: send_ping_cases)
      case (failed err q v msg)
      then show ?thesis using monitor_runtime_error_effect(1) by fastforce
    next
      case (sent q)
      note arm = arm_effect [OF sent(2)]
      show ?thesis using wire [OF sent(1)] arm adv sent(3) t planned(1,4) by simp
    qed
  qed
qed

theorem scheduled_probe_witness:
  "\<exists>r ctx' s' w'.
     monitor_handle_scheduler 10000 64 sample_monitor (monitor_state_init 0 10000 0) sample_world
       = Some (r, ctx', s', w') \<and> events Cls_packet w' \<noteq> events Cls_packet sample_world"
proof -
  obtain r ctx' s' w' where
    t: "monitor_handle_scheduler 10000 64 sample_monitor (monitor_state_init 0 10000 0) sample_world
      = Some (r, ctx', s', w')"
    using scheduler_handler.returns [OF sample_world_fair] by (metis not_Some_eq prod_cases4 returns_def)
  have "monitor_inv sample_monitor (monitor_state_init 0 10000 0)"
    using sample_monitor_inv unfolding monitor_inv_def by (simp add: monitor_state_wf_init) (simp add: monitor_state_init_def)
  moreover have "0 \<le> timeout_ms (config sample_monitor)"
    by (simp add: sample_monitor_def sample_ctx_def sample_config_def)
  ultimately show ?thesis
    using scheduled_probe [OF t] t by (auto simp: monitor_state_init_def)
qed

definition quiet_poll :: "pollfd \<Rightarrow> pollfd \<Rightarrow> poll_answer \<Rightarrow> bool" where
  "quiet_poll f0 f1 a =
     (case poll_ret a of
        Inl e \<Rightarrow> e = EINTR \<and> revents f0 = 0 \<and> revents f1 = 0
      | Inr n \<Rightarrow> \<not> pollfd_has_error (poll_signal_revents a) \<and> poll_signal_revents a AND POLLIN = 0 \<and>
          \<not> pollfd_has_error (poll_icmp_revents a) \<and> poll_icmp_revents a AND POLLIN = 0)"

definition bad_poll :: "poll_answer \<Rightarrow> bool" where
  "bad_poll a =
     (case poll_ret a of
        Inl e \<Rightarrow> e \<noteq> EINTR
      | Inr n \<Rightarrow> pollfd_has_error (poll_signal_revents a) \<or> pollfd_has_error (poll_icmp_revents a))"

text \<open>
  C30: a \<open>poll\<close> that fails other than by an interruption, and a descriptor reported with
  an error, end the iteration with an error and touch neither the context nor the monitor's state;
  an interrupted \<open>poll\<close> (with no events left over), and one that reports nothing to read, are no
  errors and touch neither as well.
\<close>

theorem poll_failures_end_iteration:
  assumes "monitor_handle_poll_events channel f0 f1 now ctx s w = Some ((r, g0, g1, t), ctx', s', w')"
    and "bad_poll (shd (poll_in w)) \<or> quiet_poll f0 f1 (shd (poll_in w))"
  shows "ctx' = ctx \<and> s' = s \<and> later {Cls_text, Cls_wait} w w' \<and>
    r = (if bad_poll (shd (poll_in w)) then MONITOR_STEP_ERROR else MONITOR_STEP_CONTINUE)"
proof -
  obtain res h0 h1 w1 where p: "poll_fds (monitor_state_wait_timeout s now) f0 f1 w = (res, h0, h1, w1)"
    by (metis prod_cases4)
  obtain ok u w2 where m: "monitor_refresh_time now w1 = (ok, u, w2)" by (metis prod_cases3)
  have l1: "later {Cls_text, Cls_wait} w w1" by (rule later_mono [OF poll_fds_later [OF p]]) simp
  then have l2: "later {Cls_text, Cls_wait} w w2" by (rule monitor_refresh_time_later [OF m])
  have res: "res = poll_ret (shd (poll_in w))"
    "revents h0 = (case poll_ret (shd (poll_in w)) of Inl e \<Rightarrow> revents f0 | Inr n \<Rightarrow> poll_signal_revents (shd (poll_in w)))"
    "revents h1 = (case poll_ret (shd (poll_in w)) of Inl e \<Rightarrow> revents f1 | Inr n \<Rightarrow> poll_icmp_revents (shd (poll_in w)))"
    using p by (auto simp: poll_fds_def sys_poll_def split: sum.splits)
  have log: "later {Cls_text, Cls_wait} w v \<Longrightarrow> later {Cls_text, Cls_wait} w (logger_error lg x v)"
    for v lg x by (simp add: logger_later)
  note run = assms(1) [unfolded monitor_handle_poll_events_def p prod.case m]
  consider (failed) e where "poll_ret (shd (poll_in w)) = Inl e" "e \<noteq> EINTR"
    | (interrupted) "poll_ret (shd (poll_in w)) = Inl EINTR" "revents f0 = 0" "revents f1 = 0"
    | (bad) n where "poll_ret (shd (poll_in w)) = Inr n"
        "pollfd_has_error (revents h0) \<or> pollfd_has_error (revents h1)"
    | (quiet) n where "poll_ret (shd (poll_in w)) = Inr n" "\<not> pollfd_has_error (revents h0)"
        "\<not> pollfd_has_error (revents h1)" "revents h0 AND POLLIN = 0" "revents h1 AND POLLIN = 0"
    using assms(2) res(2,3)
    by (cases "poll_ret (shd (poll_in w))") (auto simp: bad_poll_def quiet_poll_def)
  then show ?thesis
  proof cases
    case failed
    with run res(1) log [OF l1] show ?thesis by (auto simp: bad_poll_def)
  next
    case interrupted
    with run res l2 show ?thesis by (auto simp: bad_poll_def pollfd_has_error_def)
  next
    case bad
    with run res log [OF l2] show ?thesis by (auto simp: bad_poll_def split: if_splits)
  next
    case quiet
    with run res l2 show ?thesis by (auto simp: bad_poll_def)
  qed
qed

theorem poll_failures_end_iteration_witness:
  "\<exists>x ctx' s' w'.
     monitor_handle_poll_events \<lparr>sig_fd = 6, previous_mask_valid = True\<rparr> (fds0 loop_zero) (fds1 loop_zero) 0
       sample_monitor sample_waiting sample_world = Some (x, ctx', s', w') \<and>
     fst x = MONITOR_STEP_CONTINUE \<and> ctx' = sample_monitor"
proof -
  obtain r g0 g1 t ctx' s' w' where
    p: "monitor_handle_poll_events \<lparr>sig_fd = 6, previous_mask_valid = True\<rparr> (fds0 loop_zero) (fds1 loop_zero) 0
       sample_monitor sample_waiting sample_world = Some ((r, g0, g1, t), ctx', s', w')"
    using poll_handler.returns [OF sample_world_fair] by (fastforce simp: returns_def)
  have "quiet_poll (fds0 loop_zero) (fds1 loop_zero) (shd (poll_in sample_world))"
    "\<not> bad_poll (shd (poll_in sample_world))"
    by (simp_all add: quiet_poll_def bad_poll_def sample_world_def pollfd_has_error_def)
  with poll_failures_end_iteration [OF p] p show ?thesis by auto
qed

text \<open>
  C31: when the notification of the watchdog fails, the watchdog stays due and the next
  \<open>poll\<close> does not wait at all: the loop tries again at once, and without a pause as long as the
  notification fails.
\<close>

theorem failed_watchdog_spins:
  assumes "monitor_watchdog_due s now" and "last_sent_ms (watchdog s) \<le> now" and "now \<noteq> UINT64_MAX"
    and "runtime_services_notify_watchdog (services ctx) (systemd ctx) w = Some (False, sd, w1)"
  shows "\<exists>w'. monitor_handle_watchdog now ctx s w
      = Some (MONITOR_STEP_CONTINUE, ctx\<lparr>systemd := sd\<rparr>, s, w') \<and>
    monitor_watchdog_due s now \<and> monitor_state_wait_timeout s now = 0"
proof -
  from assms(1,2) have d: "0 < unat (wd_interval_ms (watchdog s))"
    "unat (last_sent_ms (watchdog s)) + unat (wd_interval_ms (watchdog s)) \<le> unat now"
    by (simp_all add: watchdog_due_iff)
  have "unat now \<noteq> unat UINT64_MAX" using assms(3) by (simp add: u64_eq_max_iff)
  then have "unat now < unat UINT64_MAX" by (simp add: le_neq_trans)
  with d have "unat (last_sent_ms (watchdog s)) + unat (wd_interval_ms (watchdog s))
      \<in> set (active_deadlines s)"
    by (simp add: active_deadlines_def word_less_nat_alt del: unat_UINT64_MAX)
  with d(2) have "monitor_state_wait_timeout s now = 0" unfolding wait_timeout_0_iff by blast
  with assms(1,4) show ?thesis by (simp add: monitor_handle_watchdog_def)
qed

definition watched_ctx :: openups_ctx_t where
  "watched_ctx = sample_ctx
     \<lparr>services := \<lparr>backend_ctx = BACKEND_SYSTEMD, sv_enabled = True, sv_ready = FN_SYSTEMD,
        sv_status = FN_SYSTEMD, sv_stopping = FN_SYSTEMD, sv_watchdog = FN_SYSTEMD,
        sv_watchdog_interval_ms = FN_SYSTEMD, sv_destroy = FN_SYSTEMD\<rparr>,
      systemd := \<lparr>sn_enabled = True, sn_sockfd = 9, watchdog_usec = 20000000, last_status_ms = 0,
        last_status = []\<rparr>\<rparr>"

theorem failed_watchdog_spins_witness:
  "\<exists>w'. monitor_handle_watchdog 20000 watched_ctx (monitor_state_init 0 30000 10000)
       (sample_world\<lparr>send_in := sconst (Inl 1)\<rparr>)
     = Some (MONITOR_STEP_CONTINUE, watched_ctx, monitor_state_init 0 30000 10000, w') \<and>
     monitor_state_wait_timeout (monitor_state_init 0 30000 10000) 20000 = 0"
proof -
  let ?w = "sample_world\<lparr>send_in := sconst (Inl 1)\<rparr>"
  have "\<exists>w1. runtime_services_notify_watchdog (services watched_ctx) (systemd watched_ctx) ?w
      = Some (False, systemd watched_ctx, w1)"
    by (simp add: runtime_services_notify_watchdog_def call_flag_def watched_ctx_def
        systemd_notifier_watchdog_def send_notify_def OPENUPS_NOTIFY_RETRY_COUNT_def numeral_3_eq_3
        sys_send_def errno_defs)
  moreover have "watched_ctx\<lparr>systemd := systemd watched_ctx\<rparr> = watched_ctx" by simp
  ultimately show ?thesis
    using failed_watchdog_spins [of "monitor_state_init 0 30000 10000" 20000 watched_ctx ?w]
    by (auto simp: monitor_watchdog_due_def monitor_state_init_def UINT64_MAX_def)
qed

end
