(* ===== verification/ReactorRun.thy ===== *)
theory ReactorRun
  imports ReactorSteps
begin

text \<open>
  The life of the reactor of \<open>src/src/monitor.c\<close>: what creating and destroying its parts opens
  and closes, one iteration as a step that keeps the invariant of the monitor and refines the
  outage machine, and the run from \<open>monitor_loop_init\<close> to \<open>monitor_loop_destroy\<close>.
\<close>

section \<open>The signal descriptor\<close>

lemma signal_channel_init_effect:
  assumes "signal_channel_init lg w = (ok, channel, w')"
  shows "later {Cls_text, Cls_signals, Cls_fd} w w'"
    and "held fd w' = held fd w + (if ok \<and> sig_fd channel = fd then 1 else 0)"
    and "if ok then 0 \<le> sig_fd channel else sig_fd channel = - 1"
proof -
  let ?K = "{Cls_text, Cls_signals, Cls_fd}"
  obtain r1 w1 where m: "sys_sigprocmask (Signals_blocked [SIGINT, SIGTERM, SIGUSR1]) w = (r1, w1)"
    by fastforce
  obtain r2 w2 where s: "sys_signalfd w1 = (r2, w2)" by fastforce
  have l1: "later {Cls_signals} w w1" by (rule sys_sigprocmask_later [OF m]) simp_all
  have h1: "held fd w1 = held fd w" by (rule held_later [OF l1]) simp
  have l2: "later {Cls_fd} w1 w2" by (rule sys_signalfd_later [OF s]) simp_all
  have log: "later {Cls_text} v (logger_error lg t v)" for t v by (simp add: logger_later)
  have restore: "later {Cls_signals} v (snd (sys_sigprocmask Signals_restored v))" for v
    by (metis class_of.simps(13) insertI1 later_refl prod.collapse sys_sigprocmask_later)
  have quiet: "held fd (snd (sys_sigprocmask Signals_restored (logger_error lg t v))) = held fd v"
    "held fd (logger_error lg t v) = held fd v" for t v
    using held_later [OF restore] held_later [OF log] by simp_all
  have l12: "later ?K w w2" by (rule later_trans [OF later_mono [OF l1] later_mono [OF l2]]) simp_all
  have l13: "later ?K w (logger_error lg t w1)" for t
    by (rule later_trans [OF later_mono [OF l1] later_mono [OF log]]) simp_all
  have l14: "later ?K w (snd (sys_sigprocmask Signals_restored (logger_error lg t w2)))" for t
    by (rule later_trans [OF later_trans [OF l12 later_mono [OF log]] later_mono [OF restore]]) simp_all
  show "later ?K w w'"
    using assms m s l12 l13 l14
    by (auto simp: signal_channel_init_def Let_def split: option.splits sum.splits)
  show "held fd w' = held fd w + (if ok \<and> sig_fd channel = fd then 1 else 0)"
    using assms m s h1 quiet held_sys_open(2) [of w1 _ w2 fd] held_sys_open(4) [of w1 _ w2 fd]
    by (auto simp: signal_channel_init_def Let_def split: option.splits sum.splits)
  show "if ok then 0 \<le> sig_fd channel else sig_fd channel = - 1"
    using assms m s held_sys_open(4) [of w1 _ w2]
    by (auto simp: signal_channel_init_def Let_def split: option.splits sum.splits)
qed

lemma signal_channel_destroy_effect:
  assumes "signal_channel_destroy channel lg w = (channel', w')"
  shows "later {Cls_text, Cls_signals, Cls_fd} w w'"
    and "held fd w' = held fd w - (if 0 \<le> sig_fd channel \<and> sig_fd channel = fd then 1 else 0)"
    and "sig_fd channel' < 0"
proof -
  define w1 where "w1 = (if 0 \<le> sig_fd channel then sys_close (sig_fd channel) w else w)"
  have l1: "later {Cls_text, Cls_signals, Cls_fd} w w1" by (simp add: w1_def sys_close_later)
  obtain r w2 where m: "sys_sigprocmask Signals_restored w1 = (r, w2)" by fastforce
  have l2: "later {Cls_text, Cls_signals} w1 w2" by (rule sys_sigprocmask_later [OF m]) simp_all
  then have l3: "later {Cls_text, Cls_signals} w1 (logger_error lg t w2)" for t
    by (simp add: logger_later)
  have "later {Cls_text, Cls_signals} w1 w'"
    using assms m l2 l3
    by (auto simp: signal_channel_destroy_def Let_def simp flip: w1_def split: if_splits option.splits)
  then show "later {Cls_text, Cls_signals, Cls_fd} w w'"
    and "held fd w' = held fd w - (if 0 \<le> sig_fd channel \<and> sig_fd channel = fd then 1 else 0)"
    using later_trans [OF l1 later_mono] held_later [of "{Cls_text, Cls_signals}" w1 w' fd]
    by (auto simp: w1_def)
  show "sig_fd channel' < 0"
    using assms by (auto simp: signal_channel_destroy_def Let_def split: if_splits)
qed

section \<open>Starting the loop\<close>

lemma monitor_state_init_idle [simp]:
  "pending (shutdown (monitor_state_init now iv wd)) = False"
  "waiting (ping (monitor_state_init now iv wd)) = False"
  by (simp_all add: monitor_state_init_def)

text \<open>What is left of the world and the context after a step that only logs and opens descriptors.\<close>

lemma monitor_loop_init_effect:
  assumes "monitor_loop_init ctx w = (ok, ctx', loop, w')" and "length (send_buf (pinger ctx)) = 256"
  shows "later {Cls_text, Cls_signals, Cls_fd} w w'"
    and "held fd w' = held fd w + (if ok \<and> sig_fd (signals loop) = fd then 1 else 0)"
    and "\<exists>buf. ctx' = ctx\<lparr>pinger := (pinger ctx)\<lparr>send_buf := buf\<rparr>\<rparr> \<and> (ok \<longrightarrow> buffer_ready buf)"
    and "ok \<Longrightarrow> 0 \<le> sig_fd (signals loop) \<and> packet_len loop = 64 \<and> monitor_state_wf (loop_state loop) \<and>
      \<not> pending (shutdown (loop_state loop)) \<and> \<not> waiting (ping (loop_state loop)) \<and>
      pf_fd (fds0 loop) = sig_fd (signals loop) \<and> pf_fd (fds1 loop) = sockfd (pinger ctx)"
proof -
  let ?K = "{Cls_text, Cls_signals, Cls_fd}"
  obtain ok1 ch w1 where i: "signal_channel_init (logger ctx) w = (ok1, ch, w1)" by (metis prod_cases3)
  note e1 = signal_channel_init_effect [OF i]
  obtain buf where p: "monitor_prepare_packet ctx = (True, ctx\<lparr>pinger := (pinger ctx)\<lparr>send_buf := buf\<rparr>\<rparr>, 64)"
    and buf: "buffer_ready buf" by (rule monitor_prepare_packet_effect [OF assms(2)])
  obtain ok2 now w2 where t: "monitor_refresh_time 0 w1 = (ok2, now, w2)" by (metis prod_cases3)
  have "later {} w1 w2" by (rule monitor_refresh_time_later [OF t]) simp
  then have l2: "later ?K w w2" "held fd w2 = held fd w1"
    using e1(1) held_later [of "{}"] by (auto intro: later_trans later_mono)
  define w2' where "w2' = logger_error (logger ctx) ''Failed to initialize monotonic timing state'' w2"
  have l2': "later ?K w w2'" "held fd w2' = held fd w1"
    using l2 held_later [of "{Cls_text}" w2 w2' fd] by (simp_all add: w2'_def logger_later)
  obtain ch' w3 where d: "signal_channel_destroy ch (logger ctx) w2' = (ch', w3)" by fastforce
  note e3 = signal_channel_destroy_effect [OF d]
  have l3: "later ?K w w3" by (rule later_trans [OF l2'(1) e3(1)])
  define bad where "bad = (\<not> ok2 \<or> config_interval_ms (config ctx) = 0 \<or> config_interval_ms (config ctx) = UINT64_MAX)"
  have "monitor_loop_init ctx w =
      (if \<not> ok1 then (False, ctx, loop_zero\<lparr>signals := ch\<rparr>, w1)
       else if bad then (False, ctx\<lparr>pinger := (pinger ctx)\<lparr>send_buf := buf\<rparr>\<rparr>,
         loop_zero\<lparr>signals := ch', packet_len := 64, now_ms := now\<rparr>, w3)
       else (True, ctx\<lparr>pinger := (pinger ctx)\<lparr>send_buf := buf\<rparr>\<rparr>,
         loop_zero\<lparr>signals := ch, packet_len := 64, now_ms := now,
           loop_state := monitor_state_init now (config_interval_ms (config ctx))
             (runtime_services_watchdog_interval_ms (services ctx) (systemd ctx)),
           fds0 := \<lparr>pf_fd = sig_fd ch, pf_events = POLLIN, revents = 0\<rparr>,
           fds1 := \<lparr>pf_fd = sockfd (pinger ctx), pf_events = POLLIN, revents = 0\<rparr>\<rparr>, w2))"
    using d by (simp add: monitor_loop_init_def i p t bad_def w2'_def Let_def)
  with assms(1) consider
      (no_signals) "\<not> ok1" "\<not> ok" "ctx' = ctx" "w' = w1"
    | (no_time) "ok1" "\<not> ok" "ctx' = ctx\<lparr>pinger := (pinger ctx)\<lparr>send_buf := buf\<rparr>\<rparr>" "w' = w3"
    | (started) "ok1" "ok" "ctx' = ctx\<lparr>pinger := (pinger ctx)\<lparr>send_buf := buf\<rparr>\<rparr>" "w' = w2"
        "signals loop = ch" "packet_len loop = 64"
        "loop_state loop = monitor_state_init now (config_interval_ms (config ctx))
           (runtime_services_watchdog_interval_ms (services ctx) (systemd ctx))"
        "pf_fd (fds0 loop) = sig_fd ch" "pf_fd (fds1 loop) = sockfd (pinger ctx)"
    by (cases ok1; cases bad) auto
  note cases = this
  show "later ?K w w'" using cases e1(1) l2(1) l3 by cases simp_all
  show "held fd w' = held fd w + (if ok \<and> sig_fd (signals loop) = fd then 1 else 0)"
    using cases e1(2) [of fd] e1(3) l2(2) l2'(2) e3(2) [of fd] by cases (simp_all split: if_splits)
  show "\<exists>buf. ctx' = ctx\<lparr>pinger := (pinger ctx)\<lparr>send_buf := buf\<rparr>\<rparr> \<and> (ok \<longrightarrow> buffer_ready buf)"
    using cases
  proof cases
    case no_signals
    then show ?thesis by (intro exI [of _ "send_buf (pinger ctx)"]) simp
  qed (use buf in auto)
  show "ok \<Longrightarrow> 0 \<le> sig_fd (signals loop) \<and> packet_len loop = 64 \<and> monitor_state_wf (loop_state loop) \<and>
      \<not> pending (shutdown (loop_state loop)) \<and> \<not> waiting (ping (loop_state loop)) \<and>
      pf_fd (fds0 loop) = sig_fd (signals loop) \<and> pf_fd (fds1 loop) = sockfd (pinger ctx)"
    using cases e1(3) by cases (auto simp: monitor_state_wf_init split: if_splits)
qed

lemma refresh_reading:
  assumes "monitor_refresh_time now w = (ok, t, w')"
  shows "t = now \<or> unat t \<in> clock_readings w w'" and "ok \<Longrightarrow> unat t \<in> clock_readings w w'"
  using assms get_monotonic_ms_reading
  by (auto simp: monitor_refresh_time_def Let_def split: prod.splits if_splits)

lemma monitor_loop_init_now:
  assumes "monitor_loop_init ctx w = (True, ctx', loop, w')"
  shows "unat (now_ms loop) \<in> clock_readings w w'"
proof -
  obtain ok1 ch w1 where i: "signal_channel_init (logger ctx) w = (ok1, ch, w1)" by (metis prod_cases3)
  obtain ok2 c1 len where p: "monitor_prepare_packet ctx = (ok2, c1, len)" by (metis prod_cases3)
  obtain ok3 now w2 where t: "monitor_refresh_time 0 w1 = (ok3, now, w2)" by (metis prod_cases3)
  have "ok3" "now_ms loop = now" "w' = w2"
    using assms by (auto simp: monitor_loop_init_def i p t Let_def split: if_splits prod.splits)
  with refresh_reading(2) [OF t] clock_readings_mono(2) [OF signal_channel_init_effect(1) [OF i]
      monitor_refresh_time_later [OF t later_refl]]
  show ?thesis by auto
qed

section \<open>The first and the last messages\<close>

lemma monitor_notify_ready_effect:
  assumes "monitor_notify_ready ctx w = Some (ok, ctx', w')"
  shows "\<exists>sd. ctx' = ctx\<lparr>systemd := sd\<rparr> \<and> ctx_fixed ctx' = ctx_fixed ctx \<and>
    later {Cls_text, Cls_notify, Cls_wait} w w'"
proof (cases "runtime_services_is_enabled (services ctx)")
  case False
  with assms show ?thesis
    by (intro exI [of _ "systemd ctx"]) (simp add: monitor_notify_ready_def)
next
  case True
  from assms True obtain r sd w1 where n: "runtime_services_notify_ready (services ctx) (systemd ctx) w
      = Some (r, sd, w1)" and c: "ctx' = ctx\<lparr>systemd := sd\<rparr>" and l: "later {Cls_text} w1 w'"
    by (auto simp: monitor_notify_ready_def Let_def Option.bind_eq_Some_conv logger_later split: if_splits)
  have "later {Cls_text, Cls_notify, Cls_wait} w w1" by (rule ready_op.accumulates [OF n]) simp_all
  then have "later {Cls_text, Cls_notify, Cls_wait} w w'" by (rule later_trans [OF _ later_mono [OF l]]) simp
  then show ?thesis
    using ready_op.keeps [OF n] c by (intro exI [of _ sd]) (simp add: ctx_fixed_def)
qed

lemma monitor_notify_ready_fair [fairness]:
  "monitor_notify_ready ctx w = Some (ok, ctx', w') \<Longrightarrow> fair w \<Longrightarrow> fair w'"
  using monitor_notify_ready_effect by (blast intro: fair_later)

lemma monitor_notify_ready_total [total]: "fair w \<Longrightarrow> returns (monitor_notify_ready ctx w)"
  by (auto simp: monitor_notify_ready_def Let_def total)

text \<open>Both change nothing but the notifier's cache.\<close>

definition only_notified :: "openups_ctx_t \<times> world \<Rightarrow> openups_ctx_t \<times> world \<Rightarrow> bool" where
  "only_notified = (\<lambda>(c, w) (c', w').
     (\<exists>sd. c' = c\<lparr>systemd := sd\<rparr>) \<and> ctx_fixed c' = ctx_fixed c \<and>
     later {Cls_text, Cls_notify, Cls_wait} w w')"

lemma only_notified_trans:
  "only_notified (c, w) (c1, w1) \<Longrightarrow> only_notified (c1, w1) (c2, w2) \<Longrightarrow> only_notified (c, w) (c2, w2)"
  by (auto simp: only_notified_def intro: later_trans)

lemma only_notified_text: "later {Cls_text} w w' \<Longrightarrow> only_notified (c, w) (c, w')"
  by (auto simp: only_notified_def intro: later_mono exI [of _ "systemd c"])

lemma only_notified_keeps:
  assumes "only_notified (c, w) (c', w')"
  shows "ctx_fixed c' = ctx_fixed c" and "consecutive_fails c' = consecutive_fails c"
    and "metrics c' = metrics c" and "pinger c' = pinger c" and "stop_flag c' = stop_flag c"
    and "later {Cls_text, Cls_notify, Cls_wait} w w'" and "held fd w' = held fd w"
    and "spawns w' = spawns w" and "packets w' = packets w"
proof -
  show l: "later {Cls_text, Cls_notify, Cls_wait} w w'" using assms by (simp add: only_notified_def)
  show "held fd w' = held fd w" "spawns w' = spawns w" "packets w' = packets w"
    by (rule held_later [OF l] spawns_later [OF l] packets_later [OF l], simp)+
qed (use assms in \<open>auto simp: only_notified_def\<close>)

lemma ctx_notify_status_only: "ctx_notify_status text c w = Some (c', w') \<Longrightarrow> only_notified (c, w) (c', w')"
  by (elim ctx_notify_status_effect) (auto simp: only_notified_def intro: later_mono)

lemma monitor_log_startup_effect:
  assumes "monitor_log_startup ctx w = Some (ctx', w')"
  shows "only_notified (ctx, w) (ctx', w')"
proof -
  define w1 where "w1 = logger_info (logger ctx) (''Starting OpenUPS for target '' @
    target (config ctx) @ '', every '' @ show_int (interval_sec (config ctx)) @ ''s'') w"
  then have l: "later {Cls_text} w w1" by (simp add: logger_later)
  from assms obtain ok ctx1 w2 where r: "monitor_notify_ready ctx w1 = Some (ok, ctx1, w2)"
    and s: "ctx_notify_status (''Monitoring '' @ target (config ctx1)) ctx1 w2 = Some (ctx', w')"
    unfolding monitor_log_startup_def Let_def w1_def [symmetric]
    by (auto simp: Option.bind_eq_Some_conv)
  have "only_notified (ctx, w1) (ctx1, w2)"
    using monitor_notify_ready_effect [OF r] by (simp add: only_notified_def)
  from only_notified_trans [OF this ctx_notify_status_only [OF s]]
  show ?thesis by (rule only_notified_trans [OF only_notified_text [OF l]])
qed

lemma monitor_log_startup_total [total]: "fair w \<Longrightarrow> returns (monitor_log_startup ctx w)"
  by (auto simp: monitor_log_startup_def Let_def total intro!: ctx_notify_status_total
      dest!: monitor_notify_ready_fair)

lemma monitor_log_shutdown_effect:
  assumes "monitor_log_shutdown code ctx w = Some (ctx', w')"
  shows "only_notified (ctx, w) (ctx', w')"
proof -
  from assms obtain ctx1 w1 where
    s: "(if stop_flag ctx then
           let w1 = logger_info (logger ctx) ''Received shutdown signal, stopping gracefully...'' w
           in if runtime_services_is_enabled (services ctx) then
                do { (_, sd, w2) \<leftarrow> runtime_services_notify_stopping (services ctx) (systemd ctx) w1;
                     Some (ctx\<lparr>systemd := sd\<rparr>, w2) }
              else Some (ctx, w1)
         else Some (ctx, w)) = Some (ctx1, w1)"
    and e: "ctx' = ctx1" "later {Cls_text} w1 w'"
    unfolding monitor_log_shutdown_def Let_def
    by (auto simp: Option.bind_eq_Some_conv logger_later monitor_log_stats_later)
  define v where "v = logger_info (logger ctx) ''Received shutdown signal, stopping gracefully...'' w"
  have v: "later {Cls_text} w v" by (simp add: v_def logger_later)
  have stopping: "only_notified (ctx, v) (ctx\<lparr>systemd := sd\<rparr>, w2)"
    if n: "runtime_services_notify_stopping (services ctx) (systemd ctx) v = Some (ok, sd, w2)" for ok sd w2
    using stopping_op.keeps [OF n] later_mono [OF stopping_op.later [OF n]]
    by (auto simp: only_notified_def ctx_fixed_def)
  have "only_notified (ctx, w) (ctx1, w1)"
    using s v by (auto simp: Let_def Option.bind_eq_Some_conv simp flip: v_def split: if_splits
        intro: only_notified_text only_notified_trans [OF only_notified_text stopping])
  from only_notified_trans [OF this only_notified_text [OF e(2)]] e(1) show ?thesis by simp
qed

lemma monitor_log_shutdown_total [total]: "fair w \<Longrightarrow> returns (monitor_log_shutdown code ctx w)"
  by (auto simp: monitor_log_shutdown_def Let_def total)

section \<open>One iteration\<close>

lemma reactor_body_cases:
  assumes "reactor_body (ctx, loop, w) = Some (r, ctx', loop', w')"
  obtains (stopped) "stop_flag ctx" "r = Some OPENUPS_EXIT_SUCCESS" "ctx' = ctx" "loop' = loop" "w' = w"
  | (due) ok now w1 x s1 where "\<not> stop_flag ctx"
      "monitor_refresh_time (now_ms loop) w = (ok, now, w1)"
      "monitor_run_due_work now (packet_len loop) ctx (loop_state loop) w1 = Some (x, ctx', s1, w')"
      "x \<noteq> MONITOR_STEP_CONTINUE" "loop' = loop\<lparr>now_ms := now, loop_state := s1\<rparr>"
      "r = Some (if x = MONITOR_STEP_ERROR then OPENUPS_EXIT_FAILURE else OPENUPS_EXIT_SUCCESS)"
  | (polled) ok now w1 ctx1 s1 w2 x f0 f1 t s2 where "\<not> stop_flag ctx"
      "monitor_refresh_time (now_ms loop) w = (ok, now, w1)"
      "monitor_run_due_work now (packet_len loop) ctx (loop_state loop) w1
         = Some (MONITOR_STEP_CONTINUE, ctx1, s1, w2)"
      "monitor_handle_poll_events (signals loop) (fds0 loop) (fds1 loop) now ctx1 s1 w2
         = Some ((x, f0, f1, t), ctx', s2, w')"
      "loop' = loop\<lparr>now_ms := t, loop_state := s2, fds0 := f0, fds1 := f1\<rparr>"
      "r = (case x of MONITOR_STEP_CONTINUE \<Rightarrow> None | MONITOR_STEP_STOP \<Rightarrow> Some OPENUPS_EXIT_SUCCESS
            | MONITOR_STEP_ERROR \<Rightarrow> Some OPENUPS_EXIT_FAILURE)"
proof (cases "stop_flag ctx")
  case True
  with assms show thesis by (intro stopped) (simp_all add: reactor_body_def)
next
  case False
  obtain ok now w1 where t: "monitor_refresh_time (now_ms loop) w = (ok, now, w1)" by (metis prod_cases3)
  from assms False t obtain x ctx1 s1 w2 where
    d: "monitor_run_due_work now (packet_len loop) ctx (loop_state loop) w1 = Some (x, ctx1, s1, w2)"
    by (auto simp: reactor_body_def Option.bind_eq_Some_conv)
  show thesis
  proof (cases "x = MONITOR_STEP_CONTINUE")
    case True
    with assms False t d obtain y f0 f1 u ctx2 s2 w3 where
      p: "monitor_handle_poll_events (signals loop) (fds0 loop) (fds1 loop) now ctx1 s1 w2
         = Some ((y, f0, f1, u), ctx2, s2, w3)"
      by (auto simp: reactor_body_def Let_def Option.bind_eq_Some_conv)
    from assms False t d True p show thesis
      by (intro polled [OF False t d [unfolded True]])
        (auto simp: reactor_body_def Let_def monitor_failure_exit_code_def split: monitor_step_result_t.split
          if_splits)
  next
    case other: False
    with assms False t d have "ctx1 = ctx'" "w2 = w'" "loop' = loop\<lparr>now_ms := now, loop_state := s1\<rparr>"
      "r = Some (if x = MONITOR_STEP_ERROR then OPENUPS_EXIT_FAILURE else OPENUPS_EXIT_SUCCESS)"
      by (cases x, auto simp: reactor_body_def Let_def monitor_failure_exit_code_def)+
    with d show thesis by (intro due [OF False t _ other]) simp_all
  qed
qed

text \<open>
  What iterations guarantee together: the monitor's invariant, the fixed part of the context and of
  the loop, and a run of the outage machine.
\<close>

definition monitor_part :: "reactor_state \<Rightarrow> monitor_config" where
  "monitor_part = (\<lambda>(c, l, w). (c, loop_state l, w))"

definition reactor_inv :: "reactor_state \<Rightarrow> bool" where
  "reactor_inv = (\<lambda>(c, l, w). monitor_inv c (loop_state l))"

text \<open>The times the loop may act upon: the one it holds and those it reads.\<close>

definition loop_times :: "monitor_loop_t \<Rightarrow> world \<Rightarrow> world \<Rightarrow> nat set" where
  "loop_times l w w' = insert (unat (now_ms l)) (clock_readings w w')"

definition reactor_step :: "reactor_state \<Rightarrow> reactor_state \<Rightarrow> bool" where
  "reactor_step = (\<lambda>(c, l, w) (c', l', w').
     later handler_events w w' \<and> ctx_fixed c' = ctx_fixed c \<and> (stop_flag c \<longrightarrow> stop_flag c') \<and>
     signals l' = signals l \<and> packet_len l' = packet_len l \<and> reactor_inv (c', l', w') \<and>
     unat (now_ms l') \<in> loop_times l w w' \<and>
     outage_refined (loop_times l w w') (c, loop_state l, w) (c', loop_state l', w'))"

lemma reactor_step_refl: "reactor_inv s \<Longrightarrow> reactor_step s s"
  by (cases s) (auto simp: reactor_step_def loop_times_def intro: quiet_step)

lemma reactor_step_trans: "reactor_step s t \<Longrightarrow> reactor_step t u \<Longrightarrow> reactor_step s u"
proof -
  assume st: "reactor_step s t" and tu: "reactor_step t u"
  obtain c l w where s: "s = (c, l, w)" by (cases s)
  obtain c1 l1 w1 where t: "t = (c1, l1, w1)" by (cases t)
  obtain c2 l2 w2 where u: "u = (c2, l2, w2)" by (cases u)
  from st tu have later: "later handler_events w w1" "later handler_events w1 w2"
    and fixed: "ctx_fixed c1 = ctx_fixed c" and now: "unat (now_ms l1) \<in> loop_times l w w1"
    by (auto simp: reactor_step_def s t u)
  have times: "loop_times l w w1 \<subseteq> loop_times l w w2" "loop_times l1 w1 w2 \<subseteq> loop_times l w w2"
    using now clock_readings_mono [OF later] by (auto simp: loop_times_def)
  have "outage_refined (loop_times l w w2) (c, loop_state l, w) (c2, loop_state l2, w2)"
    using st tu times ctx_fixed_parts(1) [OF fixed] unfolding s t u reactor_step_def prod.case
    by (blast intro: outage_refined_trans outage_refined_mono)
  with st tu times show ?thesis
    unfolding s t u reactor_step_def by (auto intro: later_trans)
qed

lemma reactor_step_inv: "reactor_step s t \<Longrightarrow> reactor_inv t"
  by (cases s; cases t) (simp add: reactor_step_def)

text \<open>A handler run on the loop's state is such a step.\<close>

lemma handler_step:
  assumes "monitor_handler T f" and "f c (loop_state l) w = Some (r, c', s', w')" and "reactor_inv (c, l, v)"
    and "loop_state l' = s'" "signals l' = signals l" "packet_len l' = packet_len l"
    and "T \<subseteq> loop_times l w w'" and "unat (now_ms l') \<in> loop_times l w w'"
  shows "reactor_step (c, l, w) (c', l', w')"
  using assms monitor_handler.later [OF assms(1,2)] monitor_handler.fixed [OF assms(1,2)]
    monitor_handler.stop [OF assms(1,2)] monitor_handler.inv [OF assms(1,2)]
    outage_refined_mono [OF monitor_handler.refines [OF assms(1,2)] assms(7)]
  by (simp add: reactor_step_def reactor_inv_def)

text \<open>Reading the clock is a step; so is the wait for events, which reads it too.\<close>

lemma refresh_step:
  assumes "monitor_refresh_time (now_ms l) w = (ok, now, w')" and "reactor_inv (c, l, w)"
  shows "reactor_step (c, l, w) (c, l\<lparr>now_ms := now\<rparr>, w')"
proof -
  have l: "later {} w w'" by (rule monitor_refresh_time_later [OF assms(1)]) simp
  with assms(2) refresh_reading(1) [OF assms(1)] quiet_same [OF l] show ?thesis
    by (auto simp: reactor_step_def reactor_inv_def loop_times_def intro: later_mono)
qed

lemma poll_events_now:
  assumes "monitor_handle_poll_events channel f0 f1 now c s w = Some ((x, g0, g1, t), c', s', w')"
  shows "t = now \<or> unat t \<in> clock_readings w w'"
proof -
  obtain res h0 h1 w1 where p: "poll_fds (monitor_state_wait_timeout s now) f0 f1 w = (res, h0, h1, w1)"
    by (metis prod_cases4)
  obtain ok t1 w2 where m: "monitor_refresh_time now w1 = (ok, t1, w2)" by (metis prod_cases3)
  obtain c1 w3 where h: "(if revents h0 AND POLLIN \<noteq> 0 then monitor_handle_signal channel c w2
      else (c, w2)) = (c1, w3)" by fastforce
  have l1: "later handler_events w w1"
    by (rule later_mono [OF poll_fds_later [OF p]]) (simp add: handler_events_def)
  have l3: "later handler_events w2 w3"
    using monitor_handle_signal_effect(1) [of channel c w2 c1 w3] h
    by (auto simp: handler_events_def split: if_splits intro: later_mono)
  note run = assms [unfolded monitor_handle_poll_events_def p prod.case m h]
  have "t = now \<or> t = t1 \<and> later handler_events w2 w'"
  proof (cases "revents h1 AND POLLIN \<noteq> 0")
    case True
    with run show ?thesis
      by (auto simp: Option.bind_eq_Some_conv handler_events_def logger_later split: if_splits
          dest: drain.accumulates [OF _ l3 subset_refl, unfolded handler_events_def])
  next
    case False
    with run l3 show ?thesis by (auto simp: handler_events_def logger_later split: if_splits)
  qed
  then consider "t = now" | "t = t1" "later handler_events w2 w'" by blast
  then show ?thesis
  proof cases
    case 2
    have l2: "later handler_events w1 w2" by (rule monitor_refresh_time_later [OF m later_refl])
    have "clock_readings w1 w2 \<subseteq> clock_readings w w'"
      using clock_readings_mono(2) [OF l1 l2]
        clock_readings_mono(1) [OF later_trans [OF l1 l2] 2(2)] by blast
    with refresh_reading(1) [OF m] 2(1) show ?thesis by blast
  qed simp
qed

text \<open>The times of a loop started on a reading are readings of the whole run.\<close>

lemma loop_times_run:
  assumes "unat (now_ms l) \<in> clock_readings w w1"
    and "later K w w1" "later K w1 w2" "later K w2 w3" "later K w3 w4"
  shows "loop_times l w2 w3 \<subseteq> clock_readings w w4"
proof -
  have "later K w w2" using assms(2,3) by (rule later_trans)
  moreover have "later K w w3" using calculation assms(4) by (rule later_trans)
  moreover have "later K w1 w4" using assms(3-5) by (blast intro: later_trans)
  ultimately show ?thesis
    using assms(1) clock_readings_mono [OF assms(2), of K w4] clock_readings_mono [of K w w2 K w3]
      clock_readings_mono [of K w w3 K w4] assms(4,5)
    by (auto simp: loop_times_def)
qed

lemma reactor_body_step:
  assumes "reactor_body (ctx, loop, w) = Some (r, ctx', loop', w')" and "reactor_inv (ctx, loop, w)"
  shows "reactor_step (ctx, loop, w) (ctx', loop', w')"
    and "r \<in> {None, Some OPENUPS_EXIT_SUCCESS, Some OPENUPS_EXIT_FAILURE}"
proof -
  show "reactor_step (ctx, loop, w) (ctx', loop', w')"
    using assms(1)
  proof (cases rule: reactor_body_cases)
    case stopped
    then show ?thesis using assms(2) by (simp add: reactor_step_refl)
  next
    case (due ok now w1 x s1)
    have r: "reactor_step (ctx, loop, w) (ctx, loop\<lparr>now_ms := now\<rparr>, w1)"
      by (rule refresh_step [OF due(2) assms(2)])
    also have "reactor_step (ctx, loop\<lparr>now_ms := now\<rparr>, w1) (ctx', loop', w')"
      by (rule handler_step [OF due_work.monitor_handler_axioms [of now "packet_len loop"] _ reactor_step_inv [OF r]])
        (use due(3,5) in \<open>auto simp: loop_times_def\<close>)
    finally (reactor_step_trans) show ?thesis .
  next
    case (polled ok now w1 ctx1 s1 w2 x f0 f1 t s2)
    let ?loop1 = "loop\<lparr>now_ms := now, loop_state := s1\<rparr>"
    have r: "reactor_step (ctx, loop, w) (ctx, loop\<lparr>now_ms := now\<rparr>, w1)"
      by (rule refresh_step [OF polled(2) assms(2)])
    also have 1: "reactor_step (ctx, loop\<lparr>now_ms := now\<rparr>, w1) (ctx1, ?loop1, w2)"
      by (rule handler_step [OF due_work.monitor_handler_axioms [of now "packet_len loop"] _ reactor_step_inv [OF r]])
        (use polled(3) in \<open>simp_all add: loop_times_def\<close>)
    finally (reactor_step_trans) have "reactor_step (ctx, loop, w) (ctx1, ?loop1, w2)" .
    moreover have "reactor_step (ctx1, ?loop1, w2) (ctx', loop', w')"
      by (rule handler_step [OF poll_handler.monitor_handler_axioms _ reactor_step_inv [OF 1]])
        (use polled(4,5) poll_events_now [OF polled(4)] in \<open>auto simp: loop_times_def\<close>)
    ultimately show ?thesis by (rule reactor_step_trans)
  qed
  show "r \<in> {None, Some OPENUPS_EXIT_SUCCESS, Some OPENUPS_EXIT_FAILURE}"
    using assms(1) by (cases rule: reactor_body_cases) (auto split: monitor_step_result_t.split)
qed

lemma reactor_body_total:
  assumes "fair w"
  shows "returns (reactor_body (ctx, loop, w))"
proof -
  obtain ok now w1 where t: "monitor_refresh_time (now_ms loop) w = (ok, now, w1)" by (metis prod_cases3)
  have f: "fair w1" by (rule fair_later [OF assms monitor_refresh_time_later [OF t later_refl]])
  obtain x ctx1 s1 w2 where
    d: "monitor_run_due_work now (packet_len loop) ctx (loop_state loop) w1 = Some (x, ctx1, s1, w2)"
    using due_work.returns [OF f, of now "packet_len loop" ctx "loop_state loop"]
    by (metis not_Some_eq prod_cases4 returns_def)
  have "returns (monitor_handle_poll_events (signals loop) (fds0 loop) (fds1 loop) now ctx1 s1 w2)"
    by (rule poll_handler.returns [OF due_work.stays_fair [OF d f]])
  then show ?thesis using t d by (auto simp: reactor_body_def Let_def)
qed

lemma reactor_loop_step:
  assumes "loop_until reactor_body s = Some (code, s')" and "reactor_inv s"
  shows "reactor_step s s' \<and> code \<in> {OPENUPS_EXIT_SUCCESS, OPENUPS_EXIT_FAILURE}"
proof -
  have "reactor_inv s \<longrightarrow> reactor_step s s' \<and> code \<in> {OPENUPS_EXIT_SUCCESS, OPENUPS_EXIT_FAILURE}"
    using assms(1)
  proof (induction rule: loop_until_induct)
    case (leave s x s')
    then show ?case
      using reactor_body_step by (cases s; cases s') fastforce
  next
    case (go_on s s1 x s')
    then have "reactor_inv s \<Longrightarrow> reactor_step s s1"
      using reactor_body_step(1) by (cases s; cases s1) fastforce
    with go_on show ?case by (blast intro: reactor_step_trans dest: reactor_step_inv)
  qed
  with assms(2) show ?thesis by blast
qed

section \<open>The whole run\<close>

text \<open>A context as \<open>openups_ctx_init\<close> leaves it for the reactor.\<close>

definition ctx_ready :: "openups_ctx_t \<Rightarrow> bool" where
  "ctx_ready c \<longleftrightarrow>
     ctx_wf c \<and> length (send_buf (pinger c)) = SEND_BUF_SIZE \<and> consecutive_fails c = 0 \<and> \<not> stop_flag c"

lemma reactor_run_cases:
  assumes "openups_reactor_run ctx w = Some (code, ctx', w')"
  obtains (unstarted) loop where "monitor_loop_init ctx w = (False, ctx', loop, w')"
      "code = OPENUPS_EXIT_FAILURE"
  | (ran) loop w1 ctx1 ctx2 w2 ctx3 loop3 w3 w4 loop4 where
      "monitor_loop_init ctx w = (True, ctx1, loop, w1)"
      "monitor_log_startup ctx1 w1 = Some (ctx2, w2)"
      "loop_until reactor_body (ctx2, loop, w2) = Some (code, ctx3, loop3, w3)"
      "monitor_log_shutdown code ctx3 w3 = Some (ctx', w4)"
      "signal_channel_destroy (signals loop3) (logger ctx') w4 = (loop4, w')"
proof -
  obtain ok ctx1 loop w1 where i: "monitor_loop_init ctx w = (ok, ctx1, loop, w1)" by (metis prod_cases4)
  show thesis
  proof (cases ok)
    case False
    with assms i show thesis
      by (intro unstarted) (simp_all add: openups_reactor_run_def monitor_failure_exit_code_def)
  next
    case True
    with assms i obtain ctx2 w2 ctx3 loop3 w3 w4 where
      "monitor_log_startup ctx1 w1 = Some (ctx2, w2)"
      "loop_until reactor_body (ctx2, loop, w2) = Some (code, ctx3, loop3, w3)"
      "monitor_log_shutdown code ctx3 w3 = Some (ctx', w4)"
      "w' = snd (monitor_loop_destroy ctx' loop3 w4)"
      by (auto simp: openups_reactor_run_def Option.bind_eq_Some_conv)
    moreover obtain ch where "signal_channel_destroy (signals loop3) (logger ctx') w4 = (ch, w')"
      using calculation(4) by (auto simp: monitor_loop_destroy_def split: prod.splits)
    moreover have "monitor_loop_init ctx w = (True, ctx1, loop, w1)" using i True by simp
    ultimately show thesis using ran by blast
  qed
qed

lemma ctx_ready_start:
  assumes "ctx_ready ctx" and "ctx1 = ctx\<lparr>pinger := (pinger ctx)\<lparr>send_buf := buf\<rparr>\<rparr>" and "buffer_ready buf"
    and "only_notified (ctx1, w1) (ctx2, w2)" and "monitor_state_wf s" and "\<not> pending (shutdown s)"
  shows "monitor_inv ctx2 s" and "ctx_fixed ctx2 = ctx_fixed ctx" and "outage_abs ctx2 s = (0, None)"
    and "metrics ctx2 = metrics ctx"
proof -
  note n = only_notified_keeps [OF assms(4)]
  show fixed: "ctx_fixed ctx2 = ctx_fixed ctx" using n(1) assms(2) by (simp add: ctx_fixed_def)
  show "monitor_inv ctx2 s" "outage_abs ctx2 s = (0, None)" "metrics ctx2 = metrics ctx"
    using assms n ctx_wf_fixed [OF fixed] by (simp_all add: ctx_ready_def monitor_inv_def outage_abs_def)
qed

text \<open>The loop from a monitor without losses: its effects and the history behind them.\<close>

lemma reactor_loop_history:
  assumes "loop_until reactor_body (c, loop, w) = Some (code, c', loop', w')"
    and "monitor_inv c (loop_state loop)" and "outage_abs c (loop_state loop) = (0, None)"
    and "\<not> waiting (ping (loop_state loop))"
  obtains es where "code \<in> {OPENUPS_EXIT_SUCCESS, OPENUPS_EXIT_FAILURE}" "later handler_events w w'"
    "ctx_fixed c' = ctx_fixed c" "signals loop' = signals loop"
    "spawns w' \<le> spawns w + (if shutdown_mode (config c) = SHUTDOWN_MODE_TRUE_OFF
       then length (justified_instants (config c) es) else 0)"
    "metrics c' = fold event_metrics es (metrics c)" "outcomes es + packets w \<le> packets w'"
    "event_times es \<subseteq> loop_times loop w w'"
proof -
  have step: "reactor_step (c, loop, w) (c', loop', w')"
    and code: "code \<in> {OPENUPS_EXIT_SUCCESS, OPENUPS_EXIT_FAILURE}"
    using assms(2) reactor_loop_step [OF assms(1)] by (auto simp: reactor_inv_def)
  then obtain es where l: "later handler_events w w'" and f: "ctx_fixed c' = ctx_fixed c"
    and sig: "signals loop' = signals loop"
    and es: "refines_outage (c, loop_state loop, w) es (c', loop_state loop', w')"
      "event_times es \<subseteq> loop_times loop w w'"
    unfolding reactor_step_def outage_refined_def by auto
  obtain k where k: "outage_run (config c) es (0, None) = (outage_abs c' (loop_state loop'), k)"
    and "spawns w' \<le> spawns w + (if shutdown_mode (config c) = SHUTDOWN_MODE_TRUE_OFF then k else 0)"
    and "metrics c' = fold event_metrics es (metrics c)" "outcomes es + packets w \<le> packets w'"
    using es(1) assms(3,4) by (auto simp: refines_outage_def)
  with outage_run_justified [OF k] code l f sig es(2) show thesis
    by (intro that [of es]) (auto split: if_splits)
qed

text \<open>
  What a run promises: an exit code of the program, no descriptor left open or closed twice, the
  fixed part of the context, and a history that explains the processes and the statistics.
\<close>

definition run_promise ::
    "openups_ctx_t \<Rightarrow> world \<Rightarrow> int \<Rightarrow> openups_ctx_t \<Rightarrow> world \<Rightarrow> bool" where
  "run_promise ctx w code ctx' w' \<longleftrightarrow>
     code \<in> {OPENUPS_EXIT_SUCCESS, OPENUPS_EXIT_FAILURE} \<and> (\<forall>fd. held fd w' = held fd w) \<and>
     ctx_fixed ctx' = ctx_fixed ctx \<and> later (- {Cls_socket}) w w' \<and>
     (\<exists>es. spawns w' \<le> spawns w + (if shutdown_mode (config ctx) = SHUTDOWN_MODE_TRUE_OFF
         then length (justified_instants (config ctx) es) else 0) \<and>
       metrics ctx' = fold event_metrics es (metrics ctx) \<and> outcomes es + packets w \<le> packets w' \<and>
       event_times es \<subseteq> clock_readings w w')"

lemma reactor_ran_sound:
  assumes init: "monitor_loop_init ctx w = (True, ctx1, loop, w1)"
    and startup: "monitor_log_startup ctx1 w1 = Some (ctx2, w2)"
    and iterate: "loop_until reactor_body (ctx2, loop, w2) = Some (code, ctx3, loop3, w3)"
    and leave: "monitor_log_shutdown code ctx3 w3 = Some (ctx', w4)"
    and close: "signal_channel_destroy (signals loop3) (logger ctx') w4 = (loop4, w')"
    and ready: "ctx_ready ctx"
  shows "run_promise ctx w code ctx' w'"
proof -
  have buf: "length (send_buf (pinger ctx)) = 256"
    using ready by (simp add: ctx_ready_def SEND_BUF_SIZE_def)
  note i = monitor_loop_init_effect [OF init buf]
  from i(3) obtain buf' where c1: "ctx1 = ctx\<lparr>pinger := (pinger ctx)\<lparr>send_buf := buf'\<rparr>\<rparr>"
    and b: "buffer_ready buf'" by auto
  note up = monitor_log_startup_effect [OF startup] and down = monitor_log_shutdown_effect [OF leave]
  note u = only_notified_keeps [OF up] and d = only_notified_keeps [OF down]
  note x = signal_channel_destroy_effect [OF close]
  from i(4) have st: "monitor_state_wf (loop_state loop)" "\<not> pending (shutdown (loop_state loop))"
    "\<not> waiting (ping (loop_state loop))" by auto
  note s = ctx_ready_start [OF ready c1 b up st(1,2)]
  have cfg: "config ctx2 = config ctx" by (rule ctx_fixed_parts(1) [OF s(2)])
  obtain es where code: "code \<in> {OPENUPS_EXIT_SUCCESS, OPENUPS_EXIT_FAILURE}"
    and l3: "later handler_events w2 w3" and f3: "ctx_fixed ctx3 = ctx_fixed ctx2"
    and sig: "signals loop3 = signals loop"
    and es: "spawns w3 \<le> spawns w2 + (if shutdown_mode (config ctx) = SHUTDOWN_MODE_TRUE_OFF
         then length (justified_instants (config ctx) es) else 0)"
      "metrics ctx3 = fold event_metrics es (metrics ctx2)" "outcomes es + packets w2 \<le> packets w3"
      "event_times es \<subseteq> loop_times loop w2 w3"
    using reactor_loop_history [OF iterate s(1,3) st(3)] unfolding cfg by blast
  have fixed: "ctx_fixed ctx' = ctx_fixed ctx" using d(1) f3 s(2) by simp
  have held: "held fd w' = held fd w" for fd
    using i(2) [of fd] i(4) u(7) [of fd] d(7) [of fd] x(2) [of fd] sig held_later [OF l3]
    by (simp add: handler_events_def)
  have l: "later (- {Cls_socket}) w w1" "later (- {Cls_socket}) w1 w2"
    "later (- {Cls_socket}) w2 w3" "later (- {Cls_socket}) w3 w'"
    using i(1) u(6) l3 later_trans [OF later_mono [OF d(6)] later_mono [OF x(1)]]
    by (auto simp: handler_events_def elim!: later_mono)
  have "later (- {Cls_socket}) w w'"
    by (rule later_trans [OF later_trans [OF later_trans [OF l(1,2)] l(3)] l(4)])
  moreover have "event_times es \<subseteq> clock_readings w w'"
    using es(4) loop_times_run [OF monitor_loop_init_now [OF init] l] by blast
  moreover have "spawns w1 = spawns w" "packets w1 = packets w"
    by (rule spawns_later [OF i(1)] packets_later [OF i(1)], simp)+
  moreover have "spawns w' = spawns w4" "packets w' = packets w4"
    by (rule spawns_later [OF x(1)] packets_later [OF x(1)], simp)+
  ultimately show ?thesis
    using s(4) u(8,9) d(3,8,9) code fixed held es(1-3) unfolding run_promise_def
    by (intro conjI exI [of _ es]) simp_all
qed

lemma reactor_run_promise:
  assumes "openups_reactor_run ctx w = Some (code, ctx', w')" and "ctx_ready ctx"
  shows "run_promise ctx w code ctx' w'"
  using assms(1)
proof (cases rule: reactor_run_cases)
  case (unstarted loop)
  have buf: "length (send_buf (pinger ctx)) = 256"
    using assms(2) by (simp add: ctx_ready_def SEND_BUF_SIZE_def)
  note e = monitor_loop_init_effect [OF unstarted(1) buf]
  have "spawns w' = spawns w" "packets w' = packets w"
    by (rule spawns_later [OF e(1)] packets_later [OF e(1)], simp)+
  with e(1-3) unstarted(2) show ?thesis
    by (auto simp: run_promise_def ctx_fixed_def intro: later_mono intro!: exI [of _ "[]"])
qed (rule reactor_ran_sound [OF _ _ _ _ _ assms(2)])

lemma reactor_run_sound:
  assumes "openups_reactor_run ctx w = Some (code, ctx', w')" and "ctx_ready ctx"
  shows "code \<in> {OPENUPS_EXIT_SUCCESS, OPENUPS_EXIT_FAILURE}" and "held fd w' = held fd w"
    and "ctx_fixed ctx' = ctx_fixed ctx" and "later (- {Cls_socket}) w w'"
    and "\<exists>es. spawns w' \<le> spawns w + (if shutdown_mode (config ctx) = SHUTDOWN_MODE_TRUE_OFF
        then length (justified_instants (config ctx) es) else 0) \<and>
      metrics ctx' = fold event_metrics es (metrics ctx) \<and> outcomes es + packets w \<le> packets w' \<and>
      event_times es \<subseteq> clock_readings w w'"
  using reactor_run_promise [OF assms] unfolding run_promise_def by blast+

section \<open>Stop signals\<close>

text \<open>An answer of \<open>poll\<close> that reports a signal, and no error.\<close>

definition stop_ready :: "poll_answer \<Rightarrow> bool" where
  "stop_ready a \<longleftrightarrow>
     (case poll_ret a of Inl e \<Rightarrow> False | Inr n \<Rightarrow> True) \<and>
     \<not> pollfd_has_error (poll_signal_revents a) \<and> \<not> pollfd_has_error (poll_icmp_revents a) \<and>
     poll_signal_revents a AND POLLIN \<noteq> 0"

lemma refresh_keeps_signals: "monitor_refresh_time now w = (ok, t, w') \<Longrightarrow> sigread_in w' = sigread_in w"
  by (auto simp: monitor_refresh_time_def get_monotonic_ms_def sys_clock_gettime_def Let_def
      split: prod.splits option.splits if_splits)

lemma poll_events_stop:
  assumes "monitor_handle_poll_events channel f0 f1 now ctx s w = Some (x, ctx', s', w')"
    and "0 \<le> sig_fd channel" and "stop_ready (shd (poll_in w))"
    and "shd (sigread_in w) \<in> {Some SIGINT, Some SIGTERM}"
  shows "stop_flag ctx'"
proof -
  obtain res g0 g1 w1 where p: "poll_fds (monitor_state_wait_timeout s now) f0 f1 w = (res, g0, g1, w1)"
    by (metis prod_cases4)
  obtain ok t w2 where m: "monitor_refresh_time now w1 = (ok, t, w2)" by (metis prod_cases3)
  from p assms(3) have r: "\<not> pollfd_has_error (revents g0)" "\<not> pollfd_has_error (revents g1)"
    "revents g0 AND POLLIN \<noteq> 0" "\<exists>n. res = Inr n" "sigread_in w1 = sigread_in w"
    by (auto simp: poll_fds_def sys_poll_def emit_def stop_ready_def split: sum.splits) metis
  obtain c1 w3 where h: "monitor_handle_signal channel ctx w2 = (c1, w3)" by fastforce
  have "sigread_in w2 = sigread_in w" using refresh_keeps_signals [OF m] r(5) by simp
  with monitor_handle_signal_stops [OF assms(2), of w2 ctx] assms(4) h have c1: "stop_flag c1" by simp
  note run = assms(1) [unfolded monitor_handle_poll_events_def p prod.case m]
  show ?thesis
  proof (cases "revents g1 AND POLLIN \<noteq> 0")
    case True
    with run r h obtain q s1 w4 where "monitor_drain_icmp_replies t c1 s w3 = Some (q, ctx', s1, w4)"
      by (auto simp: Option.bind_eq_Some_conv split: if_splits)
    from drain.stop [OF this c1] show ?thesis .
  next
    case False
    with run r h c1 show ?thesis by auto
  qed
qed

text \<open>
  C14: when \<open>poll\<close> reports a signal without errors and the signal that is read is
  \<open>SIGINT\<close> or \<open>SIGTERM\<close>, the stop flag is set, whatever packets arrived in the same iteration;
  and with the flag set the next iteration leaves the loop with success, before anything else.
\<close>

theorem stop_signal_honoured:
  assumes "monitor_handle_poll_events channel f0 f1 now ctx s w = Some (x, ctx', s', w')"
    and "0 \<le> sig_fd channel" and "stop_ready (shd (poll_in w))"
    and "shd (sigread_in w) \<in> {Some SIGINT, Some SIGTERM}"
  shows "stop_flag ctx' \<and>
    reactor_body (ctx', loop, v) = Some (Some OPENUPS_EXIT_SUCCESS, ctx', loop, v)"
  using poll_events_stop [OF assms] by (simp add: reactor_body_def)

definition signalled_world :: world where
  "signalled_world = sample_world
     \<lparr>poll_in := sconst \<lparr>poll_ret = Inr 1, poll_signal_revents = POLLIN, poll_icmp_revents = 0\<rparr>,
      sigread_in := sconst (Some SIGTERM)\<rparr>"

lemma signalled_world_facts:
  "fair signalled_world" "stop_ready (poll_in signalled_world !! n)"
  "sigread_in signalled_world !! n \<in> {Some SIGINT, Some SIGTERM}"
  using sample_world_fair
  by (simp_all add: signalled_world_def fair_def stop_ready_def pollfd_has_error_def poll_defs)

theorem stop_signal_honoured_witness:
  "\<exists>x ctx' s' w'.
     monitor_handle_poll_events \<lparr>sig_fd = 6, previous_mask_valid = True\<rparr> (fds0 loop_zero) (fds1 loop_zero) 0
       sample_monitor sample_waiting signalled_world = Some (x, ctx', s', w') \<and> stop_flag ctx'"
proof -
  obtain x ctx' s' w' where
    p: "monitor_handle_poll_events \<lparr>sig_fd = 6, previous_mask_valid = True\<rparr> (fds0 loop_zero) (fds1 loop_zero) 0
       sample_monitor sample_waiting signalled_world = Some (x, ctx', s', w')"
    using poll_handler.returns [OF signalled_world_facts(1)] by (fastforce simp: returns_def)
  from stop_signal_honoured [OF p _ signalled_world_facts(2,3) [of 0, unfolded snth.simps]]
  have "stop_flag ctx'" by simp
  with p show ?thesis by blast
qed

lemma later_snth:
  assumes "later K w w'"
  shows "\<exists>k. \<forall>n. poll_in w' !! n = poll_in w !! (k + n)"
    and "\<exists>k. \<forall>n. sigread_in w' !! n = sigread_in w !! (k + n)"
  using later_streams [OF assms] by (auto simp: streams_later_def tail_of_def sdrop_snth)

definition stop_pending :: "world \<Rightarrow> bool" where
  "stop_pending w \<longleftrightarrow>
     (\<forall>n. stop_ready (poll_in w !! n) \<and> sigread_in w !! n \<in> {Some SIGINT, Some SIGTERM})"

lemma stop_pending_later: "stop_pending w \<Longrightarrow> later K w w' \<Longrightarrow> stop_pending w'"
  using later_snth [of K w w'] unfolding stop_pending_def by metis

lemma stop_pending_body:
  assumes "fair w" and "stop_pending w" and "0 \<le> sig_fd (signals loop)"
  shows "returns (loop_until reactor_body (ctx, loop, w))"
proof -
  obtain r ctx1 loop1 w1 where b: "reactor_body (ctx, loop, w) = Some (r, ctx1, loop1, w1)"
    using reactor_body_total [OF assms(1), of ctx loop] by (fastforce simp: returns_def)
  show ?thesis
  proof (cases r)
    case (Some code)
    with b show ?thesis by (subst loop_until.simps) simp
  next
    case None
    from b have "stop_flag ctx1"
    proof (cases rule: reactor_body_cases)
      case (polled ok now v ctx2 s1 w2 x f0 f1 t s2)
      have "later {} w v" by (rule monitor_refresh_time_later [OF polled(2)]) simp
      then have "stop_pending w2"
        using stop_pending_later [OF stop_pending_later [OF assms(2)] due_work.later [OF polled(3)]] by blast
      then have "stop_ready (shd (poll_in w2))" "shd (sigread_in w2) \<in> {Some SIGINT, Some SIGTERM}"
        unfolding stop_pending_def by (metis snth.simps(1))+
      with poll_events_stop [OF polled(4) assms(3)] show ?thesis by simp
    qed (simp_all add: None)
    then have "loop_until reactor_body (ctx1, loop1, w1) = Some (OPENUPS_EXIT_SUCCESS, ctx1, loop1, w1)"
      by (subst loop_until.simps) (simp add: reactor_body_def)
    with b None show ?thesis by (subst loop_until.simps) simp
  qed
qed

lemma stop_pending_run:
  assumes "fair w" and "stop_pending w" and "ctx_ready ctx"
  shows "returns (openups_reactor_run ctx w)"
proof -
  have buf: "length (send_buf (pinger ctx)) = 256"
    using assms(3) by (simp add: ctx_ready_def SEND_BUF_SIZE_def)
  obtain ok ctx1 loop w1 where i: "monitor_loop_init ctx w = (ok, ctx1, loop, w1)" by (metis prod_cases4)
  note e = monitor_loop_init_effect [OF i buf]
  show ?thesis
  proof (cases ok)
    case False
    with i show ?thesis by (simp add: openups_reactor_run_def)
  next
    case True
    have f1: "fair w1" by (rule fair_later [OF assms(1) e(1)])
    obtain ctx2 w2 where u: "monitor_log_startup ctx1 w1 = Some (ctx2, w2)"
      using monitor_log_startup_total [OF f1] by (rule returnsE)
    note n = only_notified_keeps(6) [OF monitor_log_startup_effect [OF u]]
    have f2: "fair w2" by (rule fair_later [OF f1 n])
    obtain code ctx3 loop3 w3 where l: "loop_until reactor_body (ctx2, loop, w2) = Some (code, ctx3, loop3, w3)"
      using stop_pending_body [OF f2 stop_pending_later [OF stop_pending_later [OF assms(2) e(1)] n]] e(4) True
      by (fastforce simp: returns_def)
    obtain buf' where "ctx1 = ctx\<lparr>pinger := (pinger ctx)\<lparr>send_buf := buf'\<rparr>\<rparr>" "buffer_ready buf'"
      using e(3) True by blast
    from ctx_ready_start(1) [OF assms(3) this monitor_log_startup_effect [OF u]] e(4) True
    have "reactor_inv (ctx2, loop, w2)" by (simp add: reactor_inv_def)
    from reactor_loop_step [OF l this] have "later handler_events w2 w3" by (simp add: reactor_step_def)
    then have "fair w3" by (rule fair_later [OF f2])
    with i True u l show ?thesis by (auto simp: openups_reactor_run_def total)
  qed
qed

text \<open>
  In a fair world in which a stop signal is pending (every \<open>poll\<close> reports a signal, and
  what is read is \<open>SIGINT\<close> or \<open>SIGTERM\<close>), the monitor returns, with exit code 0 or 1.
\<close>

theorem stop_signal_ends_run:
  assumes "fair w" and "stop_pending w" and "ctx_ready ctx"
  shows "\<exists>code ctx' w'. openups_reactor_run ctx w = Some (code, ctx', w') \<and> code \<in> {0, 1}"
proof -
  obtain code ctx' w' where r: "openups_reactor_run ctx w = Some (code, ctx', w')"
    using stop_pending_run [OF assms] by (fastforce simp: returns_def)
  with reactor_run_sound(1) [OF r assms(3)] show ?thesis
    by (simp add: OPENUPS_EXIT_SUCCESS_def OPENUPS_EXIT_FAILURE_def)
qed

definition ready_ctx :: openups_ctx_t where
  "ready_ctx = sample_ctx\<lparr>consecutive_fails := 0\<rparr>"

lemma ready_ctx_ready: "ctx_ready ready_ctx"
  by (simp add: ctx_ready_def ready_ctx_def sample_ctx_def sample_config_def ctx_wf_def int_fields_fit_def
      INT_MAX_def services_wf_def sample_pinger_def sample_dest_def SEND_BUF_SIZE_def)

lemma signalled_world_pending: "stop_pending signalled_world"
  unfolding stop_pending_def using signalled_world_facts(2,3) by blast

theorem stop_signal_ends_run_witness:
  "\<exists>code ctx' w'. openups_reactor_run ready_ctx signalled_world = Some (code, ctx', w') \<and> code \<in> {0, 1}"
  by (rule stop_signal_ends_run [OF signalled_world_facts(1) signalled_world_pending ready_ctx_ready])

section \<open>What the reactor guarantees\<close>

text \<open>
  C5: an iteration of the reactor returns in a fair world. It keeps the invariant of the
  monitor, the configuration, the descriptors and the packet size, opens and closes nothing, never
  takes a stop request back, and goes on or leaves the loop with exit code 0 or 1. It refines a run
  of the outage machine whose times are the one the loop held and readings of the clock.
\<close>

theorem iteration_keeps_promises:
  assumes "fair w" and "monitor_inv ctx (loop_state loop)"
  shows "\<exists>r ctx' loop' w' es. reactor_body (ctx, loop, w) = Some (r, ctx', loop', w') \<and>
    r \<in> {None, Some 0, Some 1} \<and> monitor_inv ctx' (loop_state loop') \<and> ctx_fixed ctx' = ctx_fixed ctx \<and>
    signals loop' = signals loop \<and> packet_len loop' = packet_len loop \<and> held fd w' = held fd w \<and>
    (stop_flag ctx \<longrightarrow> stop_flag ctx') \<and> fair w' \<and>
    refines_outage (ctx, loop_state loop, w) es (ctx', loop_state loop', w') \<and>
    event_times es \<union> {unat (now_ms loop')} \<subseteq> {unat (now_ms loop)} \<union> clock_readings w w'"
proof -
  obtain r ctx' loop' w' where b: "reactor_body (ctx, loop, w) = Some (r, ctx', loop', w')"
    using reactor_body_total [OF assms(1), of ctx loop] by (fastforce simp: returns_def)
  have inv: "reactor_inv (ctx, loop, w)" using assms(2) by (simp add: reactor_inv_def)
  from reactor_body_step [OF b inv] have s: "reactor_step (ctx, loop, w) (ctx', loop', w')"
    and r: "r \<in> {None, Some OPENUPS_EXIT_SUCCESS, Some OPENUPS_EXIT_FAILURE}" by blast+
  then have l: "later handler_events w w'" by (simp add: reactor_step_def)
  have "held fd w' = held fd w" by (rule held_later [OF l]) (simp add: handler_events_def)
  moreover have "fair w'" by (rule fair_later [OF assms(1) l])
  ultimately show ?thesis
    using b s r unfolding reactor_step_def reactor_inv_def outage_refined_def loop_times_def
    by (simp add: OPENUPS_EXIT_SUCCESS_def OPENUPS_EXIT_FAILURE_def) blast
qed

theorem iteration_keeps_promises_witness:
  "\<exists>r ctx' loop' w'. reactor_body (sample_monitor, loop_zero\<lparr>loop_state := sample_waiting\<rparr>, sample_world)
     = Some (r, ctx', loop', w') \<and> held 5 w' = held 5 sample_world"
proof -
  have "monitor_inv sample_monitor (loop_state (loop_zero\<lparr>loop_state := sample_waiting\<rparr>))"
    using sample_monitor_inv by simp
  from iteration_keeps_promises [OF sample_world_fair this, of 5] show ?thesis by blast
qed



text \<open>
  C17: a run that returns has closed exactly what it opened, whichever way it ended, has
  opened no network connection of its own, has kept the configuration, the destination, the
  sockets and the service table of the context, and ends with exit code 0 or 1.
\<close>

theorem run_releases_descriptors:
  assumes "openups_reactor_run ctx w = Some (code, ctx', w')" and "ctx_ready ctx"
  shows "held fd w' = held fd w \<and> events Cls_socket w' = events Cls_socket w \<and>
    ctx_fixed ctx' = ctx_fixed ctx \<and> code \<in> {0, 1}"
  using reactor_run_sound(1,3) [OF assms] reactor_run_sound(2) [OF assms, of fd] later_events [OF reactor_run_sound(4) [OF assms], of Cls_socket]
  by (simp add: OPENUPS_EXIT_SUCCESS_def OPENUPS_EXIT_FAILURE_def)

theorem run_releases_descriptors_witness:
  "\<exists>code ctx' w'. openups_reactor_run ready_ctx signalled_world = Some (code, ctx', w') \<and>
     held 6 w' = held 6 signalled_world"
proof -
  obtain code ctx' w' where r: "openups_reactor_run ready_ctx signalled_world = Some (code, ctx', w')"
    using stop_pending_run [OF signalled_world_facts(1) signalled_world_pending ready_ctx_ready]
    by (fastforce simp: returns_def)
  from run_releases_descriptors [OF r ready_ctx_ready] r show ?thesis by blast
qed

end
