(* ===== verification/MainProg.thy ===== *)
theory MainProg
  imports ReactorRun
begin

text \<open>
  The program of \<open>src/src/main.c\<close>: resolving the configuration, creating the context, running the
  reactor, and destroying the context. A run of the program is a function of its arguments and the
  world to the exit code and the world it leaves, \<open>None\<close> if it does not return.
\<close>

section \<open>The program\<close>

definition main_program :: "string list \<Rightarrow> world \<Rightarrow> (int \<times> world) option" where
  "main_program argv w =
     (case config_resolve argv w of
        (Inl err, w1) \<Rightarrow>
          Some (1, logger_write LOG_LEVEL_ERROR False (''OpenUPS failed: '' @ err) w1)
      | (Inr (cfg, exit_requested), w1) \<Rightarrow>
          if exit_requested then Some (0, w1)
          else do {
            (failure, ctx, w2) \<leftarrow> openups_ctx_init cfg w1;
            case failure of
              Some err \<Rightarrow>
                Some (1, logger_write LOG_LEVEL_ERROR (config_log_timestamps_enabled cfg)
                  (''OpenUPS failed: '' @ err) w2)
            | None \<Rightarrow> do {
                (rc, ctx1, w3) \<leftarrow> openups_reactor_run ctx w2;
                let w4 = (if rc \<noteq> 0
                          then logger_error (logger ctx1) (''OpenUPS exited with code '' @ show_int rc) w3
                          else w3);
                Some (rc, snd (openups_ctx_destroy ctx1 w4)) } })"

section \<open>Creating the context\<close>

lemma config_print_later [frame]:
  "later K w0 w \<Longrightarrow> Cls_text \<in> K \<Longrightarrow> later K w0 (config_print cfg lg w)"
  by (simp add: config_print_def logger_later)

lemma resolve_target_ok:
  "resolve_target h tgt = Inr (addr, len) \<Longrightarrow> ss_family addr \<in> {AF_INET, AF_INET6}"
  "resolve_target h tgt = Inl e \<Longrightarrow> length e < 256"
  using snprintf_buf_length [of ERROR_MSG_SIZE "''Invalid IPv4/IPv6 address (DNS disabled): '' @ tgt"]
  by (auto simp: resolve_target_def Let_def ERROR_MSG_SIZE_def split: option.splits)

lemma pinger_init_error: "icmp_pinger_init p fam w = (Some e, p', w') \<Longrightarrow> length e < 256"
  by (auto simp: icmp_pinger_init_def Let_def ERROR_MSG_SIZE_def snprintf_buf_def split: prod.splits sum.splits)

lemma ctx_init_cases:
  assumes "openups_ctx_init cfg w = Some (failure, ctx, w')"
  obtains (unresolved) e where "failure = Some e" "length e < 256" "later {Cls_text} w w'"
      "resolve_target (host w) (target cfg) = Inl e"
  | (no_socket) e w1 fam p p' where "failure = Some e" "later {Cls_text} w w1"
      "icmp_pinger_init p fam w1 = (Some e, p', w')"
  | (created) w1 addr len p' w2 w3 w4 m where "failure = None" "later {Cls_text} w w1"
      "resolve_target (host w1) (target cfg) = Inr (addr, len)"
      "icmp_pinger_init (pinger ctx_zero) (ss_family addr) w1 = (None, p', w2)"
      "metrics_init w2 = (m, w3)"
      "runtime_services_init (systemd ctx_zero) (enable_systemd cfg) w3
         = Some (services ctx, systemd ctx, w4)"
      "later {Cls_text} w4 w'" "config ctx = cfg" "dest_addr ctx = addr" "dest_addr_len ctx = len"
      "pinger ctx = p'" "metrics ctx = m" "consecutive_fails ctx = 0" "\<not> stop_flag ctx"
      "cached_pid ctx \<noteq> 0"
proof -
  define pid where "pid = (word_of_int (getpid (host w) AND 0xFFFF) :: u16)"
  define lg where "lg = logger_init (log_level cfg) (config_log_timestamps_enabled cfg)"
  define ctx0 where "ctx0 = ctx_zero\<lparr>config := cfg, cached_pid := (if pid = 0 then 1 else pid),
    logger := lg, dest_addr_len := 128\<rparr>"
  define w1 where "w1 = (if log_level cfg = LOG_LEVEL_DEBUG then config_print cfg lg w else w)"
  have l1: "later {Cls_text} w w1" by (simp add: w1_def config_print_later)
  note run = assms [unfolded openups_ctx_init_def Let_def, folded pid_def lg_def, folded w1_def, folded ctx0_def]
  show thesis
  proof (cases "resolve_target (host w1) (target cfg)")
    case (Inl e)
    with run l1 later_host [OF l1] show thesis
      by (intro unresolved) (auto dest: resolve_target_ok(2))
  next
    case (Inr r)
    obtain addr len where r: "r = (addr, len)" by fastforce
    obtain err p' w2 where i: "icmp_pinger_init (pinger ctx_zero) (ss_family addr) w1 = (err, p', w2)"
      by (metis prod_cases3)
    show thesis
    proof (cases err)
      case (Some e)
      with run Inr r i l1 show thesis
        by (intro no_socket [of e w1 "pinger ctx_zero" "ss_family addr" p']) (simp_all add: ctx0_def)
    next
      case None
      obtain m w3 where m: "metrics_init w2 = (m, w3)" by fastforce
      from run Inr r i None m obtain sv sd w4 where
        s: "runtime_services_init (systemd ctx_zero) (enable_systemd cfg) w3 = Some (sv, sd, w4)"
        and c: "failure = None" "ctx = ctx0\<lparr>dest_addr := addr, dest_addr_len := len, pinger := p',
              metrics := m, services := sv, systemd := sd\<rparr>" "later {Cls_text} w4 w'"
        by (auto simp: ctx0_def Option.bind_eq_Some_conv logger_later split: if_splits)
      show thesis
        by (rule created [OF c(1) l1 _ i [unfolded None] m _ c(3)])
          (use Inr r s in \<open>simp_all add: c(2) ctx0_def ctx_zero_def\<close>)
    qed
  qed
qed

text \<open>The descriptors a context holds: the socket of its pinger and that of its notifier.\<close>

definition ctx_fds :: "openups_ctx_t \<Rightarrow> int \<Rightarrow> int" where
  "ctx_fds c fd = (if 0 \<le> sockfd (pinger c) \<and> sockfd (pinger c) = fd then 1 else 0) + services_fds (systemd c) fd"

lemma ctx_fds_fixed: "ctx_fixed c' = ctx_fixed c \<Longrightarrow> ctx_fds c' = ctx_fds c"
  by (rule ext) (simp add: ctx_fds_def services_fds_def ctx_fixed_def)

lemma ctx_init_effect:
  assumes "openups_ctx_init cfg w = Some (failure, ctx, w')" and "int_fields_fit cfg"
  shows "later {Cls_text, Cls_fd, Cls_socket} w w'"
    and "case failure of
      Some e \<Rightarrow> length e < 256 \<and> held fd w' = held fd w
    | None \<Rightarrow> ctx_ready ctx \<and> config ctx = cfg \<and> held fd w' = held fd w + ctx_fds ctx fd \<and>
        total_pings (metrics ctx) = 0 \<and> cached_pid ctx \<noteq> 0"
proof -
  let ?K = "{Cls_text, Cls_fd, Cls_socket}"
  have quiet: "held fd v' = held fd v" if "later {Cls_text} v v'" for v v'
    using that by (rule held_later) simp
  have "later ?K w w' \<and> (case failure of
      Some e \<Rightarrow> length e < 256 \<and> held fd w' = held fd w
    | None \<Rightarrow> ctx_ready ctx \<and> config ctx = cfg \<and> held fd w' = held fd w + ctx_fds ctx fd \<and>
        total_pings (metrics ctx) = 0 \<and> cached_pid ctx \<noteq> 0)"
    using assms(1)
  proof (cases rule: ctx_init_cases)
    case (unresolved e)
    then show ?thesis using quiet [OF unresolved(3)] by (auto intro: later_mono)
  next
    case (no_socket e w1 fam p p')
    have "later ?K w w1" by (rule later_mono [OF no_socket(2)]) simp
    from pinger_init_later [OF no_socket(3) this] pinger_init_held [OF no_socket(3), of fd]
      pinger_init_error [OF no_socket(3)] quiet [OF no_socket(2)] no_socket(1)
    show ?thesis by simp
  next
    case (created w1 addr len p' w2 w3 w4 m)
    note h = pinger_init_held [OF created(4), of fd]
    have off: "\<not> sn_enabled (systemd ctx_zero)" by (simp add: ctx_zero_def)
    note s = runtime_services_init_wf [OF created(6) off]
    have l3: "later {} w2 w3" by (rule metrics_init_later [OF created(5)]) simp
    have "later ?K w w1" by (rule later_mono [OF created(2)]) simp
    then have "later ?K w w2" by (rule pinger_init_later [OF created(4)]) simp
    then have "later ?K w w3" by (rule later_trans [OF _ later_mono [OF l3]]) simp
    then have "later ?K w w4" by (rule runtime_services_init_later [OF created(6)]) simp
    then have "later ?K w w'" by (rule later_trans [OF _ later_mono [OF created(7)]]) simp
    moreover have "held fd w' = held fd w + ctx_fds ctx fd"
      using quiet [OF created(2)] h held_later [OF l3, of fd] s(2) [of fd] quiet [OF created(7)] created(11)
      by (simp add: ctx_fds_def)
    moreover have "ctx_ready ctx"
      using h s(1) assms(2) created resolve_target_ok(1) [OF created(3)]
      by (simp add: ctx_ready_def ctx_wf_def ctx_zero_def)
    moreover have "total_pings m = 0"
      using created(5) by (auto simp: metrics_init_def split: prod.splits)
    then have "total_pings (metrics ctx) = 0" by (simp add: created(12))
    ultimately show ?thesis using created by simp
  qed
  then show "later ?K w w'" and "case failure of
      Some e \<Rightarrow> length e < 256 \<and> held fd w' = held fd w
    | None \<Rightarrow> ctx_ready ctx \<and> config ctx = cfg \<and> held fd w' = held fd w + ctx_fds ctx fd \<and>
        total_pings (metrics ctx) = 0 \<and> cached_pid ctx \<noteq> 0" by blast+
qed

lemma ctx_init_total: "fair w \<Longrightarrow> returns (openups_ctx_init cfg w)"
proof -
  assume f: "fair w"
  define lg where "lg = logger_init (log_level cfg) (config_log_timestamps_enabled cfg)"
  define w1 where "w1 = (if log_level cfg = LOG_LEVEL_DEBUG then config_print cfg lg w else w)"
  have "later {Cls_text} w w1" by (simp add: w1_def config_print_later)
  then have f1: "fair w1" by (rule fair_later [OF f])
  show ?thesis
    unfolding openups_ctx_init_def Let_def lg_def [symmetric] w1_def [symmetric]
    using f1 by (auto split: sum.split prod.split option.split intro!: runtime_services_init_total
        dest: icmp_fair(3) fair_later [OF _ metrics_init_later [OF _ later_refl]])
qed

lemma ctx_destroy_effect:
  assumes "openups_ctx_destroy ctx w = (ctx', w')" and "ctx_wf ctx"
  shows "later {Cls_fd} w w'" and "held fd w' = held fd w - ctx_fds ctx fd"
proof -
  obtain sv sd w1 where d: "runtime_services_destroy (services ctx) (systemd ctx) w = (sv, sd, w1)"
    by (metis prod_cases3)
  obtain p where p: "icmp_pinger_destroy (pinger ctx) w1 = (p, w')"
    using assms(1) d by (auto simp: openups_ctx_destroy_def split: prod.splits)
  have "later {Cls_fd} w w1" by (rule runtime_services_destroy_later [OF d]) simp_all
  then show "later {Cls_fd} w w'" by (rule pinger_destroy_later [OF p]) simp
  have wf: "services_wf (services ctx) (systemd ctx)" using assms(2) by (simp add: ctx_wf_def)
  show "held fd w' = held fd w - ctx_fds ctx fd"
    using runtime_services_destroy_wf(3) [OF wf d, of fd] pinger_destroy_held [OF p, of fd]
    by (simp add: ctx_fds_def)
qed

section \<open>The phases of a run\<close>

lemma main_program_cases:
  assumes "main_program argv w = Some (rc, w')"
  obtains (bad_config) err w1 where "config_resolve argv w = (Inl err, w1)" "rc = 1"
      "w' = logger_write LOG_LEVEL_ERROR False (''OpenUPS failed: '' @ err) w1"
  | (info) cfg where "config_resolve argv w = (Inr (cfg, True), w')" "rc = 0"
  | (no_context) cfg w1 err ctx w2 where "config_resolve argv w = (Inr (cfg, False), w1)"
      "openups_ctx_init cfg w1 = Some (Some err, ctx, w2)" "rc = 1"
      "w' = logger_write LOG_LEVEL_ERROR (config_log_timestamps_enabled cfg) (''OpenUPS failed: '' @ err) w2"
  | (ran) cfg w1 ctx w2 ctx1 w3 w4 where "config_resolve argv w = (Inr (cfg, False), w1)"
      "openups_ctx_init cfg w1 = Some (None, ctx, w2)"
      "openups_reactor_run ctx w2 = Some (rc, ctx1, w3)" "later {Cls_text} w3 w4"
      "w' = snd (openups_ctx_destroy ctx1 w4)"
proof -
  obtain res w1 where r: "config_resolve argv w = (res, w1)" by fastforce
  show thesis
  proof (cases res)
    case (Inl err)
    with assms r show thesis by (intro bad_config) (auto simp: main_program_def)
  next
    case (Inr x)
    obtain cfg ex where x: "x = (cfg, ex)" by fastforce
    show thesis
    proof (cases ex)
      case True
      with assms r Inr x show thesis by (intro info) (auto simp: main_program_def)
    next
      case False
      with assms r Inr x obtain failure ctx w2 where i: "openups_ctx_init cfg w1 = Some (failure, ctx, w2)"
        by (auto simp: main_program_def Option.bind_eq_Some_conv)
      show thesis
      proof (cases failure)
        case (Some err)
        with assms r Inr x False i show thesis by (intro no_context) (auto simp: main_program_def)
      next
        case None
        with assms r Inr x False i obtain ctx1 w3 where
          run: "openups_reactor_run ctx w2 = Some (rc, ctx1, w3)"
          and w': "w' = snd (openups_ctx_destroy ctx1 (if rc \<noteq> 0
              then logger_error (logger ctx1) (''OpenUPS exited with code '' @ show_int rc) w3 else w3))"
          by (auto simp: main_program_def Let_def Option.bind_eq_Some_conv)
        show thesis
          by (rule ran [OF _ _ run _ w']) (use r Inr x i None False in \<open>simp_all add: logger_later\<close>)
      qed
    qed
  qed
qed

section \<open>What the program guarantees\<close>

text \<open>
  C18: creating a context from a configuration of C integers fails with a message that fits the
  caller's buffer and leaves no descriptor open, or yields a context ready for the reactor, with
  this configuration, a nonzero identifier and empty statistics, that holds exactly the
  descriptors that were opened; destroying that context closes exactly these.
\<close>

theorem context_creation:
  assumes "openups_ctx_init cfg w = Some (failure, ctx, w1)" and "int_fields_fit cfg"
    and "openups_ctx_destroy ctx w1 = (ctx2, w2)"
  shows "case failure of
      Some e \<Rightarrow> length e < ERROR_MSG_SIZE \<and> held fd w1 = held fd w
    | None \<Rightarrow> ctx_ready ctx \<and> config ctx = cfg \<and> cached_pid ctx \<noteq> 0 \<and> total_pings (metrics ctx) = 0 \<and>
        held fd w2 = held fd w"
  using ctx_init_effect(2) [OF assms(1,2), of fd] ctx_destroy_effect(2) [OF assms(3), of fd]
  by (auto simp: ERROR_MSG_SIZE_def ctx_ready_def split: option.splits)

lemma sdrop_sconst: "sdrop n (sconst x) = sconst x"
  by (induction n) simp_all

theorem context_creation_witness:
  "\<exists>ctx w1 ctx2 w2. openups_ctx_init sample_config sample_world = Some (None, ctx, w1) \<and>
    openups_ctx_destroy ctx w1 = (ctx2, w2) \<and> held 5 w2 = held 5 sample_world"
proof -
  have fit: "int_fields_fit sample_config" by (simp add: sample_config_def int_fields_fit_def INT_MAX_def)
  obtain failure ctx w1 where i: "openups_ctx_init sample_config sample_world = Some (failure, ctx, w1)"
    using ctx_init_total [OF sample_world_fair] by (fastforce simp: returns_def)
  have "failure = None"
    using i
  proof (cases rule: ctx_init_cases)
    case (no_socket e v fam p p')
    have "shd (socket_in v) = Inr 5"
      using later_streams [OF no_socket(2)]
      by (auto simp: streams_later_def tail_of_def sample_world_def sdrop_sconst)
    with no_socket(3) show ?thesis by (auto simp: icmp_pinger_init_def Let_def sys_socket_def)
  next
    case (unresolved e)
    then show ?thesis
      by (simp add: resolve_target_def sample_config_def sample_world_def sample_host_def Let_def)
  qed
  obtain ctx2 w2 where d: "openups_ctx_destroy ctx w1 = (ctx2, w2)" by fastforce
  from context_creation [OF i fit d, of 5] i d \<open>failure = None\<close> show ?thesis by auto
qed

lemma config_resolve_exit_later:
  assumes "config_resolve argv w = (Inr (cfg, True), w')"
  shows "later {Cls_text} w w'"
proof -
  have print: "later {Cls_text} v (fold (\<lambda>l. emit (Stdout (l @ nl))) ls v)" for ls v
  proof (induction ls arbitrary: v)
    case (Cons a ls)
    have "later {Cls_text} v (emit (Stdout (a @ nl)) v)" by (simp add: later_emit)
    from later_trans [OF this Cons.IH] show ?case by simp
  qed simp
  from assms have "w' = config_print_version w \<or> w' = config_print_usage w"
    by (auto simp: config_resolve_def split: sum.splits prod.splits if_splits dest: config_load_from_cmdline_ok)
  then show ?thesis
    using print [of w usage_lines] by (auto simp: config_print_version_def config_print_usage_def later_emit)
qed

lemma spawns_mono: "later K w w' \<Longrightarrow> spawns w \<le> spawns w'"
  by (auto simp: spawns_def later_def events_def)

text \<open>What a run of the program promises, beyond returning.\<close>

definition program_promise :: "string list \<Rightarrow> world \<Rightarrow> int \<Rightarrow> world \<Rightarrow> bool" where
  "program_promise argv w rc w' \<longleftrightarrow>
     rc \<in> {0, 1} \<and> (\<forall>fd. held fd w' = held fd w) \<and>
     (spawns w' = spawns w \<or> (\<exists>cfg es. config_resolve argv w = (Inr (cfg, False), w) \<and>
       shutdown_mode cfg = SHUTDOWN_MODE_TRUE_OFF \<and> outcomes es \<le> packets w' - packets w \<and>
       event_times es \<subseteq> clock_readings w w' \<and>
       spawns w' \<le> spawns w + length (justified_instants cfg es)))"

lemma text_only_quiet:
  assumes "later {Cls_text} v v'"
  shows "held fd v' = held fd v" and "spawns v' = spawns v" and "packets v' = packets v"
  using held_later [OF assms] spawns_later [OF assms] packets_later [OF assms] by simp_all

lemma ran_promise:
  assumes cfg: "config_resolve argv w = (Inr (cfg, False), w1)"
    and init: "openups_ctx_init cfg w1 = Some (None, ctx, w2)"
    and run: "openups_reactor_run ctx w2 = Some (rc, ctx1, w3)"
    and logged: "later {Cls_text} w3 w4" and destroy: "openups_ctx_destroy ctx1 w4 = (ctx5, w')"
  shows "program_promise argv w rc w'"
proof -
  have w1: "w1 = w" by (rule config_resolve_valid(1) [OF cfg])
  note i = ctx_init_effect [OF init config_resolve_bounds(1) [OF cfg]]
  then have ready: "ctx_ready ctx" "config ctx = cfg"
    and h2: "\<And>fd. held fd w2 = held fd w1 + ctx_fds ctx fd" by simp_all
  have q2: "spawns w2 = spawns w1" "packets w2 = packets w1"
    by (rule spawns_later [OF i(1)] packets_later [OF i(1)], simp)+
  note r = reactor_run_sound [OF run ready(1)]
  have wf: "ctx_wf ctx1" using ready(1) ctx_wf_fixed [OF r(3)] by (simp add: ctx_ready_def)
  note x = ctx_destroy_effect [OF destroy wf]
  have q5: "spawns w' = spawns w4" "packets w' = packets w4"
    by (rule spawns_later [OF x(1)] packets_later [OF x(1)], simp)+
  have held: "held fd w' = held fd w" for fd
    using h2 r(2) [of fd] text_only_quiet(1) [OF logged] x(2) [of fd] ctx_fds_fixed [OF r(3)] w1 by simp
  have rc: "rc \<in> {0, 1}"
    using r(1) by (simp add: OPENUPS_EXIT_SUCCESS_def OPENUPS_EXIT_FAILURE_def)
  obtain es where hist: "outcomes es + packets w2 \<le> packets w3"
    "event_times es \<subseteq> clock_readings w2 w3"
    "spawns w3 \<le> spawns w2 + (if shutdown_mode cfg = SHUTDOWN_MODE_TRUE_OFF
       then length (justified_instants cfg es) else 0)"
    using r(5) ready(2) by blast
  have "clock_readings w2 w3 \<subseteq> clock_readings w w'"
    using clock_readings_mono(2) [OF i(1) r(4)] later_trans [OF later_mono [OF logged] later_mono [OF x(1)]]
      clock_readings_mono(1) [OF later_trans [OF later_mono [OF i(1)] later_mono [OF r(4)]]] w1 by blast
  with hist have es: "event_times es \<subseteq> clock_readings w w'" "outcomes es \<le> packets w' - packets w"
    "spawns w' \<le> spawns w + (if shutdown_mode cfg = SHUTDOWN_MODE_TRUE_OFF
       then length (justified_instants cfg es) else 0)"
    using q2 q5 text_only_quiet(2,3) [OF logged] w1 by (simp_all split: if_splits)
  moreover have "spawns w \<le> spawns w'"
    using spawns_mono [OF r(4)] q2 q5 text_only_quiet(2) [OF logged] w1 by simp
  ultimately show ?thesis
    using cfg w1 es held rc unfolding program_promise_def
    by (cases "shutdown_mode cfg = SHUTDOWN_MODE_TRUE_OFF") auto
qed

lemma main_program_promise:
  assumes "main_program argv w = Some (rc, w')"
  shows "program_promise argv w rc w'"
  using assms
proof (cases rule: main_program_cases)
  case (bad_config err w1)
  then have "w1 = w" using config_resolve_error by blast
  with bad_config text_only_quiet [OF logger_write_later [OF later_refl]]
  show ?thesis by (simp add: program_promise_def)
next
  case (info cfg)
  then have "later {Cls_text} w w'" by (blast intro: config_resolve_exit_later)
  with info text_only_quiet show ?thesis by (simp add: program_promise_def)
next
  case (no_context cfg w1 err ctx w2)
  have w1: "w1 = w" by (rule config_resolve_valid(1) [OF no_context(1)])
  note i = ctx_init_effect [OF no_context(2) config_resolve_bounds(1) [OF no_context(1)]]
  have "spawns w2 = spawns w1" by (rule spawns_later [OF i(1)]) simp
  with i(2) no_context(3,4) w1 text_only_quiet [OF logger_write_later [OF later_refl]]
  show ?thesis by (simp add: program_promise_def)
next
  case (ran cfg w1 ctx w2 ctx1 w3 w4)
  obtain ctx5 where "openups_ctx_destroy ctx1 w4 = (ctx5, w')" using ran(5) by (metis prod.collapse)
  with ran(1-4) show ?thesis by (rule ran_promise)
qed

lemma main_program_sound:
  assumes "main_program argv w = Some (rc, w')"
  shows "rc \<in> {0, 1}" and "held fd w' = held fd w"
    and "spawns w' = spawns w \<or> (\<exists>cfg es. config_resolve argv w = (Inr (cfg, False), w) \<and>
      shutdown_mode cfg = SHUTDOWN_MODE_TRUE_OFF \<and> outcomes es \<le> packets w' - packets w \<and>
      event_times es \<subseteq> clock_readings w w' \<and>
      spawns w' \<le> spawns w + length (justified_instants cfg es))"
  using main_program_promise [OF assms] unfolding program_promise_def by blast+

lemma stop_pending_main: "fair w \<Longrightarrow> stop_pending w \<Longrightarrow> returns (main_program argv w)"
proof -
  assume f: "fair w" and s: "stop_pending w"
  obtain res w1 where r: "config_resolve argv w = (res, w1)" by fastforce
  show ?thesis
  proof (cases res)
    case (Inl err)
    with r show ?thesis by (simp add: main_program_def)
  next
    case (Inr x)
    obtain cfg ex where x: "x = (cfg, ex)" by fastforce
    show ?thesis
    proof (cases ex)
      case True
      with r Inr x show ?thesis by (simp add: main_program_def)
    next
      case False
      with r Inr x have ok: "config_resolve argv w = (Inr (cfg, False), w1)" by simp
      have w1: "w1 = w" by (rule config_resolve_valid(1) [OF ok])
      obtain failure ctx w2 where i: "openups_ctx_init cfg w = Some (failure, ctx, w2)"
        using ctx_init_total [OF f] by (fastforce simp: returns_def)
      note e = ctx_init_effect [OF i config_resolve_bounds(1) [OF ok]]
      have "fair w2" "stop_pending w2" by (rule fair_later [OF f e(1)], rule stop_pending_later [OF s e(1)])
      then have "returns (openups_reactor_run ctx w2)" if "failure = None"
        using e(2) that by (intro stop_pending_run) auto
      with ok w1 i show ?thesis
        by (auto simp: main_program_def Let_def split: option.split)
    qed
  qed
qed


text \<open>
  C6: the program ends with exit code 0 or 1, and has closed exactly the descriptors it opened.
  A configuration error is written to standard error, and nothing else happens; a request for the
  version or the usage prints and succeeds; otherwise the configuration that runs is valid.
\<close>

theorem main_outcomes:
  assumes "main_program argv w = Some (rc, w')"
  shows "rc \<in> {0, 1} \<and> held fd w' = held fd w \<and>
    (case fst (config_resolve argv w) of
       Inl err \<Rightarrow> rc = 1 \<and> w' = logger_write LOG_LEVEL_ERROR False (''OpenUPS failed: '' @ err) w
     | Inr (cfg, exit_requested) \<Rightarrow>
         if exit_requested then rc = 0 \<and> later {Cls_text} w w'
         else valid_config (host w) cfg)"
  using assms
proof (cases rule: main_program_cases)
  case (bad_config err w1)
  then have "w1 = w" using config_resolve_error by blast
  with bad_config main_program_sound(1) [OF assms] main_program_sound(2) [OF assms, of fd] show ?thesis by simp
next
  case (info cfg)
  then have "later {Cls_text} w w'" by (blast intro: config_resolve_exit_later)
  with info main_program_sound(1) [OF assms] main_program_sound(2) [OF assms, of fd] show ?thesis by simp
next
  case no_context
  then show ?thesis using config_resolve_valid(2) main_program_sound(1) [OF assms] main_program_sound(2) [OF assms, of fd] by simp
next
  case ran
  then show ?thesis using config_resolve_valid(2) main_program_sound(1) [OF assms] main_program_sound(2) [OF assms, of fd] by simp
qed

theorem main_outcomes_witness:
  "\<exists>rc w'. main_program [''openups''] signalled_world = Some (rc, w') \<and> rc \<in> {0, 1} \<and>
     held 5 w' = held 5 signalled_world"
proof -
  obtain rc w' where m: "main_program [''openups''] signalled_world = Some (rc, w')"
    using stop_pending_main [OF signalled_world_facts(1) signalled_world_pending] by (rule returnsE)
  from main_outcomes [OF m, of 5] m show ?thesis by blast
qed



text \<open>
  C15: in a fair world in which a stop signal is pending, the program returns, with
  exit code 0 or 1, whatever its arguments, its environment and the network.
\<close>

theorem stop_signal_ends_program:
  assumes "fair w" and "stop_pending w"
  shows "\<exists>rc w'. main_program argv w = Some (rc, w') \<and> rc \<in> {0, 1}"
proof -
  obtain rc w' where m: "main_program argv w = Some (rc, w')"
    using stop_pending_main [OF assms] by (rule returnsE)
  with main_program_sound(1) [OF m] show ?thesis by blast
qed

theorem stop_signal_ends_program_witness:
  "\<exists>rc w'. main_program [''openups''] signalled_world = Some (rc, w') \<and> rc \<in> {0, 1}"
  by (rule stop_signal_ends_program [OF signalled_world_facts(1) signalled_world_pending])

end
