(* ===== verification/OutageWorld.thy ===== *)
theory OutageWorld
  imports ReactorRun
begin

text \<open>
  The world of an outage: the probes leave the host and nothing comes back, no signal arrives,
  the clock goes on in steps of a bounded size, and the shutdown command can be started. With it,
  how many readings of the clock each function consumes.
\<close>

section \<open>The clock\<close>

text \<open>The \<open>n\<close>-th answer of the monotonic clock from here, in milliseconds.\<close>

definition reading :: "world \<Rightarrow> nat \<Rightarrow> nat" where
  "reading w n = (case mono_in w !! n of None \<Rightarrow> unat UINT64_MAX | Some ts \<Rightarrow> unat (timespec_ms ts))"

text \<open>A clock that never fails, never goes back, and advances by at most \<open>d\<close> at a time.\<close>

definition steady :: "nat \<Rightarrow> world \<Rightarrow> bool" where
  "steady d w \<longleftrightarrow> (\<forall>n. mono_in w !! n \<noteq> None \<and> reading w n \<le> reading w (Suc n) \<and>
     reading w (Suc n) \<le> reading w n + d)"

text \<open>The clock was read at most \<open>n\<close> times between two worlds.\<close>

definition clock_used :: "nat \<Rightarrow> world \<Rightarrow> world \<Rightarrow> bool" where
  "clock_used n w w' \<longleftrightarrow> (\<exists>k\<le>n. mono_in w' = sdrop k (mono_in w))"

lemma clock_usedI: "mono_in w' = sdrop k (mono_in w) \<Longrightarrow> k \<le> n \<Longrightarrow> clock_used n w w'"
  by (auto simp: clock_used_def)

lemma clock_usedE:
  assumes "clock_used n w w'"
  obtains k where "k \<le> n" "mono_in w' = sdrop k (mono_in w)"
  using assms by (auto simp: clock_used_def)

lemma clock_used_same: "mono_in w' = mono_in w \<Longrightarrow> clock_used n w w'"
  unfolding clock_used_def by (intro exI [of _ 0]) simp

lemma clock_used_refl [simp]: "clock_used n w w"
  by (simp add: clock_used_same)

lemma clock_used_0: "clock_used 0 w w' \<longleftrightarrow> mono_in w' = mono_in w"
  by (simp add: clock_used_def)

lemma clock_used_trans:
  assumes "clock_used m u v" and "clock_used n v w"
  shows "clock_used (m + n) u w"
proof -
  obtain i where i: "i \<le> m" "mono_in v = sdrop i (mono_in u)" using assms(1) by (rule clock_usedE)
  obtain j where j: "j \<le> n" "mono_in w = sdrop j (mono_in v)" using assms(2) by (rule clock_usedE)
  have "mono_in w = sdrop (i + j) (mono_in u)" unfolding j(2) i(2) by (rule sdrop_add)
  then show ?thesis by (rule clock_usedI) (simp add: add_mono i(1) j(1))
qed

lemma clock_used_mono: "clock_used m u v \<Longrightarrow> m \<le> n \<Longrightarrow> clock_used n u v"
  unfolding clock_used_def by (meson order_trans)

lemma reading_sdrop: "mono_in w' = sdrop k (mono_in w) \<Longrightarrow> reading w' n = reading w (k + n)"
  by (simp add: reading_def sdrop_snth)

lemma steady_le: "steady d w \<Longrightarrow> i \<le> j \<Longrightarrow> reading w i \<le> reading w j"
  by (rule lift_Suc_mono_le [of "reading w"]) (simp_all add: steady_def)

lemma steady_step: "steady d w \<Longrightarrow> reading w (i + n) \<le> reading w i + n * d"
proof (induction n)
  case (Suc n)
  then have "reading w (Suc (i + n)) \<le> reading w (i + n) + d" by (simp add: steady_def)
  with Suc show ?case by (simp add: algebra_simps)
qed simp

lemma steady_used:
  assumes "steady d w" and "clock_used n w w'"
  shows "steady d w'" and "reading w 0 \<le> reading w' 0" and "reading w' 0 \<le> reading w 0 + n * d"
proof -
  from assms(2) obtain k where k: "k \<le> n" "mono_in w' = sdrop k (mono_in w)"
    by (auto simp: clock_used_def)
  note r = reading_sdrop [OF k(2)]
  show "steady d w'"
    using assms(1) k(2) unfolding steady_def r by (auto simp: sdrop_snth)
  show "reading w 0 \<le> reading w' 0" using steady_le [OF assms(1), of 0 k] by (simp add: r)
  have "reading w' 0 \<le> reading w 0 + k * d" using steady_step [OF assms(1), of 0 k] by (simp add: r)
  with k(1) show "reading w' 0 \<le> reading w 0 + n * d"
    by (meson add_left_mono mult_le_mono1 order_trans)
qed

lemma steady_read:
  assumes "steady d w" and "get_monotonic_ms w = (t, w')"
  shows "unat t = reading w 0" and "mono_in w' = sdrop 1 (mono_in w)"
proof -
  from assms(1) have "mono_in w !! 0 \<noteq> None" unfolding steady_def by blast
  then obtain ts where "shd (mono_in w) = Some ts" by auto
  with assms(2) show "unat t = reading w 0" "mono_in w' = sdrop 1 (mono_in w)"
    by (auto simp: get_monotonic_ms_def sys_clock_gettime_def reading_def)
qed

lemma get_monotonic_ms_used:
  assumes "steady d w" and "get_monotonic_ms w = (t, w')"
  shows "clock_used 1 w w'"
  using steady_read(2) [OF assms] unfolding clock_used_def by blast

text \<open>Only the clock matters.\<close>

lemma steady_cong: "mono_in v = mono_in w \<Longrightarrow> steady d v = steady d w"
  by (simp add: steady_def reading_def)

lemma clock_used_cong: "mono_in v = mono_in w \<Longrightarrow> clock_used n v w' = clock_used n w w'"
  by (simp add: clock_used_def)

text \<open>In a fair world a steady clock reaches every time that 64 bits can hold.\<close>

lemma steady_passes:
  assumes "fair w" and "b < 2 ^ 64 - 1"
  shows "\<exists>n. b < reading w n"
proof -
  have "inf_often (clock_past (2 ^ 62)) (mono_in w)" using assms(1) by (simp add: fair_def)
  then obtain n where past: "clock_past (2 ^ 62) (mono_in w !! n)" by (rule inf_often_next)
  then obtain ts where ts: "mono_in w !! n = Some ts"
    by (cases "mono_in w !! n") (simp_all add: clock_past_def)
  have "UINT64_MAX \<le> timespec_ms ts"
    using past by (intro timespec_ms_ge [of "2 ^ 62"]) (simp_all add: ts openups_consts)
  then have "2 ^ 64 - 1 \<le> unat (timespec_ms ts)" by (simp add: word_le_nat_alt openups_consts)
  with ts assms(2) have "b < reading w n" by (simp add: reading_def)
  then show ?thesis ..
qed

section \<open>How often the functions read the clock\<close>

lemma sys_keeps_clock:
  "sys_send fd m w = (r, w') \<Longrightarrow> mono_in w' = mono_in w"
  "sys_sendto sk bs a n w = (r, w') \<Longrightarrow> mono_in w' = mono_in w"
  "sys_poll t w = (ans, w') \<Longrightarrow> mono_in w' = mono_in w"
  "sys_recvfrom n w = (pkt, w') \<Longrightarrow> mono_in w' = mono_in w"
  "sys_sigprocmask c w = (e, w') \<Longrightarrow> mono_in w' = mono_in w"
  "sys_signalfd w = (sfd, w') \<Longrightarrow> mono_in w' = mono_in w"
  "nanosleep_retry ns w = Some (nap, w') \<Longrightarrow> mono_in w' = mono_in w"
  by (auto simp: emit_def sys_send_def sys_sendto_def sys_poll_def sys_recvfrom_def
      sys_sigprocmask_def sys_signalfd_def Let_def split: sum.splits option.splits
      elim: nanosleep_retry_world)

lemma logger_keeps_clock [simp]:
  "mono_in (logger_warn lg m w) = mono_in w" "mono_in (logger_info lg m w) = mono_in w"
  "mono_in (logger_error lg m w) = mono_in w"
  by (simp_all add: logger_warn_def logger_info_def logger_error_def)

lemma send_attempts_clock: "send_attempts n fd m w = Some (ok, w') \<Longrightarrow> mono_in w' = mono_in w"
proof (induction n arbitrary: w)
  case (Suc n)
  obtain r w1 where s: "sys_send fd m w = (r, w1)" by fastforce
  from Suc.prems s consider "w' = w1" | "send_attempts n fd m w1 = Some (ok, w')"
    | ns x w2 where "nanosleep_retry ns w1 = Some (x, w2)" "send_attempts n fd m w2 = Some (ok, w')"
    by (auto split: sum.splits if_splits bind_splits)
  then show ?case
    using sys_keeps_clock(1) [OF s] by cases (metis Suc.IH sys_keeps_clock(7))+
qed simp

lemma send_notify_clock: "send_notify sd m w = Some (ok, w') \<Longrightarrow> mono_in w' = mono_in w"
  by (auto simp: send_notify_def dest: send_attempts_clock split: if_splits)

lemma notify_flag_clock:
  "runtime_services_notify_ready sv sd w = Some (ok, sd', w') \<Longrightarrow> mono_in w' = mono_in w"
  "runtime_services_notify_watchdog sv sd w = Some (ok, sd', w') \<Longrightarrow> mono_in w' = mono_in w"
  by (auto simp: runtime_services_notify_ready_def runtime_services_notify_watchdog_def
      systemd_notifier_ready_def systemd_notifier_watchdog_def
      dest!: call_flag_cases dest: send_notify_clock split: if_splits)

text \<open>A status update looks at the clock once, to leave out repetitions.\<close>

lemma systemd_notifier_status_clock:
  assumes "systemd_notifier_status n s w = Some (ok, n', w')" and "steady d w"
  shows "clock_used 1 w w'"
proof -
  obtain now w1 where t: "get_monotonic_ms w = (now, w1)" by fastforce
  have "w' = w \<or> mono_in w' = mono_in w1"
    using assms(1) t by (auto simp: systemd_notifier_status_def dest: send_notify_clock split: if_splits bind_splits)
  then show ?thesis
    using get_monotonic_ms_used [OF assms(2) t] by (auto simp: clock_used_def)
qed

lemma ctx_notify_status_clock:
  assumes "ctx_notify_status text c w = Some (c', w')" and "steady d w"
  shows "clock_used 1 w w'"
  using assms systemd_notifier_status_clock [OF _ assms(2)]
  by (auto simp: ctx_notify_status_def runtime_services_notify_statusf_def Let_def
      split: if_splits service_fn.splits backend_ptr.splits bind_splits)

lemma status_after_text_clock:
  assumes "ctx_notify_status text c v = Some (c', w')" and "mono_in v = mono_in w" and "steady d w"
  shows "clock_used 1 w w'"
  using ctx_notify_status_clock [OF assms(1)] assms(3)
  by (simp add: steady_cong [OF assms(2)] clock_used_cong [OF assms(2)])

lemma handle_ping_failure_clock:
  assumes "handle_ping_failure result c w = Some (c', w')" and "steady d w"
  shows "clock_used 1 w w'"
  using assms unfolding handle_ping_failure_def Let_def
  by (elim status_after_text_clock) simp_all

text \<open>Without the shutdown itself.\<close>

lemma threshold_clock:
  assumes "shutdown_fsm_handle_threshold now c s w = Some (stop, c', s', w')" and "steady d w"
    and "0 < delay_minutes (config c)"
  shows "clock_used 1 w w'"
proof -
  from assms(1,3) consider "mono_in w' = mono_in w"
    | msg v where "ctx_notify_status msg c v = Some (c', w')" "mono_in v = mono_in w"
    unfolding shutdown_fsm_handle_threshold_def Let_def log_shutdown_countdown_def
    by (auto split: if_splits prod.splits bind_splits)
  then show ?thesis
  proof cases
    case 1
    then show ?thesis by (rule clock_used_same)
  next
    case 2
    then show ?thesis using assms(2) by (rule status_after_text_clock)
  qed
qed

lemma send_echo_clock:
  "icmp_pinger_send_echo p dest n i len w = (err, p', w') \<Longrightarrow> mono_in w' = mono_in w"
  by (auto simp: icmp_pinger_send_echo_def Let_def dest: sys_keeps_clock(2)
      split: option.splits if_splits prod.splits sum.splits)

lemma poll_fds_clock: "poll_fds t f0 f1 w = (r, g0, g1, w') \<Longrightarrow> mono_in w' = mono_in w"
  by (auto simp: poll_fds_def dest: sys_keeps_clock(3) split: prod.splits sum.splits)

section \<open>The world of an outage\<close>

text \<open>An answer of \<open>poll\<close> without errors that reports no signal.\<close>

definition quiet_poll :: "poll_answer \<Rightarrow> bool" where
  "quiet_poll a \<longleftrightarrow>
     (case poll_ret a of Inl e \<Rightarrow> e = EINTR | Inr n \<Rightarrow> True) \<and>
     \<not> pollfd_has_error (poll_signal_revents a) \<and> \<not> pollfd_has_error (poll_icmp_revents a) \<and>
     poll_signal_revents a AND POLLIN = 0"

definition dead_network :: "world \<Rightarrow> bool" where
  "dead_network w \<longleftrightarrow>
     (\<forall>n. sendto_in w !! n = Inr 64 \<and> recvfrom_in w !! n = Inl EAGAIN \<and> quiet_poll (poll_in w !! n))"

definition command_works :: "world \<Rightarrow> bool" where
  "command_works w \<longleftrightarrow>
     (\<forall>n. spawn_rc_in w !! n = 0 \<and> (\<exists>pid > 0. spawn_in w !! n = Inr pid) \<and>
        (\<forall>pid. child_verdict pid (waitpid_in w !! n) \<noteq> Some SHUTDOWN_RESULT_FAILED))"

definition outage_world :: "nat \<Rightarrow> world \<Rightarrow> bool" where
  "outage_world d w \<longleftrightarrow> fair w \<and> steady d w \<and> dead_network w \<and> command_works w"

lemma outage_world_later:
  assumes "outage_world d w" and "later K w w'"
  shows "outage_world d w'"
proof -
  have s: "streams_later w w'" by (rule later_streams [OF assms(2)])
  then obtain n where "clock_used n w w'" by (auto simp: streams_later_def tail_of_def clock_used_def)
  then have "steady d w'" using assms(1) by (auto simp: outage_world_def intro: steady_used(1))
  moreover have "dead_network w'"
    using assms(1) s
    by (auto simp: outage_world_def dead_network_def streams_later_def tail_of_def sdrop_snth)
  moreover have "command_works w'"
    using assms(1) s
    by (auto simp: outage_world_def command_works_def streams_later_def tail_of_def sdrop_snth)
  ultimately show ?thesis
    using assms fair_later [OF _ assms(2)] by (simp add: outage_world_def)
qed

lemma trigger_works:
  assumes "shutdown_trigger cfg lg sys w = Some (r, w')" and "command_works w"
    and "shutdown_mode cfg = SHUTDOWN_MODE_TRUE_OFF"
  shows "r = SHUTDOWN_RESULT_TRIGGERED"
proof -
  obtain w1 where w1: "spawn_rc_in w1 = spawn_rc_in w" "spawn_in w1 = spawn_in w"
    "waitpid_in w1 = waitpid_in w"
    and x: "shutdown_execute_command (shutdown_argv sys) lg w1 = Some (r, w')"
    using assms(1,3) by (rule trigger_true_off)
  obtain path args where argv: "shutdown_argv sys = path # args"
    by (cases "shutdown_argv sys") (auto simp: shutdown_argv_def split: if_splits)
  have rc: "spawn_rc_in w !! n = 0" and wait: "child_verdict pid (waitpid_in w !! n) \<noteq> Some SHUTDOWN_RESULT_FAILED"
    for n pid
    using assms(2) by (simp_all add: command_works_def)
  obtain pid where pid: "0 < pid" "shd (spawn_in w) = Inr pid"
    using assms(2) by (metis command_works_def snth.simps(1))
  have "observed pid w1 r w' \<or> r = SHUTDOWN_RESULT_TRIGGERED"
    using execute_command_effect [OF x [unfolded argv]] w1 rc pid by (simp add: spawn_decides_def)
  then show ?thesis
  proof
    assume "observed pid w1 r w'"
    then obtain n where "r = settled pid (waitpid_in w !! n)" using w1(3) by (auto simp: observed_def)
    moreover have "v = SHUTDOWN_RESULT_FAILED \<or> v = SHUTDOWN_RESULT_TRIGGERED"
      if "child_verdict p a = Some v" for p a v
      using that by (auto simp: child_verdict_def split: sum.splits if_splits)
    ultimately show ?thesis
      using wait [of pid n] by (auto simp: settled_def split: option.split)
  qed
qed

end
