(* ===== verification/OutageRun.thy ===== *)
theory OutageRun
  imports OutageWorld
begin

text \<open>
  An outage ends in the shutdown: in a world where the probes get no reply, the reactor returns,
  with the shutdown command started exactly once in the true-off mode. The proof follows the
  deadlines: the reply to the probe after \<open>f\<close> losses is due at most \<open>f\<close> cycles after the
  first one, so the threshold is reached in time, and then the countdown runs out.
\<close>

section \<open>The course of an outage\<close>

text \<open>The longest time between the loss of two probes in a row, on a clock with steps of \<open>d\<close>.\<close>

definition interval_of :: "config_t \<Rightarrow> nat" where
  "interval_of cfg = nat (interval_sec cfg) * 1000"

definition timeout_of :: "config_t \<Rightarrow> nat" where
  "timeout_of cfg = nat (timeout_ms cfg)"

definition cycle_of :: "nat \<Rightarrow> config_t \<Rightarrow> nat" where
  "cycle_of d cfg = timeout_of cfg + interval_of cfg + 8 * d"

text \<open>The time of what the monitor waits for next.\<close>

definition anchor :: "monitor_state_t \<Rightarrow> nat" where
  "anchor s = unat (if waiting (ping s) then ps_deadline_ms (ping s) else next_ping_ms (scheduler s))"

text \<open>
  The latest time by which the outage is over, when the first reply is due by \<open>b\<close>; it has to fit
  64 bits with a cycle to spare.
\<close>

definition outage_end :: "nat \<Rightarrow> nat \<Rightarrow> config_t \<Rightarrow> nat" where
  "outage_end d b cfg = b + nat (fail_threshold cfg) * cycle_of d cfg + delay_of cfg"

definition outage_config :: "nat \<Rightarrow> nat \<Rightarrow> config_t \<Rightarrow> bool" where
  "outage_config d b cfg \<longleftrightarrow>
     0 < interval_sec cfg \<and> 0 < timeout_ms cfg \<and> 0 < fail_threshold cfg \<and> 0 \<le> delay_minutes cfg \<and>
     int_fields_fit cfg \<and> shutdown_mode cfg \<noteq> SHUTDOWN_MODE_LOG_ONLY \<and>
     outage_end d b cfg + cycle_of d cfg < 2 ^ 64 - 1"

text \<open>When the reply to the next probe is due at the latest, after the failures counted so far.\<close>

definition reply_due :: "nat \<Rightarrow> nat \<Rightarrow> openups_ctx_t \<Rightarrow> nat" where
  "reply_due d b c = b + nat (consecutive_fails c) * cycle_of d (config c)"

definition on_course :: "nat \<Rightarrow> nat \<Rightarrow> openups_ctx_t \<Rightarrow> monitor_state_t \<Rightarrow> bool" where
  "on_course d b c s \<longleftrightarrow>
     monitor_inv c s \<and> \<not> stop_flag c \<and> outage_config d b (config c) \<and>
     unat (sc_interval_ms (scheduler s)) = interval_of (config c) \<and>
     (waiting (ping s) \<longrightarrow>
        unat (next_ping_ms (scheduler s)) \<le> unat (ps_deadline_ms (ping s)) + interval_of (config c)) \<and>
     (pending (shutdown s) \<longrightarrow> unat (ss_deadline_ms (shutdown s)) \<le> outage_end d b (config c)) \<and>
     (\<not> pending (shutdown s) \<longrightarrow> consecutive_fails c < fail_threshold (config c) \<and>
        (waiting (ping s) \<longrightarrow> unat (ps_deadline_ms (ping s)) \<le> reply_due d b c) \<and>
        (\<not> waiting (ping s) \<longrightarrow>
           unat (next_ping_ms (scheduler s)) + timeout_of (config c) + 4 * d \<le> reply_due d b c))"

text \<open>A time at which the outage is still on.\<close>

definition in_outage :: "nat \<Rightarrow> nat \<Rightarrow> openups_ctx_t \<Rightarrow> monitor_state_t \<Rightarrow> u64 \<Rightarrow> bool" where
  "in_outage d b c s now \<longleftrightarrow>
     (pending (shutdown s) \<longrightarrow> unat now < unat (ss_deadline_ms (shutdown s))) \<and>
     (\<not> pending (shutdown s) \<and> \<not> waiting (ping s) \<longrightarrow>
        unat now + timeout_of (config c) \<le> reply_due d b c)"

lemma reply_due_bound:
  assumes "0 \<le> consecutive_fails c" and "consecutive_fails c < fail_threshold (config c)"
  shows "reply_due d b c + cycle_of d (config c) + delay_of (config c) \<le> outage_end d b (config c)"
proof -
  have "nat (consecutive_fails c) + 1 \<le> nat (fail_threshold (config c))" using assms by simp
  then have "(nat (consecutive_fails c) + 1) * cycle_of d (config c)
      \<le> nat (fail_threshold (config c)) * cycle_of d (config c)"
    by (rule mult_le_mono1)
  then show ?thesis by (simp add: reply_due_def outage_end_def)
qed

lemma in_outage_bound:
  assumes "on_course d b c s" and "in_outage d b c s now" and "\<not> waiting (ping s)"
  shows "unat now \<le> outage_end d b (config c)"
proof (cases "pending (shutdown s)")
  case False
  with assms have "unat now \<le> reply_due d b c"
    "consecutive_fails c < fail_threshold (config c)" "0 \<le> consecutive_fails c"
    by (simp_all add: on_course_def in_outage_def monitor_inv_def)
  then show ?thesis using reply_due_bound [of c d b] by simp
qed (use assms in \<open>auto simp: on_course_def in_outage_def\<close>)

section \<open>The shutdown is executed\<close>

text \<open>What the shutdown adds to the trace, by the mode.\<close>

definition shutdown_events :: "openups_ctx_t \<Rightarrow> event list" where
  "shutdown_events c =
     (if shutdown_mode (config c) = SHUTDOWN_MODE_TRUE_OFF
      then let argv = shutdown_argv (runtime_services_is_enabled (services c))
           in [Spawned (hd argv) argv shutdown_envp]
      else [])"

definition shut_down :: "openups_ctx_t \<Rightarrow> world \<Rightarrow> world \<Rightarrow> bool" where
  "shut_down c w w' \<longleftrightarrow> events Cls_spawn w' = events Cls_spawn w @ shutdown_events c"

lemma shutdown_events_fixed: "ctx_fixed c' = ctx_fixed c \<Longrightarrow> shutdown_events c' = shutdown_events c"
  using ctx_fixed_parts(1,6) [of c' c] by (simp add: shutdown_events_def)

lemma execute_works:
  assumes "shutdown_fsm_execute c w = Some (stop, w')" and "command_works w"
    and "shutdown_mode (config c) \<noteq> SHUTDOWN_MODE_LOG_ONLY"
  shows "stop \<and> shut_down c w w'"
proof -
  obtain r w1 where t: "shutdown_trigger (config c) (logger c)
      (runtime_services_is_enabled (services c)) w = Some (r, w1)"
    and stop: "stop \<longleftrightarrow> executed (config c) r" and l: "later {Cls_text} w1 w'"
    using assms(1) by (rule shutdown_fsm_execute_effect)
  have e: "events Cls_spawn w' = events Cls_spawn w1" by (rule later_events [OF l]) simp
  show ?thesis
  proof (cases "shutdown_mode (config c) = SHUTDOWN_MODE_TRUE_OFF")
    case True
    have "r = SHUTDOWN_RESULT_TRIGGERED" by (rule trigger_works [OF t assms(2) True])
    with trigger_outcome [OF t] True e stop show ?thesis
      by (simp add: shut_down_def shutdown_events_def executed_def Let_def)
  next
    case False
    with trigger_outcome [OF t] e stop assms(3) show ?thesis
      by (cases "shutdown_mode (config c)") (simp_all add: shut_down_def shutdown_events_def executed_def)
  qed
qed

section \<open>The handlers in an outage\<close>

lemma tick_course:
  assumes "shutdown_fsm_handle_tick now c s w = Some (stop, c', s', w')"
    and "on_course d b c s" and "outage_world d w"
  shows "if pending (shutdown s) \<and> ss_deadline_ms (shutdown s) \<le> now then stop \<and> shut_down c w w'
    else (stop, c', s', w') = (False, c, s, w)"
  using assms(1)
proof (cases rule: tick_cases)
  case (fire w1)
  have "command_works w1"
    using outage_world_later [OF assms(3) fire(7)] by (simp add: outage_world_def)
  moreover have "shutdown_mode (config c') \<noteq> SHUTDOWN_MODE_LOG_ONLY"
    using assms(2) ctx_fixed_parts(1) [OF fire(3)] by (simp add: on_course_def outage_config_def)
  ultimately have "stop \<and> shut_down c' w1 w'" by (rule execute_works [OF fire(8)])
  moreover have "events Cls_spawn w1 = events Cls_spawn w" by (rule later_events [OF fire(7)]) simp
  ultimately show ?thesis
    using fire(1) shutdown_events_fixed [OF fire(3)]
    by (simp add: shut_down_def monitor_shutdown_deadline_elapsed_def)
qed (auto simp: monitor_shutdown_deadline_elapsed_def)

lemma watchdog_clock:
  "monitor_handle_watchdog now c s w = Some (r, c', s', w') \<Longrightarrow> mono_in w' = mono_in w"
  by (auto simp: monitor_handle_watchdog_def Let_def dest!: notify_flag_clock(2)
      split: if_splits bind_splits)

lemma watchdog_course:
  assumes "monitor_handle_watchdog now c s w = Some (r, c', s', w')" and "on_course d b c s"
  shows "r = MONITOR_STEP_CONTINUE \<and> on_course d b c' s' \<and> ctx_fixed c' = ctx_fixed c \<and>
    consecutive_fails c' = consecutive_fails c \<and> ping s' = ping s \<and> scheduler s' = scheduler s \<and>
    shutdown s' = shutdown s \<and> mono_in w' = mono_in w \<and> events Cls_spawn w' = events Cls_spawn w"
proof -
  note fixed = watchdog_handler.fixed [OF assms(1)]
  have inv: "monitor_inv c' s'"
    using watchdog_handler.inv [OF assms(1)] assms(2) by (simp add: on_course_def)
  have "r = MONITOR_STEP_CONTINUE \<and> consecutive_fails c' = consecutive_fails c \<and> stop_flag c' = stop_flag c \<and>
    ping s' = ping s \<and> scheduler s' = scheduler s \<and> shutdown s' = shutdown s \<and> mono_in w' = mono_in w \<and>
    events Cls_spawn w' = events Cls_spawn w"
    using assms(1)
  proof (cases rule: watchdog_cases)
    case (due ok sd w1)
    have "events Cls_spawn w1 = events Cls_spawn w" "events Cls_spawn w' = events Cls_spawn w1"
      by (rule later_events [OF watchdog_op.later [OF due(3)]] later_events [OF due(5)], simp)+
    with due watchdog_clock [OF assms(1)] show ?thesis by (simp add: monitor_watchdog_mark_sent_def)
  qed simp
  with fixed inv assms(2) ctx_fixed_parts(1) [OF fixed] show ?thesis
    by (simp add: on_course_def reply_due_def)
qed

lemma threshold_keeps_scheduler:
  assumes "shutdown_fsm_handle_threshold now c s w = Some (stop, c', s', w')"
  shows "scheduler s' = scheduler s"
  using assms
  by (cases rule: threshold_cases; force simp: monitor_shutdown_arm_def Let_def split: if_splits)

text \<open>A reply that is due is at most \<open>4 * d\<close> late, so the loss comes within its cycle.\<close>

lemma loss_times:
  assumes course: "on_course d b c s" and elapsed: "monitor_ping_deadline_elapsed s now"
    and now: "unat now \<le> anchor s + 4 * d" and idle: "\<not> pending (shutdown s)"
  shows "unat now + timeout_of (config c) \<le> reply_due d b c + cycle_of d (config c)"
    and "unat now + delay_of (config c) \<le> outage_end d b (config c)"
proof -
  have "0 \<le> consecutive_fails c" "0 < timeout_of (config c)"
    using course by (simp_all add: on_course_def outage_config_def monitor_inv_def timeout_of_def)
  then show "unat now + timeout_of (config c) \<le> reply_due d b c + cycle_of d (config c)"
    "unat now + delay_of (config c) \<le> outage_end d b (config c)"
    using now idle elapsed course reply_due_bound [of c d b]
    by (auto simp: on_course_def anchor_def cycle_of_def monitor_ping_deadline_elapsed_def)
qed

text \<open>A loss that does not reach the threshold, or comes during the countdown, only counts.\<close>

lemma loss_counted_course:
  assumes course: "on_course d b c s" and elapsed: "monitor_ping_deadline_elapsed s now"
    and now: "\<not> pending (shutdown s) \<Longrightarrow> unat now \<le> anchor s + 4 * d"
      "pending (shutdown s) \<Longrightarrow> unat now < unat (ss_deadline_ms (shutdown s))"
    and inv: "monitor_inv c' s'" and fixed: "ctx_fixed c' = ctx_fixed c"
    and state: "ping s' = ping (monitor_ping_clear s)" "scheduler s' = scheduler s"
      "shutdown s' = shutdown s"
    and below: "pending (shutdown s) \<or> consecutive_fails c + 1 < fail_threshold (config c)"
    and count: "consecutive_fails c' = consecutive_fails c + 1" and run: "\<not> stop_flag c'"
  shows "on_course d b c' s' \<and> in_outage d b c' s' now \<and> \<not> waiting (ping s')"
proof -
  have "0 \<le> consecutive_fails c" using course by (simp add: on_course_def monitor_inv_def)
  then have due: "reply_due d b c' = reply_due d b c + cycle_of d (config c)"
    using ctx_fixed_parts(1) [OF fixed] count by (simp add: reply_due_def nat_add_distrib)
  have "waiting (ping s)" using elapsed by (simp add: monitor_ping_deadline_elapsed_def)
  then show ?thesis
    using course inv ctx_fixed_parts(1) [OF fixed] below count run state due now(2)
      loss_times [OF course elapsed now(1)]
    by (auto simp: on_course_def in_outage_def monitor_ping_clear_def cycle_of_def)
qed

lemma lost_course:
  assumes t: "monitor_handle_ping_timeout now c s w = Some (r, c', s', w')"
    and elapsed: "monitor_ping_deadline_elapsed s now"
    and course: "on_course d b c s" and world: "outage_world d w"
    and now: "\<not> pending (shutdown s) \<Longrightarrow> unat now \<le> anchor s + 4 * d"
      "pending (shutdown s) \<Longrightarrow> unat now < unat (ss_deadline_ms (shutdown s))"
  shows "if r = MONITOR_STEP_CONTINUE
    then on_course d b c' s' \<and> in_outage d b c' s' now \<and> \<not> waiting (ping s') \<and>
      ctx_fixed c' = ctx_fixed c \<and> clock_used 2 w w' \<and> events Cls_spawn w' = events Cls_spawn w
    else r = MONITOR_STEP_STOP \<and> shut_down c w w'"
proof -
  from t elapsed obtain c1 w1 stop where lost:
    "handle_ping_failure timeout_result c w = Some (c1, w1)"
    "shutdown_fsm_handle_threshold now c1 (monitor_ping_clear s) w1 = Some (stop, c', s', w')"
    and r: "r = (if stop then MONITOR_STEP_STOP else MONITOR_STEP_CONTINUE)"
    by (auto elim: ping_timeout_cases)
  note e = handle_ping_failure_effect [OF lost(1)]
  have cfg: "outage_config d b (config c)" "config c1 = config c"
    using course ctx_fixed_parts(1) [OF e(1)] by (simp_all add: on_course_def)
  have ev1: "events Cls_spawn w1 = events Cls_spawn w" by (rule later_events [OF e(6)]) simp
  have inv': "monitor_inv c' s'" and fixed: "ctx_fixed c' = ctx_fixed c"
    using ping_timeout.inv [OF t] course ping_timeout.fixed [OF t] by (simp_all add: on_course_def)
  have world1: "outage_world d w1" by (rule outage_world_later [OF world e(6)])
  have clock1: "clock_used 1 w w1"
    using world handle_ping_failure_clock [OF lost(1), of d] by (simp add: outage_world_def)
  have state': "ping s' = ping (monitor_ping_clear s)" "scheduler s' = scheduler s"
    using threshold_keeps(3) [OF lost(2)] threshold_keeps_scheduler [OF lost(2)]
    by (simp_all add: monitor_ping_clear_def)
  note counted = loss_counted_course [OF course elapsed now inv' fixed state']
  from lost(2) show ?thesis
  proof (cases rule: threshold_cases)
    case below
    then have "on_course d b c' s' \<and> in_outage d b c' s' now \<and> \<not> waiting (ping s')"
      using e cfg course by (intro counted) (simp_all add: monitor_ping_clear_def on_course_def)
    with below r fixed ev1 clock_used_mono [OF clock1, of 2] show ?thesis by simp
  next
    case log_only
    then show ?thesis using cfg by (simp add: outage_config_def)
  next
    case immediate
    have "stop \<and> shut_down c1 w1 w'"
      using immediate(2,4) world1 by (intro execute_works) (simp_all add: outage_world_def)
    with r ev1 shutdown_events_fixed [OF e(1)] show ?thesis by (simp add: shut_down_def)
  next
    case counting
    then have "on_course d b c' s' \<and> in_outage d b c' s' now \<and> \<not> waiting (ping s')"
      using e cfg course by (intro counted) (simp_all add: monitor_ping_clear_def on_course_def)
    with counting r fixed ev1 clock_used_mono [OF clock1, of 2] show ?thesis by simp
  next
    case unarmed
    from unarmed have "\<not> pending (shutdown s)" by (simp add: monitor_ping_clear_def)
    then show ?thesis
      using unarmed countdown_arms [of "config c"] shutdown_timer.arm_fails cfg
        loss_times(2) [OF course elapsed now(1)]
      by (fastforce simp: outage_config_def)
  next
    case armed
    from armed have idle: "\<not> pending (shutdown s)" by (simp add: monitor_ping_clear_def)
    have delay: "unat (shutdown_fsm_config_delay_ms (config c1)) = delay_of (config c)" "0 < delay_of (config c)"
      using countdown_arms(1) [of "config c"] cfg armed(2)
      by (auto simp: outage_config_def countdown_configured_def delay_of_def)
    have p: "pending (shutdown s')" "unat (ss_deadline_ms (shutdown s')) = unat now + delay_of (config c)"
      using shutdown_timer.arm_ok [OF armed(5)] delay by (simp_all add: monitor_shutdown_pending_def)
    have "clock_used 1 w1 w'"
      using threshold_clock [OF lost(2), of d] world1 armed(2) by (simp add: outage_world_def countdown_configured_def)
    with clock1 have "clock_used 2 w w'" using clock_used_trans [of 1 w w1 1 w'] by (simp add: numeral_2_eq_2)
    moreover have "events Cls_spawn w' = events Cls_spawn w1" by (rule later_events [OF armed(10)]) simp
    moreover have "on_course d b c' s' \<and> in_outage d b c' s' now \<and> \<not> waiting (ping s')"
      using course inv' cfg ctx_fixed_parts(1) [OF fixed] state' p delay idle armed(11) e(5)
        loss_times(2) [OF course elapsed now(1) idle, OF idle]
      by (simp add: on_course_def in_outage_def monitor_ping_clear_def)
    ultimately show ?thesis using r armed(4) fixed ev1 by simp
  qed
qed

lemma timeout_course:
  assumes "monitor_handle_ping_timeout now c s w = Some (r, c', s', w')"
    and "on_course d b c s" and "outage_world d w" and "unat now \<le> anchor s + 4 * d"
    and "pending (shutdown s) \<Longrightarrow> unat now < unat (ss_deadline_ms (shutdown s))"
  shows "if r = MONITOR_STEP_CONTINUE
    then on_course d b c' s' \<and> in_outage d b c' s' now \<and> (waiting (ping s') \<longrightarrow> now < ps_deadline_ms (ping s')) \<and>
      ctx_fixed c' = ctx_fixed c \<and> clock_used 2 w w' \<and> events Cls_spawn w' = events Cls_spawn w
    else r = MONITOR_STEP_STOP \<and> shut_down c w w'"
proof (cases "monitor_ping_deadline_elapsed s now")
  case True
  with lost_course [OF assms(1) True assms(2,3)] assms(4,5) show ?thesis by (auto split: if_splits)
next
  case False
  then have "(r, c', s', w') = (MONITOR_STEP_CONTINUE, c, s, w)"
    using assms(1) by (auto elim: ping_timeout_cases)
  moreover have "waiting (ping s) \<longrightarrow> now < ps_deadline_ms (ping s)"
    using False by (auto simp: monitor_ping_deadline_elapsed_def)
  moreover have "in_outage d b c s now"
    using assms(2,4,5) by (auto simp: in_outage_def on_course_def anchor_def)
  ultimately show ?thesis using assms(2) by simp
qed

text \<open>In an outage the next probe leaves the host, and its reply deadline and successor fit.\<close>

lemma outage_probe_sent:
  assumes "monitor_inv c s" and "outage_world d w"
    and "icmp_pinger_send_echo (pinger c) (dest_addr c) (dest_addr_len c) (cached_pid c) 64 w = (err, p, w1)"
  shows "err = None"
  using send_echo_wire [OF _ _ _ _ _ assms(3)] assms(1,2)
  by (simp add: monitor_inv_def ctx_wf_def buffer_ready_def outage_world_def dead_network_def)
    (metis snth.simps(1))

lemma advance_in_time:
  assumes "monitor_scheduler_advance s1 now = (ok, s2)" and "next_ping_ms (scheduler s1) \<le> now"
    and "unat now + unat (sc_interval_ms (scheduler s1)) < unat UINT64_MAX"
    and "0 < unat (sc_interval_ms (scheduler s1))"
  shows "ok" and "sc_interval_ms (scheduler s2) = sc_interval_ms (scheduler s1)"
    and "unat (next_ping_ms (scheduler s2)) \<le> unat now + unat (sc_interval_ms (scheduler s1))"
proof -
  have "ok \<and> sc_interval_ms (scheduler s2) = sc_interval_ms (scheduler s1) \<and>
      unat (next_ping_ms (scheduler s2)) \<le> unat now + unat (sc_interval_ms (scheduler s1))"
    using assms(1)
  proof (cases rule: scheduler_advance_cases)
    case (advanced nxt)
    then show ?thesis using assms(2) by (auto simp: word_le_nat_alt)
  next
    case overflow
    then show ?thesis using assms(3,4) by simp
  qed
  then show "ok" "sc_interval_ms (scheduler s2) = sc_interval_ms (scheduler s1)"
    "unat (next_ping_ms (scheduler s2)) \<le> unat now + unat (sc_interval_ms (scheduler s1))" by simp_all
qed

text \<open>The next probe is sent and its reply awaited.\<close>

lemma send_course:
  assumes "monitor_handle_scheduler now 64 c s w = Some (r, c', s', w')"
    and course: "on_course d b c s" and out: "in_outage d b c s now"
    and wait: "waiting (ping s) \<longrightarrow> now < ps_deadline_ms (ping s)" and world: "outage_world d w"
  shows "r = MONITOR_STEP_CONTINUE \<and> on_course d b c' s' \<and> unat now < anchor s' \<and>
    (pending (shutdown s') \<longrightarrow> unat now < unat (ss_deadline_ms (shutdown s'))) \<and>
    ctx_fixed c' = ctx_fixed c \<and> mono_in w' = mono_in w \<and> events Cls_spawn w' = events Cls_spawn w"
proof (cases "monitor_ping_waiting s \<or> \<not> monitor_scheduler_due s now")
  case True
  then have "(r, c', s', w') = (MONITOR_STEP_CONTINUE, c, s, w)"
    using assms(1) by (simp add: monitor_handle_scheduler_def)
  then show ?thesis
    using True course out wait
    by (auto simp: monitor_ping_waiting_def monitor_scheduler_due_def anchor_def in_outage_def
        word_less_nat_alt word_le_nat_alt)
next
  case go: False
  then have idle: "\<not> waiting (ping s)" and due: "next_ping_ms (scheduler s) \<le> now"
    by (simp_all add: monitor_ping_waiting_def monitor_scheduler_due_def)
  have cfg: "outage_config d b (config c)" and inv: "monitor_inv c s" using course by (simp_all add: on_course_def)
  have fits: "unat now + cycle_of d (config c) < unat UINT64_MAX"
    using in_outage_bound [OF course out idle] cfg by (simp add: outage_config_def)
  have timeout: "unat (word_of_int (timeout_ms (config c)) :: u64) = timeout_of (config c)" "0 < timeout_of (config c)"
    using cfg by (simp_all add: unat_of_int_u64_small outage_config_def int_fields_fit_def timeout_of_def)
  obtain err p w1 where send: "icmp_pinger_send_echo (pinger c) (dest_addr c) (dest_addr_len c) (cached_pid c) 64 w
      = (err, p, w1)" by (metis prod_cases3)
  have none: "err = None" by (rule outage_probe_sent [OF inv world send])
  obtain ok s1 where arm: "monitor_ping_arm s now (word_of_int (timeout_ms (config c))) (sequence p) = (ok, s1)"
    by fastforce
  have ok: "ok"
    using ping_timer.arm_succeeds_iff [of s now "word_of_int (timeout_ms (config c))" "sequence p"] arm fits timeout
    by (simp add: cycle_of_def)
  note armed = arm_effect [OF arm [unfolded eqTrueI [OF ok]]]
  have shut: "shutdown s1 = shutdown s" using arm by (auto simp: monitor_ping_arm_def Let_def split: if_splits)
  obtain ok2 s2 where adv: "monitor_scheduler_advance s1 now = (ok2, s2)" by fastforce
  have interval: "unat (sc_interval_ms (scheduler s1)) = interval_of (config c)" "next_ping_ms (scheduler s1) \<le> now"
    using armed due course by (simp_all add: on_course_def)
  have nxt: "ok2" "sc_interval_ms (scheduler s2) = sc_interval_ms (scheduler s1)"
    "unat (next_ping_ms (scheduler s2)) \<le> unat now + interval_of (config c)"
    using advance_in_time [OF adv interval(2)] interval(1) fits cfg
    by (simp_all add: cycle_of_def outage_config_def interval_of_def)
  have "monitor_send_ping now 64 c s w = Some (MONITOR_STEP_CONTINUE, c\<lparr>pinger := p\<rparr>, s1, w1)"
    using send none arm ok by (simp add: monitor_send_ping_def)
  then have res: "r = MONITOR_STEP_CONTINUE" "c' = c\<lparr>pinger := p\<rparr>" "s' = s2" "w' = w1"
    using assms(1) go adv nxt by (auto simp: monitor_handle_scheduler_def)
  have "monitor_inv c' s'" using scheduler_handler.inv [OF assms(1) inv] .
  moreover have "events Cls_spawn w' = events Cls_spawn w"
    unfolding res(4) by (rule later_events [OF send_echo_later [OF send later_refl [of "{Cls_packet}"]]]) simp_all
  moreover have "reply_due d b c' = reply_due d b c" by (simp add: reply_due_def res(2))
  ultimately show ?thesis
    using res armed shut nxt timeout course out idle advance_keeps [OF adv] send_echo_clock [OF send]
      scheduler_handler.fixed [OF assms(1)]
    by (simp add: on_course_def in_outage_def anchor_def)
qed

lemma due_work_course:
  assumes run: "monitor_run_due_work now 64 c s w = Some (r, c', s', w')"
    and course: "on_course d b c s" and world: "outage_world d w" and now: "unat now \<le> anchor s + 4 * d"
  shows "if r = MONITOR_STEP_CONTINUE
    then on_course d b c' s' \<and> unat now < anchor s' \<and>
      (pending (shutdown s') \<longrightarrow> unat now < unat (ss_deadline_ms (shutdown s'))) \<and>
      ctx_fixed c' = ctx_fixed c \<and> clock_used 2 w w' \<and> events Cls_spawn w' = events Cls_spawn w
    else r = MONITOR_STEP_STOP \<and> ctx_fixed c' = ctx_fixed c \<and> shut_down c w w'"
proof -
  note fixed = due_work.fixed [OF run]
  obtain stop c1 s1 w1 where tick: "shutdown_fsm_handle_tick now c s w = Some (stop, c1, s1, w1)"
    using run unfolding monitor_run_due_work_def by (auto simp: Option.bind_eq_Some_conv)
  note t = tick_course [OF tick course world]
  show ?thesis
  proof (cases "pending (shutdown s) \<and> ss_deadline_ms (shutdown s) \<le> now")
    case True
    with t run tick fixed show ?thesis by (simp add: monitor_run_due_work_def)
  next
    case False
    with t have same: "stop = False" "c1 = c" "s1 = s" "w1 = w" by auto
    obtain r2 c2 s2 w2 where dog: "monitor_handle_watchdog now c s w = Some (r2, c2, s2, w2)"
      using run tick same unfolding monitor_run_due_work_def by (auto simp: Option.bind_eq_Some_conv)
    note k = watchdog_course [OF dog course]
    obtain r3 c3 s3 w3 where out: "monitor_handle_ping_timeout now c2 s2 w2 = Some (r3, c3, s3, w3)"
      using run tick same dog k unfolding monitor_run_due_work_def by (auto simp: Option.bind_eq_Some_conv)
    have world2: "outage_world d w2" by (rule outage_world_later [OF world watchdog_handler.later [OF dog]])
    have pend: "pending (shutdown s2) \<Longrightarrow> unat now < unat (ss_deadline_ms (shutdown s2))"
      using False k by (simp add: word_less_nat_alt word_le_nat_alt)
    note p = timeout_course [OF out conjunct1 [OF conjunct2 [OF k]] world2 _ pend]
    have used: "clock_used 2 w w3" if "clock_used 2 w2 w3"
      using that k by (simp add: clock_used_def)
    show ?thesis
    proof (cases "r3 = MONITOR_STEP_CONTINUE")
      case True
      then have send: "monitor_handle_scheduler now 64 c3 s3 w3 = Some (r, c', s', w')"
        using run tick same dog k out by (simp add: monitor_run_due_work_def)
      have world3: "outage_world d w3" by (rule outage_world_later [OF world2 ping_timeout.later [OF out]])
      have "anchor s2 = anchor s" using k by (simp add: anchor_def)
      with True p now have q: "on_course d b c3 s3" "in_outage d b c3 s3 now"
        "waiting (ping s3) \<longrightarrow> now < ps_deadline_ms (ping s3)" "clock_used 2 w2 w3"
        "events Cls_spawn w3 = events Cls_spawn w2" by simp_all
      from send_course [OF send q(1-3) world3] q(5) k used [OF q(4)] fixed show ?thesis
        by (simp add: clock_used_def)
    next
      case False
      then have "r = r3" "w' = w3" using run tick same dog k out by (simp_all add: monitor_run_due_work_def)
      moreover have "anchor s2 = anchor s" using k by (simp add: anchor_def)
      ultimately show ?thesis
        using False p now k fixed shutdown_events_fixed [of c2 c] by (simp add: shut_down_def)
    qed
  qed
qed

text \<open>The wait brings nothing.\<close>

lemma drain_course:
  assumes "monitor_drain_icmp_replies now c s w = Some (r, c', s', w')" and "outage_world d w"
  shows "r = MONITOR_STEP_CONTINUE \<and> c' = c \<and> s' = s \<and> mono_in w' = mono_in w \<and>
    events Cls_spawn w' = events Cls_spawn w"
proof -
  obtain v where r: "sys_recvfrom RECV_BUF_SIZE w = (Inl EAGAIN, v)" "mono_in v = mono_in w" "trace v = trace w"
    using assms(2) by (simp add: sys_recvfrom_def outage_world_def dead_network_def)
      (metis snth.simps(1) sum.simps(5))
  have "drain_loop (Suc m) now reply c s w = Some (MONITOR_STEP_CONTINUE, c, s, v)" for m reply
    using r(1) by (simp add: icmp_pinger_receive_reply_def)
  from this [of 31] assms(1) r(2,3) show ?thesis
    by (simp add: monitor_drain_icmp_replies_def OPENUPS_MAX_REPLY_DRAIN_PER_TICK_def events_def)
qed

lemma poll_course:
  assumes run: "monitor_handle_poll_events channel f0 f1 now c s w = Some ((r, g0, g1, t), c', s', w')"
    and world: "outage_world d w" and "revents f0 = 0" "revents f1 = 0"
  shows "r = MONITOR_STEP_CONTINUE \<and> c' = c \<and> s' = s \<and> revents g0 = 0 \<and> revents g1 = 0 \<and>
    clock_used 1 w w' \<and> events Cls_spawn w' = events Cls_spawn w"
proof -
  obtain res h0 h1 w1 where p: "poll_fds (monitor_state_wait_timeout s now) f0 f1 w = (res, h0, h1, w1)"
    by (metis prod_cases4)
  obtain ok t1 w2 where m: "monitor_refresh_time now w1 = (ok, t1, w2)" by (metis prod_cases3)
  have l1: "later {Cls_wait} w w1" by (rule poll_fds_later [OF p])
  have l2: "later {Cls_wait} w w2" by (rule monitor_refresh_time_later [OF m l1])
  have world2: "outage_world d w2" by (rule outage_world_later [OF world l2])
  have "quiet_poll (shd (poll_in w))" using world by (metis dead_network_def outage_world_def snth.simps(1))
  then have quiet: "case res of Inl e \<Rightarrow> e = EINTR | Inr _ \<Rightarrow> True"
    "\<not> pollfd_has_error (revents h0)" "\<not> pollfd_has_error (revents h1)" "revents h0 AND POLLIN = 0"
    using p assms(3,4)
    by (auto simp: poll_fds_def sys_poll_def quiet_poll_def pollfd_has_error_def split: sum.splits)
  obtain u where u: "get_monotonic_ms w1 = (u, w2)"
    using m by (auto simp: monitor_refresh_time_def Let_def split: prod.splits if_splits)
  have clock: "clock_used 1 w w2"
    using get_monotonic_ms_used [OF _ u, of d] world poll_fds_clock [OF p]
    by (simp add: outage_world_def steady_cong [OF poll_fds_clock [OF p]] clock_used_cong [OF poll_fds_clock [OF p]])
  have ev: "events Cls_spawn w2 = events Cls_spawn w" by (rule later_events [OF l2]) simp
  note run' = run [unfolded monitor_handle_poll_events_def p prod.case m]
  show ?thesis
  proof (cases "revents h1 AND POLLIN = 0")
    case True
    with run' quiet clock ev show ?thesis by (auto split: sum.splits)
  next
    case False
    with run' quiet obtain q c2 s2 w3 where d: "monitor_drain_icmp_replies t1 c s w2 = Some (q, c2, s2, w3)"
      by (auto simp: Option.bind_eq_Some_conv split: sum.splits)
    from drain_course [OF d world2] d False run' quiet clock ev show ?thesis
      by (auto simp: clock_used_def split: sum.splits)
  qed
qed

section \<open>The loop in an outage\<close>

text \<open>What holds before every iteration.\<close>

definition outage_loop :: "nat \<Rightarrow> nat \<Rightarrow> reactor_state \<Rightarrow> bool" where
  "outage_loop d b = (\<lambda>(c, l, w).
     on_course d b c (loop_state l) \<and> outage_world d w \<and> packet_len l = 64 \<and>
     revents (fds0 l) = 0 \<and> revents (fds1 l) = 0 \<and>
     reading w 0 \<le> anchor (loop_state l) + 4 * d \<and> reading w 0 \<le> outage_end d b (config c) + 4 * d)"

lemma outage_refresh:
  assumes "outage_loop d b (c, l, w)" and "monitor_refresh_time (now_ms l) w = (ok, now, w1)"
  shows "unat now = reading w 0" and "clock_used 1 w w1" and "mono_in w1 = sdrop 1 (mono_in w)"
    and "outage_world d w1" and "events Cls_spawn w1 = events Cls_spawn w"
proof -
  from assms(1) have world: "outage_world d w" and cfg: "outage_config d b (config c)"
    and r: "reading w 0 \<le> outage_end d b (config c) + 4 * d"
    by (auto simp: outage_loop_def on_course_def)
  obtain u where u: "get_monotonic_ms w = (u, w1)" and now: "u \<noteq> UINT64_MAX \<Longrightarrow> now = u"
    using assms(2) by (auto simp: monitor_refresh_time_def Let_def split: prod.splits if_splits)
  from world have steady: "steady d w" by (simp add: outage_world_def)
  note s = steady_read [OF steady u]
  from r cfg s(1) have "u \<noteq> UINT64_MAX" by (auto simp: u64_eq_max_iff outage_config_def cycle_of_def)
  with now s show "unat now = reading w 0" "mono_in w1 = sdrop 1 (mono_in w)" by simp_all
  show "clock_used 1 w w1" by (rule get_monotonic_ms_used [OF steady u])
  have l: "later {Cls_text} w w1" by (rule monitor_refresh_time_later [OF assms(2) later_refl])
  show "outage_world d w1" by (rule outage_world_later [OF world l])
  show "events Cls_spawn w1 = events Cls_spawn w" by (rule later_events [OF l]) simp
qed

text \<open>
  An iteration ends the loop with the shutdown executed, or uses up some readings of the clock,
  which is then still before the end of the outage.
\<close>

lemma outage_iteration:
  assumes "outage_loop d b (c, l, w)"
  obtains (shut) c' l' w' where "reactor_body (c, l, w) = Some (Some OPENUPS_EXIT_SUCCESS, c', l', w')"
      "ctx_fixed c' = ctx_fixed c" "shut_down c w w'" "signals l' = signals l"
  | (on) c' l' w' k where "reactor_body (c, l, w) = Some (None, c', l', w')" "outage_loop d b (c', l', w')"
      "ctx_fixed c' = ctx_fixed c" "events Cls_spawn w' = events Cls_spawn w" "signals l' = signals l"
      "mono_in w' = sdrop k (mono_in w)" "0 < k" "k \<le> 4" "reading w 0 \<le> outage_end d b (config c)"
proof -
  from assms have course: "on_course d b c (loop_state l)" and world: "outage_world d w"
    and len: "packet_len l = 64" and fds: "revents (fds0 l) = 0" "revents (fds1 l) = 0"
    and at: "reading w 0 \<le> anchor (loop_state l) + 4 * d"
    by (auto simp: outage_loop_def)
  have go: "\<not> stop_flag c" using course by (simp add: on_course_def)
  from world have fair: "fair w" by (simp add: outage_world_def)
  obtain r c' l' w' where body: "reactor_body (c, l, w) = Some (r, c', l', w')"
    using reactor_body_total [OF fair, of c l] by (fastforce simp: returns_def)
  from body show thesis
  proof (cases rule: reactor_body_cases)
    case stopped
    with go show thesis by simp
  next
    case (due ok now w1 x s1)
    note t = outage_refresh [OF assms due(2)]
    note e = due_work_course [OF due(3) [unfolded len] course t(4)]
    from e at t(1) due(4) have "x = MONITOR_STEP_STOP" "shut_down c w1 w'" "ctx_fixed c' = ctx_fixed c"
      by simp_all
    with due body t(5) show thesis by (intro shut [of c' l' w']) (simp_all add: shut_down_def)
  next
    case (polled ok now w1 c1 s1 w2 x f0 f1 u s2)
    note t = outage_refresh [OF assms polled(2)]
    have e: "on_course d b c1 s1" "unat now < anchor s1" "clock_used 2 w1 w2"
      "pending (shutdown s1) \<Longrightarrow> unat now < unat (ss_deadline_ms (shutdown s1))"
      "ctx_fixed c1 = ctx_fixed c" "events Cls_spawn w2 = events Cls_spawn w1"
      using due_work_course [OF polled(3) [unfolded len] course t(4)] at t(1) by simp_all
    have world2: "outage_world d w2" by (rule outage_world_later [OF t(4) due_work.later [OF polled(3)]])
    have q: "x = MONITOR_STEP_CONTINUE" "c' = c1" "s2 = s1" "revents f0 = 0" "revents f1 = 0"
      "clock_used 1 w2 w'" "events Cls_spawn w' = events Cls_spawn w2"
      using poll_course [OF polled(4) world2 fds] by simp_all
    have "unat now \<le> reply_due d b c1" if "\<not> pending (shutdown s1)"
      using that e(1,2) by (auto simp: on_course_def anchor_def split: if_splits)
    then have now: "unat now \<le> outage_end d b (config c)"
      using e(1,4) reply_due_bound [of c1 d b] ctx_fixed_parts(1) [OF e(5)]
      by (cases "pending (shutdown s1)") (auto simp: on_course_def monitor_inv_def)
    obtain i j where ij: "i \<le> 2" "j \<le> 1" "mono_in w2 = sdrop i (mono_in w1)" "mono_in w' = sdrop j (mono_in w2)"
      using e(3) q(6) by (elim clock_usedE) blast
    have k: "mono_in w' = sdrop (1 + i + j) (mono_in w)" unfolding ij(3,4) t(3) by (simp only: sdrop_add)
    have "clock_used 4 w w'" by (rule clock_usedI [OF k]) (use ij in simp)
    then have "reading w' 0 \<le> unat now + 4 * d"
      using steady_used(3) [of d w 4 w'] world t(1) by (simp add: outage_world_def)
    moreover have "outage_world d w'"
      by (rule outage_world_later [OF world2 poll_handler.later [OF polled(4)]])
    ultimately have "outage_loop d b (c', l', w')"
      using e q polled(5) len now ctx_fixed_parts(1) [OF e(5)] by (simp add: outage_loop_def)
    with body polled e(5,6) q k ij(1,2) now t(1,5) show thesis
      by (intro on [of c' l' w' "1 + i + j"]) simp_all
  qed
qed

text \<open>The clock passes the end of the outage, so the loop ends before.\<close>

lemma outage_loop_ends:
  assumes "outage_loop d b (c, l, w)" and "outage_end d b (config c) + 4 * d < reading w n"
  shows "\<exists>c' l' w'. loop_until reactor_body (c, l, w) = Some (OPENUPS_EXIT_SUCCESS, c', l', w') \<and>
    ctx_fixed c' = ctx_fixed c \<and> shut_down c w w' \<and> signals l' = signals l"
  using assms
proof (induction n arbitrary: c l w rule: less_induct)
  case (less n)
  from less.prems(1) show ?case
  proof (cases rule: outage_iteration)
    case (shut c' l' w')
    then show ?thesis by (subst loop_until.simps) simp
  next
    case (on c' l' w' k)
    have steady: "steady d w" using less.prems(1) by (simp add: outage_loop_def outage_world_def)
    have "k \<le> n"
    proof (rule ccontr)
      assume "\<not> k \<le> n"
      then have "n \<le> 4" using on(8) by simp
      then have "reading w n \<le> reading w 4" by (rule steady_le [OF steady])
      also have "\<dots> \<le> reading w 0 + 4 * d" using steady_step [OF steady, of 0 4] by simp
      finally show False using on(9) less.prems(2) by simp
    qed
    then have "reading w' (n - k) = reading w n" by (simp add: reading_sdrop [OF on(6)])
    with on(3,7) \<open>k \<le> n\<close> less.prems(2) less.IH [OF _ on(2), of "n - k"] ctx_fixed_parts(1) [OF on(3)]
    obtain c2 l2 w2 where "loop_until reactor_body (c', l', w') = Some (OPENUPS_EXIT_SUCCESS, c2, l2, w2)"
      "ctx_fixed c2 = ctx_fixed c'" "shut_down c' w' w2" "signals l2 = signals l'" by auto
    with on shutdown_events_fixed [OF on(3)] show ?thesis
      by (subst loop_until.simps) (simp add: shut_down_def)
  qed
qed

section \<open>The run in an outage\<close>

text \<open>The signals can be blocked and their descriptor opened.\<close>

definition signals_available :: "world \<Rightarrow> bool" where
  "signals_available w \<longleftrightarrow>
     (\<forall>n. sigprocmask_in w !! n = None \<and> (\<exists>fd. signalfd_in w !! n = Inr fd))"

lemma signals_available_later: "signals_available w \<Longrightarrow> later K w w' \<Longrightarrow> signals_available w'"
  using later_streams [of K w w']
  by (auto simp: signals_available_def streams_later_def tail_of_def sdrop_snth)

text \<open>When the reply to the first probe is due at the latest.\<close>

definition first_due :: "nat \<Rightarrow> config_t \<Rightarrow> world \<Rightarrow> nat" where
  "first_due d cfg w = reading w 0 + timeout_of cfg + 4 * d"

lemma config_interval_ms_exact:
  assumes "int_fields_fit cfg" and "0 < interval_sec cfg"
  shows "unat (config_interval_ms cfg) = interval_of cfg"
proof -
  have i: "unat (word_of_int (interval_sec cfg) :: u64) = nat (interval_sec cfg)"
    using assms by (simp add: unat_of_int_u64_small int_fields_fit_def)
  have "interval_sec cfg \<le> 2147483647" using assms(1) by (simp add: int_fields_fit_def INT_MAX_def)
  then have "nat (interval_sec cfg) * 1000 < 2 ^ 64" by simp
  then obtain r where r: "ckd_mul (word_of_int (interval_sec cfg)) OPENUPS_MS_PER_SEC = Some r"
    by (simp add: ckd_mul_def i OPENUPS_MS_PER_SEC_def)
  then have "unat r = nat (interval_sec cfg) * 1000"
    by (simp add: ckd_mul_Some_iff i OPENUPS_MS_PER_SEC_def)
  with assms(2) r show ?thesis
    by (simp add: config_interval_ms_def config_duration_ms_def interval_of_def)
qed

lemma signal_channel_init_ok:
  assumes "signals_available w"
  shows "\<exists>ch v. signal_channel_init lg w = (True, ch, v) \<and> mono_in v = mono_in w"
proof -
  obtain fd where sig: "shd (sigprocmask_in w) = None" "shd (signalfd_in w) = Inr fd"
    using assms unfolding signals_available_def by (metis snth.simps(1))
  then obtain u where u: "sys_sigprocmask (Signals_blocked [SIGINT, SIGTERM, SIGUSR1]) w = (None, u)"
    "mono_in u = mono_in w" "signalfd_in u = signalfd_in w"
    by (simp add: sys_sigprocmask_def emit_def)
  then obtain v where "sys_signalfd u = (Inr (int fd), v)" "mono_in v = mono_in u"
    using sig by (simp add: sys_signalfd_def emit_def)
  with u show ?thesis by (simp add: signal_channel_init_def Let_def)
qed

lemma monitor_log_startup_clock:
  assumes "monitor_log_startup c w = Some (c', w')" and "steady d w"
  shows "clock_used 1 w w'"
proof -
  from assms(1) obtain ok c1 v w1 where n: "monitor_notify_ready c v = Some (ok, c1, w1)" "mono_in v = mono_in w"
    and s: "ctx_notify_status (''Monitoring '' @ target (config c1)) c1 w1 = Some (c', w')"
    unfolding monitor_log_startup_def Let_def by (auto simp: Option.bind_eq_Some_conv)
  have "mono_in w1 = mono_in w"
    using n
    by (auto simp: monitor_notify_ready_def Let_def dest!: notify_flag_clock(1) split: if_splits bind_splits)
  from status_after_text_clock [OF s this assms(2)] show ?thesis .
qed

text \<open>The loop is set up at the first reading.\<close>

lemma loop_init_ok:
  assumes "ctx_ready c" and world: "outage_world d w" and sig: "signals_available w"
    and cfg: "outage_config d b (config c)" and early: "reading w 0 \<le> b"
  obtains buf l w1 where
    "monitor_loop_init c w = (True, c\<lparr>pinger := (pinger c)\<lparr>send_buf := buf\<rparr>\<rparr>, l, w1)" "buffer_ready buf"
    "anchor (loop_state l) = reading w 0" "unat (next_ping_ms (scheduler (loop_state l))) = reading w 0"
    "unat (sc_interval_ms (scheduler (loop_state l))) = interval_of (config c)"
    "packet_len l = 64" "revents (fds0 l) = 0" "revents (fds1 l) = 0" "clock_used 1 w w1"
proof -
  obtain ch v where ch: "signal_channel_init (logger c) w = (True, ch, v)" "mono_in v = mono_in w"
    using signal_channel_init_ok [OF sig] by blast
  obtain buf where p: "monitor_prepare_packet c = (True, c\<lparr>pinger := (pinger c)\<lparr>send_buf := buf\<rparr>\<rparr>, 64)"
    and buf: "buffer_ready buf"
    using assms(1) by (auto simp: ctx_ready_def SEND_BUF_SIZE_def elim: monitor_prepare_packet_effect)
  obtain ok now w1 where t: "monitor_refresh_time 0 v = (ok, now, w1)" by (metis prod_cases3)
  have steady: "steady d v" using world by (simp add: outage_world_def steady_cong [OF ch(2)])
  obtain u where u: "get_monotonic_ms v = (u, w1)" and now: "u \<noteq> UINT64_MAX \<Longrightarrow> ok \<and> now = u"
    using t by (auto simp: monitor_refresh_time_def Let_def split: prod.splits if_splits)
  have u0: "unat u = reading w 0" using steady_read(1) [OF steady u] by (simp add: reading_def ch(2))
  then have "u \<noteq> UINT64_MAX"
    using cfg early by (auto simp: u64_eq_max_iff outage_config_def outage_end_def)
  with now u0 have now: "ok" "unat now = reading w 0" by simp_all
  have iv: "unat (config_interval_ms (config c)) = interval_of (config c)"
    using cfg by (simp add: config_interval_ms_exact outage_config_def)
  have iv_ok: "config_interval_ms (config c) \<noteq> 0" "config_interval_ms (config c) \<noteq> UINT64_MAX"
    using cfg iv by (auto simp: outage_config_def interval_of_def cycle_of_def u64_eq_max_iff)
  define l where "l = loop_zero\<lparr>signals := ch, packet_len := 64, now_ms := now,
    loop_state := monitor_state_init now (config_interval_ms (config c))
      (runtime_services_watchdog_interval_ms (services c) (systemd c)),
    fds0 := \<lparr>pf_fd = sig_fd ch, pf_events = POLLIN, revents = 0\<rparr>,
    fds1 := \<lparr>pf_fd = sockfd (pinger c), pf_events = POLLIN, revents = 0\<rparr>\<rparr>"
  have "monitor_loop_init c w = (True, c\<lparr>pinger := (pinger c)\<lparr>send_buf := buf\<rparr>\<rparr>, l, w1)"
    using now iv_ok by (simp add: monitor_loop_init_def ch p t l_def Let_def)
  moreover have "clock_used 1 w w1"
    using get_monotonic_ms_used [OF steady u] by (simp add: clock_used_cong [OF ch(2)])
  ultimately show thesis
    using that [of buf l w1] buf now(2) iv
    by (simp add: l_def anchor_def monitor_state_init_def)
qed

text \<open>The loop starts on course.\<close>

lemma outage_start:
  assumes ready: "ctx_ready c" and world: "outage_world d w" and sig: "signals_available w"
    and cfg: "outage_config d b (config c)" and early: "first_due d (config c) w \<le> b"
  obtains c1 l w1 c2 w2 where "monitor_loop_init c w = (True, c1, l, w1)"
    "monitor_log_startup c1 w1 = Some (c2, w2)" "ctx_fixed c2 = ctx_fixed c"
    "outage_loop d b (c2, l, w2)" "events Cls_spawn w2 = events Cls_spawn w"
proof -
  have "reading w 0 \<le> b" using early by (simp add: first_due_def)
  with ready world sig cfg obtain buf l w1 where
    init: "monitor_loop_init c w = (True, c\<lparr>pinger := (pinger c)\<lparr>send_buf := buf\<rparr>\<rparr>, l, w1)"
      "buffer_ready buf"
    and l: "anchor (loop_state l) = reading w 0" "unat (next_ping_ms (scheduler (loop_state l))) = reading w 0"
      "unat (sc_interval_ms (scheduler (loop_state l))) = interval_of (config c)"
      "packet_len l = 64" "revents (fds0 l) = 0" "revents (fds1 l) = 0" "clock_used 1 w w1"
    by (rule loop_init_ok)
  define c1 where "c1 = c\<lparr>pinger := (pinger c)\<lparr>send_buf := buf\<rparr>\<rparr>"
  have buf256: "length (send_buf (pinger c)) = 256" using ready by (simp add: ctx_ready_def SEND_BUF_SIZE_def)
  note e = monitor_loop_init_effect [OF init(1) buf256]
  from e(4) have st: "monitor_state_wf (loop_state l)" "\<not> pending (shutdown (loop_state l))"
    "\<not> waiting (ping (loop_state l))" by auto
  have world1: "outage_world d w1" by (rule outage_world_later [OF world e(1)])
  then obtain c2 w2 where up: "monitor_log_startup c1 w1 = Some (c2, w2)"
    using monitor_log_startup_total [of w1 c1] by (auto simp: outage_world_def elim: returnsE)
  note n = only_notified_keeps [OF monitor_log_startup_effect [OF up]]
  note s = ctx_ready_start [OF ready c1_def init(2) monitor_log_startup_effect [OF up] st(1,2)]
  have c2: "consecutive_fails c2 = 0" "\<not> stop_flag c2" "config c2 = config c"
    using n(2,5) ready ctx_fixed_parts(1) [OF s(2)] by (simp_all add: ctx_ready_def c1_def)
  have "clock_used 2 w w2"
    using clock_used_trans [OF l(7) monitor_log_startup_clock [OF up, of d]] world1
    by (simp add: outage_world_def numeral_2_eq_2)
  then have at: "reading w2 0 \<le> reading w 0 + 2 * d"
    using steady_used(3) [of d w 2 w2] world by (simp add: outage_world_def)
  have "on_course d b c2 (loop_state l)"
    using s(1) st l c2 cfg early by (simp add: on_course_def reply_due_def first_due_def outage_config_def)
  moreover have "outage_world d w2" by (rule outage_world_later [OF world1 n(6)])
  ultimately have "outage_loop d b (c2, l, w2)"
    using at l early c2(3) by (simp add: outage_loop_def outage_end_def first_due_def)
  moreover have "events Cls_spawn w2 = events Cls_spawn w"
    by (simp add: later_events [OF n(6)] later_events [OF e(1)])
  ultimately show thesis using init(1) up s(2) that unfolding c1_def by blast
qed

lemma outage_run_shuts_down:
  assumes ready: "ctx_ready c" and world: "outage_world d w" and sig: "signals_available w"
    and cfg: "outage_config d b (config c)" and early: "first_due d (config c) w \<le> b"
  shows "\<exists>c' w'. openups_reactor_run c w = Some (OPENUPS_EXIT_SUCCESS, c', w') \<and> shut_down c w w'"
proof -
  from ready world sig cfg early obtain c1 l w1 c2 w2 where
    init: "monitor_loop_init c w = (True, c1, l, w1)" and up: "monitor_log_startup c1 w1 = Some (c2, w2)"
    and fixed: "ctx_fixed c2 = ctx_fixed c" and loop: "outage_loop d b (c2, l, w2)"
    and ev: "events Cls_spawn w2 = events Cls_spawn w"
    by (rule outage_start)
  have fair: "fair w2" and "outage_end d b (config c2) + 4 * d < 2 ^ 64 - 1"
    using loop by (auto simp: outage_loop_def outage_world_def on_course_def outage_config_def cycle_of_def)
  then obtain n where "outage_end d b (config c2) + 4 * d < reading w2 n" using steady_passes by blast
  from outage_loop_ends [OF loop this] obtain c3 l3 w3 where
    run: "loop_until reactor_body (c2, l, w2) = Some (OPENUPS_EXIT_SUCCESS, c3, l3, w3)"
    and shut: "shut_down c2 w2 w3" by blast
  have "reactor_inv (c2, l, w2)" using loop by (simp add: outage_loop_def on_course_def reactor_inv_def)
  from reactor_loop_step [OF run this] have "later handler_events w2 w3" by (simp add: reactor_step_def)
  then have "fair w3" by (rule fair_later [OF fair])
  then obtain c4 w4 where down: "monitor_log_shutdown OPENUPS_EXIT_SUCCESS c3 w3 = Some (c4, w4)"
    using monitor_log_shutdown_total [of w3 OPENUPS_EXIT_SUCCESS c3] by (auto elim: returnsE)
  obtain l5 w5 where x: "signal_channel_destroy (signals l3) (logger c4) w4 = (l5, w5)" by fastforce
  have "events Cls_spawn w5 = events Cls_spawn w4" "events Cls_spawn w4 = events Cls_spawn w3"
    using later_events [OF signal_channel_destroy_effect(1) [OF x]]
      later_events [OF only_notified_keeps(6) [OF monitor_log_shutdown_effect [OF down]]] by simp_all
  with shut ev shutdown_events_fixed [OF fixed] have "shut_down c w w5" by (simp add: shut_down_def)
  moreover have "openups_reactor_run c w = Some (OPENUPS_EXIT_SUCCESS, c4, w5)"
    using init up run down x by (simp add: openups_reactor_run_def monitor_loop_destroy_def)
  ultimately show ?thesis by blast
qed

section \<open>What an outage leads to\<close>


lemma sample_reading: "reading sample_world n = min (n * 1000) (2 ^ 64 - 1)"
proof -
  let ?s = "min (int n) (2 ^ 63 - 1)"
  have "reading sample_world n = unat (timespec_ms \<lparr>tv_sec = ?s, tv_nsec = 0\<rparr>)"
    by (simp add: reading_def sample_world_def ticking_clock_def)
  also have "\<dots> = min (nat ?s * 1000) (2 ^ 64 - 1)"
    using monotonic_clock_exact [of "\<lparr>tv_sec = ?s, tv_nsec = 0\<rparr>"] by simp
  also have "\<dots> = min (n * 1000) (2 ^ 64 - 1)" by simp
  finally show ?thesis .
qed

lemma sample_outage_world: "outage_world 1000 sample_world"
proof -
  have "steady 1000 sample_world"
    unfolding steady_def sample_reading by (auto simp: sample_world_def ticking_clock_def)
  moreover have "quiet_poll \<lparr>poll_ret = Inr 0, poll_signal_revents = 0, poll_icmp_revents = 0\<rparr>"
    by (simp add: quiet_poll_def pollfd_has_error_def)
  moreover have "child_verdict pid (Inr (0, 0)) \<noteq> Some SHUTDOWN_RESULT_FAILED" for pid
    by (simp add: child_verdict_def WIFEXITED_def WEXITSTATUS_def WTERMSIG_def)
  ultimately show ?thesis
    by (simp add: outage_world_def dead_network_def command_works_def) (simp add: sample_world_def)
qed


end
