(* ===== verification/OutageProg.thy ===== *)
theory OutageProg
  imports MainProg OutageRun
begin

text \<open>
  The program in an outage: from the command line to the shutdown command. Creating the context
  succeeds when sockets can be opened and reads the clock once, so the reactor starts on the
  course that \<open>OutageRun\<close> follows to its end.
\<close>

section \<open>The clock while the context is created\<close>

definition sockets_available :: "world \<Rightarrow> bool" where
  "sockets_available w \<longleftrightarrow> (\<forall>n. \<exists>fd. socket_in w !! n = Inr fd)"

lemma startup_keeps_clock:
  "mono_in (logger_debug lg m w) = mono_in w" "mono_in (config_print cfg lg w) = mono_in w"
  "mono_in (sys_close fd w) = mono_in w"
  "sys_socket fam ty proto w = (r, w') \<Longrightarrow> mono_in w' = mono_in w"
  by (auto simp: logger_debug_def config_print_def sys_close_def sys_socket_def emit_def Let_def
      split: sum.splits)

lemma connect_retry_clock:
  assumes "connect_retry u w = Some (r, w')"
  shows "mono_in w' = mono_in w"
proof -
  have "mono_in (snd (r, w')) = mono_in w"
    by (rule connect_retry.raw_induct [where P = "\<lambda>_ w y. mono_in (snd y) = mono_in w", OF _ assms])
      (fastforce simp: sys_connect_def emit_def split: if_splits)
  then show ?thesis by simp
qed

lemma services_init_clock:
  "runtime_services_init sd enable w = Some (sv, sd', w') \<Longrightarrow> mono_in w' = mono_in w"
  by (auto simp: runtime_services_init_def systemd_notifier_init_def Let_def startup_keeps_clock
      dest!: startup_keeps_clock(4) connect_retry_clock
      split: if_splits bind_splits option.splits sum.splits prod.splits)

lemma pinger_init_ok:
  assumes "icmp_pinger_init p fam w = (err, p', w')" and "sockets_available w"
  shows "err = None" and "mono_in w' = mono_in w"
proof -
  obtain fd where "shd (socket_in w) = Inr fd"
    using assms(2) unfolding sockets_available_def by (metis snth.simps(1))
  with assms(1) show "err = None" "mono_in w' = mono_in w"
    by (auto simp: icmp_pinger_init_def sys_socket_def sys_attach_filter_def emit_def Let_def split: if_splits)
qed
lemma ctx_init_ok:
  assumes "openups_ctx_init cfg w = Some (failure, ctx, w')" and "steady d w" and "sockets_available w"
    and "resolve_target (host w) (target cfg) = Inr (addr, len)"
  shows "failure = None" and "clock_used 1 w w'"
proof -
  define lg where "lg = logger_init (log_level cfg) (config_log_timestamps_enabled cfg)"
  define w1 where "w1 = (if log_level cfg = LOG_LEVEL_DEBUG then config_print cfg lg w else w)"
  have l1: "later {Cls_text} w w1" by (simp add: w1_def config_print_later)
  have m1: "mono_in w1 = mono_in w" by (simp add: w1_def startup_keeps_clock)
  have sock: "sockets_available w1"
    using assms(3) later_streams [OF l1]
    by (auto simp: sockets_available_def streams_later_def tail_of_def sdrop_snth)
  obtain err p w2 where p: "icmp_pinger_init (pinger ctx_zero) (ss_family addr) w1 = (err, p, w2)"
    by (metis prod_cases3)
  obtain m w3 where m: "metrics_init w2 = (m, w3)" by fastforce
  note ok = pinger_init_ok [OF p sock]
  have clock: "clock_used 1 w w3"
    using m get_monotonic_ms_used [of d w2 _ w3] assms(2)
    by (auto simp: metrics_init_def steady_cong [of w2 w] clock_used_cong [of w2 w] ok(2) m1 split: prod.splits)
  from assms(1,4) p ok(1) m obtain sv sd w4 where
    s: "runtime_services_init (systemd ctx_zero) (enable_systemd cfg) w3 = Some (sv, sd, w4)"
    and r: "failure = None" "mono_in w' = mono_in w4"
    unfolding openups_ctx_init_def Let_def lg_def [symmetric] w1_def [symmetric]
    by (auto simp: later_host [OF l1] Option.bind_eq_Some_conv startup_keeps_clock split: if_splits)
  show "failure = None" by (rule r(1))
  show "clock_used 1 w w'"
    using clock services_init_clock [OF s] r(2) by (simp add: clock_used_def)
qed

section \<open>The program in an outage\<close>

text \<open>
  C2: the program, started with a valid configuration that asks for a shutdown, in a world where
  sockets and signals are available, the probes leave the host and get no reply, the clock advances
  in steps of at most \<open>d\<close> milliseconds and the shutdown command can be started (and as long as the
  whole outage fits 64 bits), returns with exit code 0. In the true-off mode it has then started
  the shutdown command exactly once and nothing else, in the dry-run mode nothing.
\<close>

theorem outage_shuts_program_down:
  assumes "config_resolve argv w = (Inr (cfg, False), w)"
    and "shutdown_mode cfg \<noteq> SHUTDOWN_MODE_LOG_ONLY"
    and "outage_world d w" and "signals_available w" and "sockets_available w"
    and "outage_end d (first_due d cfg w + d) cfg + cycle_of d cfg < 2 ^ 64 - 1"
  shows "\<exists>w' systemctl. main_program argv w = Some (0, w') \<and>
    events Cls_spawn w' = events Cls_spawn w @
      (if shutdown_mode cfg = SHUTDOWN_MODE_TRUE_OFF
       then [Spawned (hd (shutdown_argv systemctl)) (shutdown_argv systemctl) shutdown_envp] else [])"
proof -
  have steady: "steady d w" and fair: "fair w" using assms(3) by (simp_all add: outage_world_def)
  note bounds = config_resolve_bounds(1) [OF assms(1)] and valid = config_resolve_valid(2) [OF assms(1)]
  obtain failure ctx w2 where i: "openups_ctx_init cfg w = Some (failure, ctx, w2)"
    using ctx_init_total [OF fair] by (fastforce simp: returns_def)
  have "\<exists>addr len. resolve_target (host w) (target cfg) = Inr (addr, len)"
    using valid by (auto simp: valid_config_def resolve_target_def Let_def split: option.split)
  then obtain addr len where "resolve_target (host w) (target cfg) = Inr (addr, len)" by blast
  note ok = ctx_init_ok [OF i steady assms(5) this] and e = ctx_init_effect [OF i bounds]
  have ready: "ctx_ready ctx" "config ctx = cfg" using e(2) ok(1) by simp_all
  have "outage_config d (first_due d cfg w + d) (config ctx)"
    using valid bounds assms(2,6) ready(2) by (simp add: outage_config_def valid_config_def)
  moreover have "first_due d (config ctx) w2 \<le> first_due d cfg w + d"
    using steady_used(3) [OF steady ok(2)] ready(2) by (simp add: first_due_def)
  ultimately obtain ctx3 w3 where run: "openups_reactor_run ctx w2 = Some (OPENUPS_EXIT_SUCCESS, ctx3, w3)"
    and shut: "shut_down ctx w2 w3"
    using outage_run_shuts_down [OF ready(1) outage_world_later [OF assms(3) e(1)]
        signals_available_later [OF assms(4) e(1)]] by blast
  obtain ctx4 w4 where x: "openups_ctx_destroy ctx3 w3 = (ctx4, w4)" by fastforce
  have "ctx_wf ctx3"
    using ctx_wf_fixed [OF reactor_run_sound(3) [OF run ready(1)]] ready(1) by (simp add: ctx_ready_def)
  then have "events Cls_spawn w4 = events Cls_spawn w3" "events Cls_spawn w2 = events Cls_spawn w"
    using later_events [OF ctx_destroy_effect(1) [OF x]] later_events [OF e(1)] by simp_all
  moreover have "main_program argv w = Some (0, w4)"
    using assms(1) i ok(1) run x by (simp add: main_program_def OPENUPS_EXIT_SUCCESS_def)
  ultimately show ?thesis
    using shut ready(2)
    by (intro exI [of _ w4] exI [of _ "runtime_services_is_enabled (services ctx)"])
      (simp add: shut_down_def shutdown_events_def Let_def)
qed

text \<open>A host whose environment asks for the true-off mode.\<close>

definition true_off_world :: world where
  "true_off_world = sample_world
     \<lparr>host := sample_host\<lparr>getenv := \<lambda>name. if name = ''OPENUPS_SHUTDOWN_MODE'' then Some ''true-off'' else None\<rparr>\<rparr>"

lemma true_off_world_outage:
  "outage_world 1000 true_off_world" "signals_available true_off_world" "sockets_available true_off_world"
  "reading true_off_world 0 = 0" "events Cls_spawn true_off_world = []"
proof -
  have "outage_world d (w\<lparr>host := h\<rparr>) = outage_world d w" "reading (w\<lparr>host := h\<rparr>) n = reading w n" for d w h n
    by (simp_all add: outage_world_def fair_def steady_def reading_def dead_network_def command_works_def)
  then show "outage_world 1000 true_off_world" "reading true_off_world 0 = 0"
    by (simp_all add: true_off_world_def sample_outage_world sample_reading)
qed (simp_all add: true_off_world_def sample_world_def signals_available_def sockets_available_def events_def)

theorem outage_shuts_program_down_witness:
  "\<exists>w' systemctl. main_program [''openups''] true_off_world = Some (0, w') \<and>
     events Cls_spawn w' = [Spawned (hd (shutdown_argv systemctl)) (shutdown_argv systemctl) shutdown_envp]"
proof -
  have mode: "shutdown_mode_parse_internal (Some ''true-off'') = Some SHUTDOWN_MODE_TRUE_OFF" by code_simp
  have "\<exists>c. config_resolve [''openups''] true_off_world = (Inr (c, False), true_off_world) \<and>
      shutdown_mode c = SHUTDOWN_MODE_TRUE_OFF \<and> timeout_ms c = 2000 \<and> interval_sec c = 10 \<and>
      fail_threshold c = 5 \<and> delay_minutes c = 0"
    by (simp add: config_resolve_def config_load_from_cmdline_def Let_def config_load_from_env_def
        load_env_int_options_def load_env_bool_options_def load_env_int_def load_env_bool_def
        load_env_shutdown_mode_def load_env_log_level_def and_then_def getopt_long_def true_off_world_def sample_world_def
        sample_host_def config_validate_def is_valid_ip_literal_def timeout_fits_interval_def mode
        config_default_fields config_consts ckd_mul_def OPENUPS_MS_PER_SEC_def word_less_nat_alt)
  then obtain c where c: "config_resolve [''openups''] true_off_world = (Inr (c, False), true_off_world)"
    "shutdown_mode c = SHUTDOWN_MODE_TRUE_OFF" "timeout_ms c = 2000" "interval_sec c = 10"
    "fail_threshold c = 5" "delay_minutes c = 0" by blast
  have "outage_end 1000 (first_due 1000 c true_off_world + 1000) c + cycle_of 1000 c < 2 ^ 64 - 1"
    by (simp add: outage_end_def first_due_def true_off_world_outage c cycle_of_def timeout_of_def
        interval_of_def delay_of_def)
  with outage_shuts_program_down [OF c(1) _ true_off_world_outage(1-3)] c(2) true_off_world_outage(5)
  show ?thesis by simp
qed

end
