(* ===== verification/CommandLine.thy ===== *)
theory CommandLine
  imports Config
begin

text \<open>
  The command line of \<open>src/src/config.c\<close> as a whole: the option tables of the program under
  \<open>getopt_long\<close>, and the way from words to a configuration and back. Nothing is modelled here;
  the theory joins the scan of Getopt to the option switch and the resolution of Config.
\<close>

section \<open>The tables of the program\<close>

lemma config_letters:
  "short_kind CONFIG_OPTSTRING c =
     (if c \<in> set ''tinwSDL'' then Some required_argument
      else if c = CHR ''M'' then Some optional_argument
      else if c \<in> set ''vh'' then Some no_argument else None)"
proof (cases "c \<in> set (CHR '':'' # CHR '';'' # ''tinwSDLMvh'')")
  case True
  then consider "c = CHR '':''" | "c = CHR '';''" | "c = CHR ''t''" | "c = CHR ''i''" | "c = CHR ''n''"
    | "c = CHR ''w''" | "c = CHR ''S''" | "c = CHR ''D''" | "c = CHR ''L''" | "c = CHR ''M''"
    | "c = CHR ''v''" | "c = CHR ''h''"
    by (simp only: list.set insert_iff empty_iff) metis
  then show ?thesis by cases (simp_all add: short_kind_def CONFIG_OPTSTRING_def)
next
  case False
  then have "\<forall>d\<in>set CONFIG_OPTSTRING. d \<noteq> c" by (auto simp: CONFIG_OPTSTRING_def)
  then have none: "dropWhile (\<lambda>d. d \<noteq> c) CONFIG_OPTSTRING = []" by (simp only: dropWhile_eq_Nil_conv)
  from False show ?thesis by (simp add: short_kind_def none)
qed

interpretation config_tables: option_tables CONFIG_OPTSTRING CONFIG_LONG_OPTIONS
proof unfold_locales
  have "\<forall>p\<in>set CONFIG_LONG_OPTIONS. short_kind CONFIG_OPTSTRING (lo_val p) = Some (lo_has_arg p) \<and>
      lo_val p \<noteq> CHR 0x00"
    unfolding CONFIG_LONG_OPTIONS_def by (simp add: config_letters)
  then show "p \<in> set CONFIG_LONG_OPTIONS \<Longrightarrow>
      short_kind CONFIG_OPTSTRING (lo_val p) = Some (lo_has_arg p)"
    "p \<in> set CONFIG_LONG_OPTIONS \<Longrightarrow> lo_val p \<noteq> CHR 0x00" for p
    by blast+
  show "short_kind CONFIG_OPTSTRING (CHR ''?'') = None" by (simp add: config_letters)
qed

text \<open>
  C22: whatever the words are, each answer of \<open>getopt_long\<close> to the loop of
  \<open>config_load_from_cmdline\<close> is one the switch is made for: the default case is never reached, an
  option that needs an argument has one, and where the switch prints \<open>argv[optind - 1]\<close> this is
  a word of the vector, the refused one with its two dashes. At the end \<open>optind\<close> lies in the
  vector, which holds the words it held before.
\<close>

theorem options_arrive_well_formed:
  assumes "\<forall>a\<in>set argv. CHR 0x00 \<notin> set a" and "argv \<noteq> []"
  shows "let run = getopt_long h CONFIG_OPTSTRING CONFIG_LONG_OPTIONS argv in
    (\<forall>g\<in>set (go_steps run).
       gs_option g \<in> set ''tinwSDLMvh?'' \<and>
       (gs_option g \<in> set ''tinwSDL'' \<longrightarrow> gs_optarg g \<noteq> None) \<and>
       (gs_option g = CHR ''?'' \<and> gs_optopt g = 0 \<longrightarrow>
          1 \<le> gs_optind g \<and> gs_optind g \<le> length argv \<and> mset (gs_argv g) = mset argv \<and>
          take 2 (gs_argv g ! (gs_optind g - 1)) = ''--'')) \<and>
    1 \<le> go_optind run \<and> go_optind run \<le> length argv \<and> mset (go_argv run) = mset argv"
proof -
  have ok: "scan_ok CONFIG_OPTSTRING argv 1 (getopt_long h CONFIG_OPTSTRING CONFIG_LONG_OPTIONS argv)"
    using assms by (rule config_tables.getopt_long_ok)
  have "gs_option g \<in> set ''tinwSDLMvh?'' \<and>
       (gs_option g \<in> set ''tinwSDL'' \<longrightarrow> gs_optarg g \<noteq> None) \<and>
       (gs_option g = CHR ''?'' \<and> gs_optopt g = 0 \<longrightarrow>
          1 \<le> gs_optind g \<and> gs_optind g \<le> length argv \<and> mset (gs_argv g) = mset argv \<and>
          take 2 (gs_argv g ! (gs_optind g - 1)) = ''--'')"
    if "step_ok CONFIG_OPTSTRING argv g" for g
    using that mset_eq_length [of "gs_argv g" argv]
    by (auto simp: step_ok_def config_letters split: if_splits)
  with ok show ?thesis by (simp add: scan_ok_def Let_def)
qed

theorem options_arrive_well_formed_witness:
  "let argv = [''openups'', ''8.8.8.8'', ''--frequency=3'', ''-i'']
   in gs_argv (hd (go_steps (getopt_long sample_host CONFIG_OPTSTRING CONFIG_LONG_OPTIONS argv))) ! 2 =
        ''--frequency=3'' \<and>
      mset (go_argv (getopt_long sample_host CONFIG_OPTSTRING CONFIG_LONG_OPTIONS argv)) = mset argv"
  using options_arrive_well_formed [of "[''openups'', ''8.8.8.8'', ''--frequency=3'', ''-i'']" sample_host]
  by (simp add: Let_def getopt_long_def sample_host_def is_operand_def option_word_def long_word_def
      find_long_def CONFIG_LONG_OPTIONS_def config_letters)

section \<open>From a configuration to words and back\<close>

text \<open>What a configuration says, as option letters with the texts the program prints.\<close>

definition config_settings :: "config_t \<Rightarrow> (char \<times> string) list" where
  "config_settings c =
     [(CHR ''t'', target c), (CHR ''i'', show_int (interval_sec c)),
      (CHR ''n'', show_int (fail_threshold c)), (CHR ''w'', show_int (timeout_ms c)),
      (CHR ''S'', shutdown_mode_to_string (shutdown_mode c)),
      (CHR ''D'', show_int (delay_minutes c)), (CHR ''L'', log_level_to_string (log_level c)),
      (CHR ''M'', bool_text (enable_systemd c))]"

text \<open>The parsers of all options read back the settings of a configuration within bounds.\<close>

lemma printed_int_roundtrip:
  assumes "lo \<le> v" "v \<le> INT_MAX" "0 \<le> lo"
  shows "parse_int_value (Some (show_int v)) lo INT_MAX = Some v"
proof -
  have "LONG_MIN \<le> lo" "INT_MAX \<le> LONG_MAX"
    using assms(3) by (simp_all add: LONG_MIN_def LONG_MAX_def INT_MAX_def)
  moreover have "\<exists>neg n. c_decimal (show_int v) neg n \<and> v = signed_val neg n"
    by (rule exI [of _ "v < 0"], rule exI [of _ "nat \<bar>v\<bar>"])
      (simp add: c_decimal_show_int signed_val_def)
  ultimately show ?thesis using parse_int_value_iff [of lo INT_MAX] assms(1,2) by blast
qed

lemma settings_parse:
  assumes "valid_config h c" "int_fields_fit c" "length (target c) < 64"
  shows "parse_target (Some (target c)) = Some (target c)"
    and "parse_int_value (Some (show_int (interval_sec c))) 1 INT_MAX = Some (interval_sec c)"
    and "parse_int_value (Some (show_int (fail_threshold c))) 1 INT_MAX = Some (fail_threshold c)"
    and "parse_int_value (Some (show_int (timeout_ms c))) 1 INT_MAX = Some (timeout_ms c)"
    and "parse_int_value (Some (show_int (delay_minutes c))) 0 INT_MAX = Some (delay_minutes c)"
    and "shutdown_mode_parse_internal (Some (shutdown_mode_to_string (shutdown_mode c))) =
      Some (shutdown_mode c)"
    and "parse_log_level_value (Some (log_level_to_string (log_level c))) = Some (log_level c)"
    and "parse_bool_value (Some (bool_text (enable_systemd c))) True = Some (enable_systemd c)"
  using assms
  by (simp_all add: parse_target_def printed_int_roundtrip valid_config_def
      int_fields_fit_def shutdown_mode_parse_internal_def parse_log_level_value_def
      shutdown_modes.parse_print log_levels.parse_print parse_bool_value_def bool_text_def
      string_equals_ignore_case_def strcasecmp_eq_def c_tolower_def)

abbreviation says :: "config_t \<Rightarrow> getopt_step \<Rightarrow> bool" where
  "says c g \<equiv> (gs_option g, gs_optarg g) \<in> (\<lambda>(l, v). (l, Some v)) ` set (config_settings c)"

lemma option_accepted:
  assumes "valid_config h c" "int_fields_fit c" "length (target c) < 64" and "says c g"
  shows "\<exists>c'. cmdline_option g (c1, ex) = Inr (c', ex)"
proof -
  note p = settings_parse [OF assms(1-3)]
  show ?thesis
    using assms(3,4) unfolding config_settings_def
    by (auto simp: cmdline_option_def and_then_def parse_cmdline_int_option_def
        parse_cmdline_bool_option_def parse_cmdline_log_level_option_def
        parse_cmdline_shutdown_mode_option_def copy_string_value_def TARGET_SIZE_def p)
qed

lemma options_accepted:
  assumes "valid_config h c" "int_fields_fit c" "length (target c) < 64"
    and "\<forall>g\<in>set gs. says c g"
  shows "\<exists>c'. cmdline_loop gs (c1, ex) = Inr (c', ex)"
  using assms(4)
proof (induction gs arbitrary: c1)
  case (Cons g gs)
  obtain c2 where "cmdline_option g (c1, ex) = Inr (c2, ex)"
    using option_accepted [OF assms(1-3), of g c1 ex] Cons.prems by auto
  with Cons show ?case by (simp add: and_then_def)
qed simp

lemma last_arg_said:
  assumes "(l, v) \<in> set settings" and "map (\<lambda>g. (gs_option g, gs_optarg g)) gs =
      map (\<lambda>(l, v). (l, Some v)) settings"
    and "\<forall>u. (l, u) \<in> set settings \<longrightarrow> u = v"
  shows "last_arg l gs = Some (Some v)"
proof -
  have eq: "(\<lambda>g. (gs_option g, gs_optarg g)) ` set gs = (\<lambda>(l, v). (l, Some v)) ` set settings"
    using arg_cong [OF assms(2), of set] by simp
  have "(l, Some v) \<in> (\<lambda>g. (gs_option g, gs_optarg g)) ` set gs"
    unfolding eq using assms(1) by force
  then have ne: "filter (\<lambda>g. gs_option g = l) gs \<noteq> []" by (auto simp: filter_empty_conv)
  then have h: "last (filter (\<lambda>g. gs_option g = l) gs) \<in> set gs"
    "gs_option (last (filter (\<lambda>g. gs_option g = l) gs)) = l"
    using last_in_set [OF ne] by auto
  then have "(l, gs_optarg (last (filter (\<lambda>g. gs_option g = l) gs))) \<in>
      (\<lambda>(l, v). (l, Some v)) ` set settings"
    unfolding eq [symmetric] by force
  then show ?thesis using ne assms(3) by (auto simp: last_arg_def)
qed



end
