(* ===== verification/Spec2Isabelle.thy ===== *)
theory Spec2Isabelle
  imports OutageProg CommandLine
begin

text \<open>
  OpenUPS watches a host with ICMP echo requests and shuts the machine down when a configured
  number of them in a row got no reply, at once or after a delay. This development
  models the C program (\<open>src/src/*.c\<close> and
  \<open>openups.h\<close>) and proves what a user relies on: no shutdown without the configured outage, a
  shutdown when there is one, no packet taken for a reply that is not one, no run that a stop
  signal does not end.

  \<^bold>\<open>The program.\<close> \<open>main\<close> resolves the configuration (environment, then command line, then
  validation), creates a context (destination address, ICMP socket, statistics, systemd notifier),
  runs the reactor, and destroys the context. The reactor is one thread around \<open>poll\<close>: each
  iteration looks at the pending shutdown, the watchdog, the expired reply and the probe schedule,
  waits for a signal or a packet, and handles it. What it knows is the monitor state (absolute
  deadlines in milliseconds), the count of consecutive failures and the statistics.

  \<^bold>\<open>The theories,\<close> in the order of their imports.
  \<^item> \<open>Prelude\<close>: machine integers, the checked operations of \<open>stdckdint.h\<close>, the collections of
    hints. \<open>CString\<close>: \<open>strcasecmp\<close>, \<open>strtol\<close>, \<open>strtoull\<close>, decimal printing. \<open>Double\<close>: binary64
    as a real with explicit rounding.
  \<^item> \<open>World\<close>: the operating system, one function per system call. \<open>Effects\<close>: frame conditions and
    fairness, the retry loops of interrupted calls, the general loop \<open>loop_until\<close>.
  \<^item> \<open>Types\<close> (the types of \<open>openups.h\<close>), \<open>Logger\<close> (\<open>logger.c\<close>), \<open>Samples\<close> (a concrete world for
    the instances), \<open>Getopt\<close> (the scan of the command line by the C library), \<open>Config\<close>
    (\<open>config.c\<close>) and \<open>CommandLine\<close> (its option tables under that scan), \<open>Icmp\<close> (\<open>icmp.c\<close>), \<open>Shutdown\<close> (\<open>shutdown.c\<close>), \<open>Notify\<close>
    (\<open>systemd.c\<close>), \<open>Services\<close> (the service table of \<open>openups.h\<close>).
  \<^item> \<open>MonitorState\<close>, \<open>Metrics\<close>, \<open>ShutdownFsm\<close>, \<open>Runtime\<close>, \<open>Reactor\<close>: the definitions of \<open>monitor.c\<close>
    from top to bottom, with the lemmas of each part; \<open>ReactorSteps\<close> and \<open>ReactorRun\<close> hold the
    lemmas on one iteration and on a run. \<open>MainProg\<close>: \<open>main.c\<close>.
  \<^item> \<open>OutageWorld\<close>, \<open>OutageRun\<close>, \<open>OutageProg\<close>: the outage from the first lost probe to the
    shutdown command, for the reactor and for the whole program.
  \<^item> \<open>Outage\<close>: the abstract machine that says what the monitor promises. \<open>Context\<close>: the contract
    \<open>monitor_handler\<close> of the functions that the reactor calls.

  \<^bold>\<open>Correspondence.\<close> Definitions have the names of the C functions, fields those of the structs
  (with a prefix where two structs share a name).
  \<^item> A C \<open>int\<close>, \<open>long\<close> or \<open>time_t\<close> is an \<open>int\<close> whose range is a hypothesis or proved
    (\<open>int_fields_fit\<close>); unsigned types are words and wrap. A \<open>double\<close> is a real, rounded after
    every operation.
  \<^item> The world is threaded through every function that calls the system. It holds the stream of
    the answers of each call, which is arbitrary, and the trace of what an observer sees (lines
    logged, notifications, packets, descriptors opened and closed, processes started, waits).
    \<open>inet_pton\<close>, \<open>localtime_r\<close>, \<open>strerror\<close> and the environment are functions of its
    field \<open>host\<close>, hence parameters of everything proved.
  \<^item> An \<open>option\<close> around a result is \<open>None\<close> when the call does not return. A function that updates
    objects through pointers returns the new objects beside its result; a pointer that always leads
    to an object is the object, so guards against \<open>NULL\<close> are not modelled. An error buffer is the
    text left in it, cut off as \<open>snprintf\<close> does.
  \<^item> The text of a \<open>printf\<close>-style call is passed already formatted.

  \<^bold>\<open>What the lemmas show.\<close>
  \<^item> Frames (\<open>later\<close>, \<open>held\<close>): which answers a function consumes, which kinds of events it adds,
    that it closes what it opens. Fairness (\<open>fair\<close>, \<open>returns\<close>): in a world in which interrupted
    calls end at last and the clock advances, a function returns and leaves such a world.
  \<^item> Well-formedness: \<open>monitor_state_wf\<close>, \<open>ctx_wf\<close>, \<open>monitor_inv\<close>, each kept by every operation.
  \<^item> Refinement: \<open>outage_step\<close> counts the losses since the last reply and says when a shutdown is
    due; \<open>refines_outage\<close> relates a handler's effect to a run of it, with the packets it sent, the
    processes it started and the statistics it kept. Handlers compose, so an iteration, a run and
    the program refine it too, with a history whose times are readings of the monotonic clock.
  \<^item> Liveness: a stop signal ends the run; an outage ends it too, with the shutdown executed once.
    For this the world of an outage is described by its answers (every probe is accepted, nothing
    is received, the clock advances in bounded steps, the command can be started), and the
    deadlines are followed from reading to reading: the reply after \<open>f\<close> losses is due at most
    \<open>f\<close> cycles after the first (\<open>on_course\<close>).
  \<^item> Each component's function on every branch: parsers against their specification, bytes on the
    wire, the reply accepted exactly when it answers the probe, deadlines, rates, log lines,
    configurations written as words and read back.

  \<^bold>\<open>Bounds.\<close> Draining the socket handles at most 32 answers and a notification is tried three times,
  both by recursion on a number. The loops without a bound in the code (interrupted calls, the
  observation of the child until its deadline, the reactor) are \<open>partial_function (option)\<close>; that
  they return is proved from \<open>fair\<close>, for the reactor from a stop signal or from an outage.

  \<^bold>\<open>Not modelled.\<close> The header guards and declarations of \<open>monitor.h\<close>; compiler attributes; guards
  against \<open>NULL\<close>; the flags of \<open>send\<close>, \<open>sendto\<close> and \<open>recvfrom\<close>, which do not change within a run; the
  contents of the saved signal mask, which is only restored; the overflow of \<open>consecutive_fails\<close>
  after \<open>2 ^ 31\<close> losses without a reply, which takes 68 years at the shortest interval of
  one second; the checksum of an odd number of bytes on a big-endian host, which no caller
  asks for. The integration tests and the packaging hold no logic of the program.
\<close>

end
